(* ===== verification/Firma_Prelude.thy ===== *)
theory Firma_Prelude
  imports Complex_Main "HOL-Library.Sublist" "HOL-Library.Char_ord" "HOL-Library.List_Lexorder"
    "HOL-Library.Monad_Syntax" "HOL-Library.Code_Target_Numeral"
begin

text \<open>
  What every component theory shares: Rust's \<^verbatim>\<open>str\<close> operations on byte strings, the
  integer parsers and printers of the standard library, saturating counters, results as sum types,
  and the generic facts about them.

  A Rust string is a list of bytes (its UTF-8 encoding), so a \<^typ>\<open>string\<close> here is the byte
  sequence the program handles.  Operations that the standard library defines on characters
  (\<^emph>\<open>trim\<close>, \<^emph>\<open>split\<close>, \<^emph>\<open>starts_with\<close>) are given by their effect on the bytes of
  well-formed UTF-8.
\<close>

named_theorems firma_strings \<open>facts about the byte-string operations\<close>
named_theorems firma_defs \<open>definitions unfolded when an operation is analysed branch by branch\<close>

section \<open>Results\<close>

text \<open>Rust's \<^verbatim>\<open>Result<T, E>\<close> is a sum with the error on the left.\<close>

type_synonym ('e, 'a) result = "'e + 'a"

abbreviation Err :: "'e \<Rightarrow> ('e, 'a) result" where
  "Err e \<equiv> Inl e"

abbreviation Ok :: "'a \<Rightarrow> ('e, 'a) result" where
  "Ok a \<equiv> Inr a"

fun is_ok :: "('e, 'a) result \<Rightarrow> bool" where
  "is_ok (Inr a) = True"
| "is_ok (Inl e) = False"

text \<open>The \<^verbatim>\<open>?\<close> operator.\<close>

fun and_then :: "('e, 'a) result \<Rightarrow> ('a \<Rightarrow> ('e, 'b) result) \<Rightarrow> ('e, 'b) result" where
  "and_then (Inl e) f = Inl e"
| "and_then (Inr a) f = f a"

definition map_err :: "('e \<Rightarrow> 'f) \<Rightarrow> ('e, 'a) result \<Rightarrow> ('f, 'a) result" where
  "map_err f r = (case r of Inl e \<Rightarrow> Err (f e) | Inr a \<Rightarrow> Ok a)"

lemma and_then_Ok: "and_then r f = Ok v \<longleftrightarrow> (\<exists>x. r = Ok x \<and> f x = Ok v)"
  by (cases r) simp_all

lemma and_then_Err: "and_then r f = Err e \<longleftrightarrow> r = Err e \<or> (\<exists>x. r = Ok x \<and> f x = Err e)"
  by (cases r) simp_all

fun ok_or :: "'e \<Rightarrow> 'a option \<Rightarrow> ('e, 'a) result" where
  "ok_or e None = Inl e"
| "ok_or e (Some a) = Inr a"

fun unwrap_or :: "'a \<Rightarrow> 'a option \<Rightarrow> 'a" where
  "unwrap_or d None = d"
| "unwrap_or d (Some a) = a"

section \<open>Bytes\<close>

definition byte_val :: "char \<Rightarrow> nat" where
  "byte_val c = of_char c"

definition is_ascii_digit :: "char \<Rightarrow> bool" where
  "is_ascii_digit c \<longleftrightarrow> 48 \<le> byte_val c \<and> byte_val c \<le> 57"

definition is_ascii_upper :: "char \<Rightarrow> bool" where
  "is_ascii_upper c \<longleftrightarrow> 65 \<le> byte_val c \<and> byte_val c \<le> 90"

definition is_ascii_lower :: "char \<Rightarrow> bool" where
  "is_ascii_lower c \<longleftrightarrow> 97 \<le> byte_val c \<and> byte_val c \<le> 122"

definition is_ascii_alphanumeric :: "char \<Rightarrow> bool" where
  "is_ascii_alphanumeric c \<longleftrightarrow> is_ascii_digit c \<or> is_ascii_upper c \<or> is_ascii_lower c"

definition is_ascii_graphic :: "char \<Rightarrow> bool" where
  "is_ascii_graphic c \<longleftrightarrow> 33 \<le> byte_val c \<and> byte_val c \<le> 126"

definition is_ascii_hexdigit :: "char \<Rightarrow> bool" where
  "is_ascii_hexdigit c \<longleftrightarrow>
     is_ascii_digit c \<or> 65 \<le> byte_val c \<and> byte_val c \<le> 70 \<or> 97 \<le> byte_val c \<and> byte_val c \<le> 102"

definition to_lower_byte :: "char \<Rightarrow> char" where
  "to_lower_byte c = (if is_ascii_upper c then char_of (byte_val c + 32) else c)"

definition to_ascii_lowercase :: "string \<Rightarrow> string" where
  "to_ascii_lowercase s = map to_lower_byte s"

definition eq_ignore_ascii_case :: "string \<Rightarrow> string \<Rightarrow> bool" where
  "eq_ignore_ascii_case a b \<longleftrightarrow> to_ascii_lowercase a = to_ascii_lowercase b"

section \<open>Searching and splitting\<close>

definition strip_prefix :: "string \<Rightarrow> string \<Rightarrow> string option" where
  "strip_prefix p s = (if prefix p s then Some (drop (length p) s) else None)"

definition strip_suffix :: "string \<Rightarrow> string \<Rightarrow> string option" where
  "strip_suffix p s = (if suffix p s then Some (take (length s - length p) s) else None)"

text \<open>\<^verbatim>\<open>s.split(c)\<close>: always at least one piece.\<close>

fun split_on :: "char \<Rightarrow> string \<Rightarrow> string list" where
  "split_on c [] = [[]]"
| "split_on c (x # xs) =
     (if x = c then [] # split_on c xs
      else (case split_on c xs of [] \<Rightarrow> [[x]] | y # ys \<Rightarrow> (x # y) # ys))"

text \<open>\<^verbatim>\<open>pieces.join(c)\<close> for a one-byte separator.\<close>

fun join_with :: "char \<Rightarrow> string list \<Rightarrow> string" where
  "join_with c [] = []"
| "join_with c [x] = x"
| "join_with c (x # y # ys) = x @ c # join_with c (y # ys)"

fun split_once :: "char \<Rightarrow> string \<Rightarrow> (string \<times> string) option" where
  "split_once c [] = None"
| "split_once c (x # xs) =
     (if x = c then Some ([], xs)
      else (case split_once c xs of None \<Rightarrow> None | Some (a, b) \<Rightarrow> Some (x # a, b)))"

fun rsplit_once :: "char \<Rightarrow> string \<Rightarrow> (string \<times> string) option" where
  "rsplit_once c [] = None"
| "rsplit_once c (x # xs) =
     (case rsplit_once c xs of
        Some (a, b) \<Rightarrow> Some (x # a, b)
      | None \<Rightarrow> (if x = c then Some ([], xs) else None))"

fun split_once_str :: "string \<Rightarrow> string \<Rightarrow> (string \<times> string) option" where
  "split_once_str p [] = (if p = [] then Some ([], []) else None)"
| "split_once_str p (x # xs) =
     (if prefix p (x # xs) then Some ([], drop (length p) (x # xs))
      else (case split_once_str p xs of None \<Rightarrow> None | Some (a, b) \<Rightarrow> Some (x # a, b)))"

definition contains_str :: "string \<Rightarrow> string \<Rightarrow> bool" where
  "contains_str p s \<longleftrightarrow> split_once_str p s \<noteq> None"

definition trim_end_matches :: "char \<Rightarrow> string \<Rightarrow> string" where
  "trim_end_matches c s = rev (dropWhile (\<lambda>x. x = c) (rev s))"

definition trim_start_matches :: "char \<Rightarrow> string \<Rightarrow> string" where
  "trim_start_matches c s = dropWhile (\<lambda>x. x = c) s"

text \<open>
  \<^verbatim>\<open>str::lines\<close> and \<^verbatim>\<open>BufRead::lines\<close>: pieces between newlines, without a last empty piece or a
  final carriage return.
\<close>

definition read_lines :: "string \<Rightarrow> string list" where
  "read_lines bytes =
     (let pieces = split_on (CHR 0x0A) bytes;
          lines = (if last pieces = [] then butlast pieces else pieces)
      in map (\<lambda>l. unwrap_or l (strip_suffix [CHR 0x0D] l)) lines)"

section \<open>Whitespace trimming\<close>

text \<open>
  \<^verbatim>\<open>str::trim\<close> removes the characters with the Unicode property White_Space.  Their UTF-8
  encodings are one byte (tab to carriage return, space), two bytes (U+0085, U+00A0) or three
  bytes (U+1680, U+2000--U+200A, U+2028, U+2029, U+202F, U+205F, U+3000).
\<close>

definition ws1 :: "nat \<Rightarrow> bool" where
  "ws1 a \<longleftrightarrow> a = 32 \<or> 9 \<le> a \<and> a \<le> 13"

definition ws2 :: "nat \<Rightarrow> nat \<Rightarrow> bool" where
  "ws2 a b \<longleftrightarrow> a = 194 \<and> (b = 133 \<or> b = 160)"

definition ws3 :: "nat \<Rightarrow> nat \<Rightarrow> nat \<Rightarrow> bool" where
  "ws3 a b c \<longleftrightarrow>
     a = 225 \<and> b = 154 \<and> c = 128
   \<or> a = 226 \<and> b = 128 \<and> (128 \<le> c \<and> c \<le> 138 \<or> c = 168 \<or> c = 169 \<or> c = 175)
   \<or> a = 226 \<and> b = 129 \<and> c = 159
   \<or> a = 227 \<and> b = 128 \<and> c = 128"

text \<open>The number of bytes of the whitespace character at the head of a string, 0 if there is none.\<close>

fun ws_head :: "nat list \<Rightarrow> nat" where
  "ws_head (a # b # c # r) = (if ws1 a then 1 else if ws2 a b then 2 else if ws3 a b c then 3 else 0)"
| "ws_head [a, b] = (if ws1 a then 1 else if ws2 a b then 2 else 0)"
| "ws_head [a] = (if ws1 a then 1 else 0)"
| "ws_head [] = 0"

text \<open>The same for the last character; the argument is the reversed string.\<close>

fun ws_last :: "nat list \<Rightarrow> nat" where
  "ws_last (c # b # a # r) = (if ws1 c then 1 else if ws2 b c then 2 else if ws3 a b c then 3 else 0)"
| "ws_last [c, b] = (if ws1 c then 1 else if ws2 b c then 2 else 0)"
| "ws_last [c] = (if ws1 c then 1 else 0)"
| "ws_last [] = 0"

lemma ws_head_le: "ws_head xs \<le> length xs"
  by (induction xs rule: ws_head.induct) auto

lemma ws_last_le: "ws_last xs \<le> length xs"
  by (induction xs rule: ws_last.induct) auto

lemma ws_head_shrinks: "0 < ws_head (map byte_val s) \<Longrightarrow> length s - ws_head (map byte_val s) < length s"
  by (cases s) auto

lemma ws_last_shrinks: "0 < ws_last (map byte_val s) \<Longrightarrow> length s - ws_last (map byte_val s) < length s"
  by (cases s) auto

function trim_start :: "string \<Rightarrow> string" where
  "trim_start s =
     (let n = ws_head (map byte_val s) in if n = 0 then s else trim_start (drop n s))"
  by auto
termination
  by (relation "measure length") (auto intro: ws_head_shrinks)

text \<open>The worker of \<^verbatim>\<open>trim_end\<close>, on the reversed string.\<close>

function trim_end_rev :: "string \<Rightarrow> string" where
  "trim_end_rev s =
     (let n = ws_last (map byte_val s) in if n = 0 then s else trim_end_rev (drop n s))"
  by auto
termination
  by (relation "measure length") (auto intro: ws_last_shrinks)

declare trim_start.simps [simp del] trim_end_rev.simps [simp del]

definition trim_end :: "string \<Rightarrow> string" where
  "trim_end s = rev (trim_end_rev (rev s))"

definition trim :: "string \<Rightarrow> string" where
  "trim s = trim_end (trim_start s)"

section \<open>Integers\<close>

definition u8_max :: nat where "u8_max = 255"
definition u16_max :: nat where "u16_max = 65535"
definition u32_max :: nat where "u32_max = 4294967295"
definition u64_max :: nat where "u64_max = 18446744073709551615"

definition sat_add :: "nat \<Rightarrow> nat \<Rightarrow> nat" where
  "sat_add a b = min u64_max (a + b)"

definition digit_val :: "char \<Rightarrow> nat option" where
  "digit_val c =
     (if is_ascii_digit c then Some (byte_val c - 48)
      else if 97 \<le> byte_val c \<and> byte_val c \<le> 122 then Some (byte_val c - 87)
      else if 65 \<le> byte_val c \<and> byte_val c \<le> 90 then Some (byte_val c - 55)
      else None)"

fun parse_digits :: "nat \<Rightarrow> nat \<Rightarrow> nat \<Rightarrow> string \<Rightarrow> nat option" where
  "parse_digits radix mx acc [] = Some acc"
| "parse_digits radix mx acc (c # cs) =
     (case digit_val c of
        None \<Rightarrow> None
      | Some d \<Rightarrow>
          (if d < radix \<and> acc * radix + d \<le> mx then parse_digits radix mx (acc * radix + d) cs
           else None))"

text \<open>\<^verbatim>\<open>uN::from_str_radix\<close>: a leading plus sign is accepted, overflow is an error.\<close>

fun from_str_radix :: "nat \<Rightarrow> nat \<Rightarrow> string \<Rightarrow> nat option" where
  "from_str_radix mx radix [] = None"
| "from_str_radix mx radix (c # cs) =
     (if c = CHR ''+'' then (if cs = [] then None else parse_digits radix mx 0 cs)
      else parse_digits radix mx 0 (c # cs))"

definition parse_uint :: "nat \<Rightarrow> string \<Rightarrow> nat option" where
  "parse_uint mx s = from_str_radix mx 10 s"

fun show_nat :: "nat \<Rightarrow> string" where
  "show_nat n = (if n < 10 then [char_of (48 + n)] else show_nat (n div 10) @ [char_of (48 + n mod 10)])"

declare show_nat.simps [simp del]

section \<open>Generic facts\<close>

lemma find_eq: "c \<in> set xs \<Longrightarrow> find ((=) c) xs = Some c"
  by (induction xs) auto

lemma last_neq: "c \<notin> set x \<Longrightarrow> x \<noteq> [] \<Longrightarrow> last x \<noteq> c"
  using last_in_set [of x] by metis

subsection \<open>Lower case\<close>

lemma byte_val_less [simp]: "byte_val c < 256"
  by (simp add: byte_val_def)

lemma char_of_byte_val [simp]: "char_of (byte_val c) = c"
  by (simp add: byte_val_def)

lemma byte_val_char_of: "n < 256 \<Longrightarrow> byte_val (char_of n) = n"
  by (simp add: byte_val_def)

lemma byte_val_to_lower:
  "byte_val (to_lower_byte c) = (if is_ascii_upper c then byte_val c + 32 else byte_val c)"
  by (auto simp: to_lower_byte_def is_ascii_upper_def byte_val_char_of)

lemma to_lower_not_upper [simp]: "\<not> is_ascii_upper (to_lower_byte c)"
  by (auto simp: is_ascii_upper_def byte_val_to_lower)

lemma to_lower_id: "\<not> is_ascii_upper c \<Longrightarrow> to_lower_byte c = c"
  by (simp add: to_lower_byte_def)

lemma to_lower_idem [simp]: "to_lower_byte (to_lower_byte c) = to_lower_byte c"
  by (simp add: to_lower_id)

text \<open>Only letters have more than one spelling.\<close>

lemma to_lower_eq_iff:
  assumes "\<not> is_ascii_lower x" "\<not> is_ascii_upper x"
  shows "to_lower_byte c = x \<longleftrightarrow> c = x"
proof
  assume "to_lower_byte c = x"
  moreover have "is_ascii_lower (to_lower_byte c)" if "is_ascii_upper c"
    using that by (auto simp: is_ascii_lower_def is_ascii_upper_def byte_val_to_lower)
  ultimately show "c = x" using assms to_lower_id [of c] by (cases "is_ascii_upper c") auto
qed (simp add: to_lower_id assms)

lemma to_ascii_lowercase_simps [simp]:
  "to_ascii_lowercase [] = []"
  "to_ascii_lowercase (c # s) = to_lower_byte c # to_ascii_lowercase s"
  "to_ascii_lowercase (s @ t) = to_ascii_lowercase s @ to_ascii_lowercase t"
  "length (to_ascii_lowercase s) = length s"
  "to_ascii_lowercase (to_ascii_lowercase s) = to_ascii_lowercase s"
  by (simp_all add: to_ascii_lowercase_def)

lemma to_ascii_lowercase_id: "\<forall>c \<in> set s. \<not> is_ascii_upper c \<Longrightarrow> to_ascii_lowercase s = s"
  by (simp add: to_ascii_lowercase_def map_idI to_lower_id)

lemma to_ascii_lowercase_Nil_iff [simp]: "to_ascii_lowercase s = [] \<longleftrightarrow> s = []"
  by (simp add: to_ascii_lowercase_def)

lemma to_ascii_lowercase_no_upper: "c \<in> set (to_ascii_lowercase s) \<Longrightarrow> \<not> is_ascii_upper c"
  by (auto simp: to_ascii_lowercase_def)

lemma mem_to_ascii_lowercase:
  assumes "\<not> is_ascii_lower x" "\<not> is_ascii_upper x"
  shows "x \<in> set (to_ascii_lowercase s) \<longleftrightarrow> x \<in> set s"
  using to_lower_eq_iff [OF assms] by (force simp: to_ascii_lowercase_def)

subsection \<open>Splitting\<close>

lemma split_on_not_Nil [simp]: "split_on c s \<noteq> []"
  by (induction s) (auto split: list.splits)

lemma join_split_on [firma_strings]: "join_with c (split_on c s) = s"
proof (induction s)
  case (Cons x s)
  note IH = this
  show ?case
  proof (cases "split_on c s")
    case (Cons y ys)
    with IH show ?thesis by (cases ys) auto
  qed simp
qed simp

lemma split_on_free: "p \<in> set (split_on c s) \<Longrightarrow> c \<notin> set p"
proof (induction s arbitrary: p)
  case (Cons x s)
  show ?case
  proof (cases "x = c")
    case True
    with Cons show ?thesis by auto
  next
    case False
    obtain y ys where eq: "split_on c s = y # ys" by (cases "split_on c s") auto
    with False Cons.prems have "p = x # y \<or> p \<in> set ys" by auto
    then show ?thesis using Cons.IH [of y] Cons.IH [of p] eq False by auto
  qed
qed simp

lemma set_split_on: "p \<in> set (split_on c s) \<Longrightarrow> set p \<subseteq> set s"
proof (induction s arbitrary: p)
  case (Cons x s)
  show ?case
  proof (cases "x = c")
    case True
    with Cons show ?thesis by auto
  next
    case False
    obtain y ys where eq: "split_on c s = y # ys" by (cases "split_on c s") auto
    with False Cons.prems have "p = x # y \<or> p \<in> set ys" by auto
    then show ?thesis using Cons.IH [of y] Cons.IH [of p] eq False by auto
  qed
qed simp

lemma split_on_append_sep: "split_on c (x @ c # y) = split_on c x @ split_on c y"
proof (induction x)
  case (Cons a x)
  then show ?case by (cases "split_on c x") auto
qed simp

lemma split_on_append_free:
  "c \<notin> set x \<Longrightarrow> split_on c (x @ y) = (x @ hd (split_on c y)) # tl (split_on c y)"
proof (induction x)
  case Nil
  then show ?case by (cases "split_on c y") auto
qed auto

lemma split_on_free_single: "c \<notin> set x \<Longrightarrow> split_on c x = [x]"
  using split_on_append_free [of c x "[]"] by simp

lemma join_with_append:
  "xs \<noteq> [] \<Longrightarrow> ys \<noteq> [] \<Longrightarrow> join_with c (xs @ ys) = join_with c xs @ c # join_with c ys"
proof (induction c xs rule: join_with.induct)
  case (2 c x)
  then show ?case by (cases ys) auto
qed auto

lemma join_with_head: "join_with c ((x @ y) # ys) = x @ join_with c (y # ys)"
  by (cases ys) auto

lemma split_on_join: "xs \<noteq> [] \<Longrightarrow> \<forall>x \<in> set xs. c \<notin> set x \<Longrightarrow> split_on c (join_with c xs) = xs"
  by (induction c xs rule: join_with.induct) (auto simp: split_on_append_sep split_on_free_single)

lemma set_join_with: "set (join_with c xs) \<subseteq> insert c (\<Union> (set ` set xs))"
  by (induction c xs rule: join_with.induct) auto

lemma split_on_covers: "x \<in> set s \<Longrightarrow> x = c \<or> (\<exists>p \<in> set (split_on c s). x \<in> set p)"
  using set_join_with [of c "split_on c s"] by (auto simp: join_split_on)

lemma split_once_Some: "split_once c s = Some (a, b) \<Longrightarrow> s = a @ c # b \<and> c \<notin> set a"
proof (induction s arbitrary: a)
  case (Cons x s)
  then show ?case by (cases "x = c"; cases "split_once c s") auto
qed simp

lemma split_once_append: "c \<notin> set a \<Longrightarrow> split_once c (a @ c # b) = Some (a, b)"
  by (induction a) auto

lemma split_once_Some_iff: "split_once c s = Some (a, b) \<longleftrightarrow> s = a @ c # b \<and> c \<notin> set a"
  using split_once_Some split_once_append by blast

lemma split_once_None_iff: "split_once c s = None \<longleftrightarrow> c \<notin> set s"
  by (induction s) (auto split: option.splits)

lemma rsplit_once_None_iff: "rsplit_once c s = None \<longleftrightarrow> c \<notin> set s"
  by (induction s) (auto split: option.splits)

lemma rsplit_once_Some: "rsplit_once c s = Some (a, b) \<Longrightarrow> s = a @ c # b \<and> c \<notin> set b"
proof (induction s arbitrary: a)
  case (Cons x s)
  show ?case
  proof (cases "rsplit_once c s")
    case None
    with Cons.prems show ?thesis using rsplit_once_None_iff [of c s] by (auto split: if_split_asm)
  next
    case (Some p)
    with Cons.prems Cons.IH [of "fst p"] show ?thesis by (cases p) auto
  qed
qed simp

lemma rsplit_once_append: "c \<notin> set b \<Longrightarrow> rsplit_once c (a @ c # b) = Some (a, b)"
  by (induction a) (simp_all add: rsplit_once_None_iff [THEN iffD2])

lemma rsplit_once_Some_iff: "rsplit_once c s = Some (a, b) \<longleftrightarrow> s = a @ c # b \<and> c \<notin> set b"
  using rsplit_once_Some rsplit_once_append by blast

lemma split_once_str_Some: "split_once_str p s = Some (a, b) \<Longrightarrow> s = a @ p @ b"
  by (induction s arbitrary: a) (auto split: if_splits option.splits simp: prefix_def)

subsection \<open>Trimming\<close>

lemma trim_end_matches_Nil [simp]: "trim_end_matches c [] = []"
  by (simp add: trim_end_matches_def)

lemma trim_end_matches_snoc:
  "trim_end_matches c (s @ [x]) = (if x = c then trim_end_matches c s else s @ [x])"
  by (simp add: trim_end_matches_def)

lemma trim_end_matches_id: "s = [] \<or> last s \<noteq> c \<Longrightarrow> trim_end_matches c s = s"
  by (cases s rule: rev_cases) (auto simp: trim_end_matches_snoc)

lemma trim_end_matches_last: "trim_end_matches c s = [] \<or> last (trim_end_matches c s) \<noteq> c"
  by (induction s rule: rev_induct) (auto simp: trim_end_matches_snoc)

lemma trim_end_matches_idem [simp]: "trim_end_matches c (trim_end_matches c s) = trim_end_matches c s"
  by (rule trim_end_matches_id) (rule trim_end_matches_last)

lemma trim_end_matches_replicate: "trim_end_matches c (s @ replicate n c) = trim_end_matches c s"
proof (induction n)
  case (Suc n)
  have "s @ replicate (Suc n) c = (s @ replicate n c) @ [c]" by (simp add: replicate_append_same)
  with Suc show ?case by (simp only: trim_end_matches_snoc) simp
qed simp

lemma trim_end_matches_prefix: "prefix (trim_end_matches c s) s"
proof (induction s rule: rev_induct)
  case (snoc x s)
  then show ?case by (auto simp: trim_end_matches_snoc intro: prefix_order.trans)
qed simp

lemma set_trim_end_matches: "set (trim_end_matches c s) \<subseteq> set s"
  using trim_end_matches_prefix [of c s] by (rule set_mono_prefix)

lemma trim_end_matches_lowercase:
  assumes "\<not> is_ascii_lower c" "\<not> is_ascii_upper c"
  shows "trim_end_matches c (to_ascii_lowercase s) = to_ascii_lowercase (trim_end_matches c s)"
  by (induction s rule: rev_induct) (simp_all add: trim_end_matches_snoc to_lower_eq_iff [OF assms])

text \<open>A string of printable ASCII bytes has no whitespace to trim.\<close>

lemma graphic_not_ws:
  assumes "is_ascii_graphic c"
  shows "\<not> ws1 (byte_val c)" "\<not> ws2 (byte_val c) x" "\<not> ws3 (byte_val c) x y"
    "\<not> ws2 x (byte_val c)" "\<not> ws3 x y (byte_val c)"
  using assms by (auto simp: is_ascii_graphic_def ws1_def ws2_def ws3_def)

lemma ws_head_graphic:
  assumes "list_all is_ascii_graphic s"
  shows "ws_head (map byte_val s) = 0"
  using assms
  by (cases s; cases "tl s"; cases "tl (tl s)") (simp_all add: graphic_not_ws)

lemma ws_last_graphic:
  assumes "list_all is_ascii_graphic s"
  shows "ws_last (map byte_val s) = 0"
  using assms
  by (cases s; cases "tl s"; cases "tl (tl s)") (simp_all add: graphic_not_ws)

lemma trim_graphic:
  assumes "list_all is_ascii_graphic s"
  shows "trim s = s"
proof -
  have "trim_start s = s" using assms by (subst trim_start.simps) (simp add: ws_head_graphic)
  moreover have "trim_end_rev (rev s) = rev s"
    using assms ws_last_graphic [of "rev s"] by (subst trim_end_rev.simps) simp
  ultimately show ?thesis by (simp add: trim_def trim_end_def)
qed

lemma length_trim_start: "length (trim_start s) \<le> length s"
proof (induction s rule: trim_start.induct)
  case (1 s)
  then show ?case by (cases "ws_head (map byte_val s) = 0") (auto simp: trim_start.simps [of s] Let_def)
qed

lemma length_trim_end_rev: "length (trim_end_rev s) \<le> length s"
proof (induction s rule: trim_end_rev.induct)
  case (1 s)
  then show ?case by (cases "ws_last (map byte_val s) = 0") (auto simp: trim_end_rev.simps [of s] Let_def)
qed

lemma trim_end_rev_fixed: "trim_end_rev s = s \<longleftrightarrow> ws_last (map byte_val s) = 0"
proof
  assume fixed: "trim_end_rev s = s"
  show "ws_last (map byte_val s) = 0"
  proof (rule ccontr)
    assume ws: "ws_last (map byte_val s) \<noteq> 0"
    then have "trim_end_rev s = trim_end_rev (drop (ws_last (map byte_val s)) s)"
      by (simp add: trim_end_rev.simps [of s] Let_def)
    then have "length s \<le> length s - ws_last (map byte_val s)"
      using fixed length_trim_end_rev [of "drop (ws_last (map byte_val s)) s"] by simp
    then show False using ws ws_last_shrinks [of s] by linarith
  qed
qed (simp add: trim_end_rev.simps)

lemma trim_start_fixed:
  assumes "length s \<le> length (trim_start s)"
  shows "trim_start s = s"
proof (cases "ws_head (map byte_val s) = 0")
  case False
  then have "trim_start s = trim_start (drop (ws_head (map byte_val s)) s)"
    by (simp add: trim_start.simps [of s] Let_def)
  then have "length s \<le> length s - ws_head (map byte_val s)"
    using assms length_trim_start [of "drop (ws_head (map byte_val s)) s"] by simp
  then show ?thesis using False ws_head_shrinks [of s] by linarith
qed (simp add: trim_start.simps)

lemma trim_fixed_last:
  assumes "trim s = s"
  shows "ws_last (map byte_val (rev s)) = 0"
proof -
  have "length (trim s) \<le> length (trim_start s)"
    using length_trim_end_rev [of "rev (trim_start s)"] by (simp add: trim_def trim_end_def)
  then have "trim_start s = s" using assms by (intro trim_start_fixed) simp
  then have "rev (rev (trim_end_rev (rev s))) = rev s" using assms by (simp add: trim_def trim_end_def)
  then show ?thesis by (simp add: trim_end_rev_fixed)
qed

text \<open>A line whose first byte is printable and whose last field is trimmed is not changed by trimming.\<close>

lemma tab_not_ws: "\<not> ws2 9 x" "\<not> ws3 9 x y" "\<not> ws3 x 9 y"
  by (simp_all add: ws2_def ws3_def)

lemma ws_last_extend:
  assumes "ws_last r = 0" and "r \<noteq> []"
  shows "ws_last (r @ 9 # x) = 0"
  using assms
proof (induction r rule: ws_last.induct)
  case (3 c)
  then show ?case by (cases x) (simp_all add: tab_not_ws split: if_split_asm)
qed (simp_all add: tab_not_ws split: if_split_asm)

lemma trim_fields:
  assumes "x \<noteq> []" and "is_ascii_graphic (hd x)" and "trim r = r" and "r \<noteq> []"
  shows "trim (x @ CHR 0x09 # r) = x @ CHR 0x09 # r"
proof -
  obtain c y where x: "x = c # y" using assms(1) by (cases x) auto
  have "ws_head (byte_val c # z) = 0" for z
    using assms(2) by (cases z; cases "tl z") (simp_all add: x graphic_not_ws)
  then have start: "trim_start (x @ CHR 0x09 # r) = x @ CHR 0x09 # r"
    by (subst trim_start.simps) (simp add: x)
  have "ws_last (map byte_val (rev r @ CHR 0x09 # rev x)) = 0"
    using trim_fixed_last [OF assms(3)] assms(4) ws_last_extend [of "map byte_val (rev r)"] by (simp add: byte_val_def)
  then have "trim_end_rev (rev r @ CHR 0x09 # rev x) = rev r @ CHR 0x09 # rev x" by (simp add: trim_end_rev_fixed)
  then show ?thesis using start by (simp add: trim_def trim_end_def)
qed

subsection \<open>Lines\<close>

lemma split_terminated:
  "\<forall>l \<in> set ls. c \<notin> set l \<Longrightarrow> split_on c (concat (map (\<lambda>l. l @ [c]) ls) @ r) = ls @ split_on c r"
  by (induction ls) (simp_all add: split_on_append_sep split_on_free_single)

lemma read_lines_append:
  assumes "\<forall>l \<in> set ls. CHR 0x0A \<notin> set l \<and> \<not> suffix [CHR 0x0D] l"
  shows "read_lines (concat (map (\<lambda>l. l @ [CHR 0x0A]) ls) @ r) = ls @ read_lines r"
proof -
  have "map (\<lambda>l. unwrap_or l (strip_suffix [CHR 0x0D] l)) ls = ls"
    using assms by (induction ls) (auto simp: strip_suffix_def)
  then show ?thesis
    using assms by (simp add: read_lines_def split_terminated butlast_append last_append Let_def)
qed

lemma read_lines_terminated:
  assumes "\<forall>l \<in> set ls. CHR 0x0A \<notin> set l \<and> \<not> suffix [CHR 0x0D] l"
  shows "read_lines (concat (map (\<lambda>l. l @ [CHR 0x0A]) ls)) = ls"
  using read_lines_append [OF assms, of "[]"] by (simp add: read_lines_def)

subsection \<open>Decimal numbers\<close>

lemma digit_val_char_of: "d < 10 \<Longrightarrow> digit_val (char_of (48 + d)) = Some d"
  by (simp add: digit_val_def is_ascii_digit_def byte_val_char_of)

lemma parse_digits_append:
  "parse_digits radix mx acc (s @ t) =
     (case parse_digits radix mx acc s of None \<Rightarrow> None | Some v \<Rightarrow> parse_digits radix mx v t)"
  by (induction s arbitrary: acc) (auto split: option.splits)

lemma parse_digits_show_nat: "n \<le> mx \<Longrightarrow> parse_digits 10 mx 0 (show_nat n) = Some n"
proof (induction n rule: show_nat.induct)
  case (1 n)
  show ?case
  proof (cases "n < 10")
    case True
    with 1 show ?thesis by (simp add: show_nat.simps [of n] digit_val_char_of)
  next
    case False
    with 1 have "parse_digits 10 mx 0 (show_nat (n div 10)) = Some (n div 10)" by simp
    with False 1 show ?thesis
      by (simp add: show_nat.simps [of n] parse_digits_append digit_val_char_of)
  qed
qed

lemma is_ascii_digit_char_of: "(d::nat) < 10 \<Longrightarrow> is_ascii_digit (char_of (48 + d))"
  by (simp add: is_ascii_digit_def byte_val_char_of)

lemma show_nat_digits: "list_all is_ascii_digit (show_nat n)"
proof (induction n rule: show_nat.induct)
  case (1 n)
  then show ?case by (simp add: show_nat.simps [of n] is_ascii_digit_char_of)
qed

lemma show_nat_not_Nil [simp]: "show_nat n \<noteq> []"
  by (simp add: show_nat.simps [of n])

lemma from_str_radix_digits:
  "list_all is_ascii_digit s \<Longrightarrow> s \<noteq> [] \<Longrightarrow> from_str_radix mx r s = parse_digits r mx 0 s"
proof (cases s)
  case (Cons c cs)
  moreover assume "list_all is_ascii_digit s"
  moreover have "\<not> is_ascii_digit CHR ''+''" by code_simp
  ultimately show ?thesis by (cases "c = CHR ''+''") (simp_all del: parse_digits.simps)
qed simp

lemma parse_show_nat [simp]: "n \<le> mx \<Longrightarrow> parse_uint mx (show_nat n) = Some n"
  by (simp add: parse_uint_def from_str_radix_digits show_nat_digits parse_digits_show_nat)

lemma show_nat_free: "\<not> is_ascii_digit c \<Longrightarrow> c \<notin> set (show_nat n)"
  using show_nat_digits [of n] by (auto simp: list_all_iff)

lemma show_nat_inject:
  assumes "show_nat n = show_nat m"
  shows "n = m"
proof -
  have "Some n = parse_uint (max n m) (show_nat n)" and "parse_uint (max n m) (show_nat m) = Some m" by simp_all
  then show ?thesis using assms by (metis option.inject)
qed

lemma parse_digits_le: "parse_digits r mx acc s = Some n \<Longrightarrow> acc \<le> mx \<Longrightarrow> n \<le> mx"
  by (induction s arbitrary: acc) (auto split: option.splits if_splits)

lemma parse_uint_le: "parse_uint mx s = Some n \<Longrightarrow> n \<le> mx"
  by (cases s) (auto simp del: parse_digits.simps simp: parse_uint_def split: if_split_asm
      dest: parse_digits_le)

end
