(* ===== verification/Lru_Cache.thy ===== *)
theory Lru_Cache
  imports Firma_Prelude
begin

text \<open>
  The interface of the least-recently-used cache of the \<^verbatim>\<open>lru\<close> crate that the revocation store and
  the session-state stores call. The crate is outside the sources, so its operations are a record of
  functions and its documented behaviour the predicate \<open>lru_laws\<close>; \<open>assoc_lru\<close> is an association list
  that satisfies it.
\<close>

text \<open>
  \<open>lru_get\<close> returns the value and the cache with the key promoted; \<open>lru_get_or_insert_mut c k d f\<close> is
  the cache after the reference returned for \<open>k\<close> (inserted as \<open>d\<close> when absent) was updated by \<open>f\<close>.
\<close>

record ('c, 'v) lru_lib =
  lru_new :: "nat \<Rightarrow> 'c"
  lru_cap :: "'c \<Rightarrow> nat"
  lru_len :: "'c \<Rightarrow> nat"
  lru_peek :: "'c \<Rightarrow> string \<Rightarrow> 'v option"
  lru_get :: "'c \<Rightarrow> string \<Rightarrow> 'v option \<times> 'c"
  lru_put :: "'c \<Rightarrow> string \<Rightarrow> 'v \<Rightarrow> 'c"
  lru_get_or_insert_mut :: "'c \<Rightarrow> string \<Rightarrow> 'v \<Rightarrow> ('v \<Rightarrow> 'v) \<Rightarrow> 'c"

text \<open>What a write of key \<open>k\<close> with value \<open>v\<close> may do: it evicts other keys only when the cache is full.\<close>

definition lru_written :: "('c, 'v) lru_lib \<Rightarrow> 'c \<Rightarrow> string \<Rightarrow> 'v \<Rightarrow> 'c \<Rightarrow> bool" where
  "lru_written lib c k v c' \<longleftrightarrow>
     lru_peek lib c' k = Some v
   \<and> (\<forall>k'. k' \<noteq> k \<longrightarrow> lru_peek lib c' k' = lru_peek lib c k' \<or> lru_peek lib c' k' = None)
   \<and> (lru_peek lib c k \<noteq> None \<or> lru_len lib c < lru_cap lib c \<longrightarrow>
        (\<forall>k'. k' \<noteq> k \<longrightarrow> lru_peek lib c' k' = lru_peek lib c k'))
   \<and> lru_cap lib c' = lru_cap lib c
   \<and> lru_len lib c' \<le> lru_cap lib c
   \<and> lru_len lib c' \<le> (if lru_peek lib c k = None then Suc (lru_len lib c) else lru_len lib c)"

definition lru_laws :: "('c, 'v) lru_lib \<Rightarrow> bool" where
  "lru_laws lib \<longleftrightarrow>
     (\<forall>n k. 0 < n \<longrightarrow> lru_peek lib (lru_new lib n) k = None \<and> lru_cap lib (lru_new lib n) = n
        \<and> lru_len lib (lru_new lib n) = 0)
   \<and> (\<forall>c k. fst (lru_get lib c k) = lru_peek lib c k
        \<and> lru_peek lib (snd (lru_get lib c k)) = lru_peek lib c)
   \<and> (\<forall>c k v. lru_written lib c k v (lru_put lib c k v))
   \<and> (\<forall>c k d f. lru_written lib c k (f (unwrap_or d (lru_peek lib c k))) (lru_get_or_insert_mut lib c k d f))"

lemma lru_new_peek: "lru_laws lib \<Longrightarrow> 0 < n \<Longrightarrow> lru_peek lib (lru_new lib n) k = None"
  by (simp add: lru_laws_def)

lemma lru_get_peek:
  assumes "lru_laws lib"
  shows "fst (lru_get lib c k) = lru_peek lib c k" "lru_peek lib (snd (lru_get lib c k)) = lru_peek lib c"
  using assms by (simp_all add: lru_laws_def)

lemma lru_put_written: "lru_laws lib \<Longrightarrow> lru_written lib c k v (lru_put lib c k v)"
  by (simp add: lru_laws_def)

lemma lru_get_or_insert_mut_written:
  "lru_laws lib \<Longrightarrow>
     lru_written lib c k (f (unwrap_or d (lru_peek lib c k))) (lru_get_or_insert_mut lib c k d f)"
  by (simp add: lru_laws_def)

lemma lru_written_same: "lru_written lib c k v c' \<Longrightarrow> lru_peek lib c' k = Some v"
  by (simp add: lru_written_def)

lemma lru_written_other:
  "lru_written lib c k v c' \<Longrightarrow> k' \<noteq> k \<Longrightarrow> lru_peek lib c' k' = lru_peek lib c k' \<or> lru_peek lib c' k' = None"
  by (simp add: lru_written_def)

lemma lru_written_keeps:
  "lru_written lib c k v c' \<Longrightarrow> lru_peek lib c k \<noteq> None \<or> lru_len lib c < lru_cap lib c \<Longrightarrow> k' \<noteq> k
     \<Longrightarrow> lru_peek lib c' k' = lru_peek lib c k'"
  unfolding lru_written_def by blast

lemma lru_written_load:
  "lru_written lib c k v c' \<Longrightarrow> lru_cap lib c' = lru_cap lib c
     \<and> lru_len lib c' \<le> (if lru_peek lib c k = None then Suc (lru_len lib c) else lru_len lib c)"
  by (simp add: lru_written_def)

section \<open>An association list that satisfies the laws\<close>

text \<open>The capacity and the entries, the most recently used first.\<close>

type_synonym 'v assoc_cache = "nat \<times> (string \<times> 'v) list"

definition assoc_cap :: "'v assoc_cache \<Rightarrow> nat" where
  "assoc_cap c = max 1 (fst c)"

definition assoc_entries :: "'v assoc_cache \<Rightarrow> (string \<times> 'v) list" where
  "assoc_entries c = take (assoc_cap c) (snd c)"

definition assoc_write :: "'v assoc_cache \<Rightarrow> string \<Rightarrow> 'v \<Rightarrow> 'v assoc_cache" where
  "assoc_write c k v = (fst c, (k, v) # filter (\<lambda>e. fst e \<noteq> k) (assoc_entries c))"

definition assoc_lru :: "('v assoc_cache, 'v) lru_lib" where
  "assoc_lru =
     \<lparr>lru_new = (\<lambda>n. (n, [])),
      lru_cap = assoc_cap,
      lru_len = (\<lambda>c. length (assoc_entries c)),
      lru_peek = (\<lambda>c k. map_of (assoc_entries c) k),
      lru_get = (\<lambda>c k. (map_of (assoc_entries c) k,
         case map_of (assoc_entries c) k of None \<Rightarrow> c | Some v \<Rightarrow> assoc_write c k v)),
      lru_put = assoc_write,
      lru_get_or_insert_mut = (\<lambda>c k d f. assoc_write c k (f (unwrap_or d (map_of (assoc_entries c) k))))\<rparr>"

lemma map_of_filter_other: "k' \<noteq> k \<Longrightarrow> map_of (filter (\<lambda>e. fst e \<noteq> k) xs) k' = map_of xs k'"
  by (induction xs) auto

lemma map_of_take: "map_of (take n xs) k = map_of xs k \<or> map_of (take n xs) k = None"
  by (induction xs arbitrary: n) (auto simp: take_Cons split: nat.splits)

lemma length_filter_mem:
  "map_of xs k \<noteq> None \<Longrightarrow> length (filter (\<lambda>e. fst e \<noteq> k) xs) < length xs"
  by (induction xs) (auto split: if_splits simp: less_Suc_eq_le)

lemma assoc_cap_write [simp]: "assoc_cap (assoc_write c k v) = assoc_cap c"
  by (simp add: assoc_cap_def assoc_write_def)

lemma assoc_entries_write:
  "assoc_entries (assoc_write c k v) =
     (k, v) # take (assoc_cap c - 1) (filter (\<lambda>e. fst e \<noteq> k) (assoc_entries c))"
  by (simp add: assoc_entries_def [of "assoc_write c k v"]) (simp add: assoc_write_def take_Cons' assoc_cap_def)

lemma assoc_entries_length: "length (assoc_entries c) \<le> assoc_cap c"
  by (simp add: assoc_entries_def)

lemma assoc_write_other:
  assumes "k' \<noteq> k"
  shows "map_of (assoc_entries (assoc_write c k v)) k' = map_of (assoc_entries c) k'
    \<or> map_of (assoc_entries (assoc_write c k v)) k' = None"
proof -
  have "map_of (assoc_entries (assoc_write c k v)) k' =
      map_of (take (assoc_cap c - 1) (filter (\<lambda>e. fst e \<noteq> k) (assoc_entries c))) k'"
    using assms by (simp add: assoc_entries_write)
  with map_of_take [of "assoc_cap c - 1" "filter (\<lambda>e. fst e \<noteq> k) (assoc_entries c)" k']
  show ?thesis using assms by (auto simp: map_of_filter_other)
qed

lemma assoc_write_room:
  assumes "k' \<noteq> k" and "map_of (assoc_entries c) k \<noteq> None \<or> length (assoc_entries c) < assoc_cap c"
  shows "map_of (assoc_entries (assoc_write c k v)) k' = map_of (assoc_entries c) k'"
proof -
  have "length (filter (\<lambda>e. fst e \<noteq> k) (assoc_entries c)) < assoc_cap c"
    using assms(2) length_filter_mem [of "assoc_entries c" k] assoc_entries_length [of c]
      length_filter_le [of "\<lambda>e. fst e \<noteq> k" "assoc_entries c"]
    by linarith
  then show ?thesis using assms(1) by (simp add: assoc_entries_write map_of_filter_other)
qed

lemma assoc_write_length:
  "length (assoc_entries (assoc_write c k v)) \<le> assoc_cap c"
  "length (assoc_entries (assoc_write c k v)) \<le> Suc (length (assoc_entries c))"
  "map_of (assoc_entries c) k \<noteq> None \<Longrightarrow> length (assoc_entries (assoc_write c k v)) \<le> length (assoc_entries c)"
proof -
  show "length (assoc_entries (assoc_write c k v)) \<le> assoc_cap c"
    using assoc_entries_length [of "assoc_write c k v"] by simp
  show "length (assoc_entries (assoc_write c k v)) \<le> Suc (length (assoc_entries c))"
    using length_filter_le [of "\<lambda>e. fst e \<noteq> k" "assoc_entries c"] by (simp add: assoc_entries_write min.coboundedI1)
  show "length (assoc_entries (assoc_write c k v)) \<le> length (assoc_entries c)"
    if "map_of (assoc_entries c) k \<noteq> None"
    using length_filter_mem [OF that] by (simp add: assoc_entries_write)
qed

lemma assoc_write_written: "lru_written assoc_lru c k v (assoc_write c k v)"
  unfolding lru_written_def
  using assoc_write_other [of _ k c v] assoc_write_room [of _ k c v] assoc_write_length [of c k v]
  by (simp add: assoc_lru_def assoc_entries_write [of c k v])

lemma assoc_write_value:
  assumes "map_of (assoc_entries c) k = Some v"
  shows "map_of (assoc_entries (assoc_write c k v)) = map_of (assoc_entries c)"
proof
  fix k'
  show "map_of (assoc_entries (assoc_write c k v)) k' = map_of (assoc_entries c) k'"
    using assms by (cases "k' = k") (simp_all add: assoc_write_room, simp add: assoc_entries_write)
qed

lemma assoc_lru_laws: "lru_laws assoc_lru"
  unfolding lru_laws_def
proof (intro conjI allI impI)
  fix c :: "'v assoc_cache" and k
  show "lru_peek assoc_lru (snd (lru_get assoc_lru c k)) = lru_peek assoc_lru c"
    by (cases "map_of (assoc_entries c) k") (simp_all add: assoc_lru_def assoc_write_value)
next
  fix c :: "'v assoc_cache" and k v d and f
  show "lru_written assoc_lru c k v (lru_put assoc_lru c k v)"
    using assoc_write_written [of c k v] by (simp add: assoc_lru_def)
  show "lru_written assoc_lru c k (f (unwrap_or d (lru_peek assoc_lru c k))) (lru_get_or_insert_mut assoc_lru c k d f)"
    using assoc_write_written [of c k "f (unwrap_or d (map_of (assoc_entries c) k))"] by (simp add: assoc_lru_def)
qed (simp_all add: assoc_lru_def assoc_entries_def assoc_cap_def)

end
