(* ===== verification/Envelope.thy ===== *)
theory Envelope
  imports Firma_Prelude
begin

text \<open>
  The protocol unit that wraps an outbound call (\<^verbatim>\<open>firma-core/src/envelope.rs\<close>), the
  identifiers it carries (\<^verbatim>\<open>firma-identifiers\<close>), and the header map of
  \<^verbatim>\<open>firma-http\<close>.

  Identifiers are the text they display as.  Points in time are nanoseconds since the epoch
  (\<^typ>\<open>int\<close>).  A header map is the list of its entries, names in the lower-case form of
  \<^verbatim>\<open>HeaderName\<close>; hash maps and B-tree maps are maps.
\<close>

section \<open>Identifiers, times, floating point\<close>

type_synonym session_id = string
type_synonym agent_id = string
type_synonym token_id = string
type_synonym datetime = int

datatype InvalidSessionIdError = SessionIdEmpty | SessionIdInvalidFormat

definition session_id_try_from :: "string \<Rightarrow> (InvalidSessionIdError, session_id) result" where
  "session_id_try_from v =
     (if v = [] then Err SessionIdEmpty
      else if 128 < length v
        \<or> \<not> list_all (\<lambda>b. is_ascii_alphanumeric b \<or> b = CHR ''-'' \<or> b = CHR ''_'') v
        then Err SessionIdInvalidFormat
      else Ok v)"

text \<open>An IEEE double: not a number, the infinities, or a finite rational.\<close>

datatype f64 = NaN | Infinity | NegInfinity | Fin rat

text \<open>\<^verbatim>\<open>DateTime::timestamp_millis\<close> and \<^verbatim>\<open>TimeDelta::num_seconds\<close> (towards zero).\<close>

definition timestamp_millis :: "datetime \<Rightarrow> int" where
  "timestamp_millis t = t div 1000000"

definition num_seconds :: "int \<Rightarrow> int" where
  "num_seconds d = (if 0 \<le> d then d div 1000000000 else - ((- d) div 1000000000))"

section \<open>HTTP\<close>

datatype HttpMethod = GET | POST | PUT | DELETE | PATCH | HEAD | OPTIONS | CONNECT

primrec HttpMethod_as_str :: "HttpMethod \<Rightarrow> string" where
  "HttpMethod_as_str GET = ''GET''"
| "HttpMethod_as_str POST = ''POST''"
| "HttpMethod_as_str PUT = ''PUT''"
| "HttpMethod_as_str DELETE = ''DELETE''"
| "HttpMethod_as_str PATCH = ''PATCH''"
| "HttpMethod_as_str HEAD = ''HEAD''"
| "HttpMethod_as_str OPTIONS = ''OPTIONS''"
| "HttpMethod_as_str CONNECT = ''CONNECT''"

datatype InvalidStrMethod = InvalidStrMethod string

definition HttpMethod_from_str :: "string \<Rightarrow> (InvalidStrMethod, HttpMethod) result" where
  "HttpMethod_from_str s =
     (if s = ''GET'' then Ok GET
      else if s = ''POST'' then Ok POST
      else if s = ''PUT'' then Ok PUT
      else if s = ''DELETE'' then Ok DELETE
      else if s = ''PATCH'' then Ok PATCH
      else if s = ''HEAD'' then Ok HEAD
      else if s = ''OPTIONS'' then Ok OPTIONS
      else if s = ''CONNECT'' then Ok CONNECT
      else Err (InvalidStrMethod s))"

text \<open>An \<^verbatim>\<open>http::Method\<close> is its token; only the eight tokens above convert.\<close>

type_synonym http_method_token = string

datatype InvalidMethod = InvalidMethod http_method_token

definition HttpMethod_try_from :: "http_method_token \<Rightarrow> (InvalidMethod, HttpMethod) result" where
  "HttpMethod_try_from m =
     (case HttpMethod_from_str m of Inr x \<Rightarrow> Ok x | Inl _ \<Rightarrow> Err (InvalidMethod m))"

type_synonym HeaderMap = "(string \<times> string) list"

definition header_contains :: "HeaderMap \<Rightarrow> string \<Rightarrow> bool" where
  "header_contains h name \<longleftrightarrow> name \<in> fst ` set h"

definition header_get :: "HeaderMap \<Rightarrow> string \<Rightarrow> string option" where
  "header_get h name = map_of h name"

definition header_remove :: "HeaderMap \<Rightarrow> string \<Rightarrow> HeaderMap" where
  "header_remove h name = filter (\<lambda>e. fst e \<noteq> name) h"

record HttpParams =
  http_method :: HttpMethod
  http_headers :: HeaderMap
  http_body :: "string option"
  http_query :: "string \<rightharpoonup> string"

record DbQueryParams =
  db_query_name :: string
  db_bindings :: "string \<rightharpoonup> string"
  db_name :: string
  db_read_only :: bool

record ToolUseParams =
  tool_name :: string
  tool_input :: "string \<rightharpoonup> string"

datatype ActionParams = Http HttpParams | DbQuery DbQueryParams | ToolUse ToolUseParams

section \<open>Intent, metadata, envelope\<close>

record ExecutionIntent =
  intent_action_class :: string
  intent_resource :: "string \<rightharpoonup> string"
  intent_params :: ActionParams
  intent_raw_transport :: string
  intent_raw_action_ref :: string

definition resource_display :: "ExecutionIntent \<Rightarrow> string" where
  "resource_display i =
     (let host = unwrap_or [] (intent_resource i ''host'');
          path = unwrap_or [] (intent_resource i ''path'')
      in host @ path)"

definition policy_resource_display :: "ExecutionIntent \<Rightarrow> string" where
  "policy_resource_display i =
     (case intent_resource i ''policy_resource'' of Some r \<Rightarrow> r | None \<Rightarrow> resource_display i)"

definition resource_map_from :: "string \<Rightarrow> (string \<rightharpoonup> string)" where
  "resource_map_from host_path =
     (let stripped = (case strip_prefix ''https://'' host_path of
                        Some r \<Rightarrow> r
                      | None \<Rightarrow> unwrap_or host_path (strip_prefix ''http://'' host_path));
          host = takeWhile (\<lambda>c. c \<noteq> CHR ''/'') stripped;
          path = dropWhile (\<lambda>c. c \<noteq> CHR ''/'') stripped
      in [''host'' \<mapsto> host, ''path'' \<mapsto> path])"

record ExecutionMetadata =
  meta_session_id :: session_id
  meta_agent_id :: agent_id
  meta_timestamp :: datetime
  meta_trace_id :: "string option"
  meta_risk_score :: "f64 option"
  meta_thread_id :: "string option"
  meta_parent_action_id :: "string option"

record ExecutionEnvelope =
  env_intent :: ExecutionIntent
  env_capability :: string
  env_metadata :: ExecutionMetadata
  env_provenance :: "string option"

section \<open>Facts\<close>

lemma session_id_try_from_Ok:
  "session_id_try_from v = Ok s \<Longrightarrow> s = v \<and> v \<noteq> [] \<and> length v \<le> 128"
  by (auto simp: session_id_try_from_def split: if_splits)

lemma HttpMethod_from_as_str [simp]: "HttpMethod_from_str (HttpMethod_as_str m) = Ok m"
  by (cases m) (simp_all add: HttpMethod_from_str_def)

lemma HttpMethod_from_str_Ok: "HttpMethod_from_str s = Ok m \<Longrightarrow> s = HttpMethod_as_str m"
  by (auto simp: HttpMethod_from_str_def split: if_split_asm)

lemma header_remove_contains: "header_contains (header_remove h n) m \<longleftrightarrow> m \<noteq> n \<and> header_contains h m"
  by (auto simp: header_contains_def header_remove_def)

lemma header_remove_get: "header_get (header_remove h n) m = (if m = n then None else header_get h m)"
  by (induction h) (auto simp: header_get_def header_remove_def)

lemma resource_map_from_display:
  "intent_resource i = resource_map_from s \<Longrightarrow> \<not> prefix ''http://'' s \<Longrightarrow> \<not> prefix ''https://'' s \<Longrightarrow>
   resource_display i = s"
  by (simp add: resource_display_def resource_map_from_def strip_prefix_def)

end
