(* ===== verification/Decisions.thy ===== *)
theory Decisions
  imports Envelope
begin

text \<open>
  Decision and error vocabulary: \<^verbatim>\<open>firma-core/src/decision.rs\<close> (deny and abort reasons, the
  MODIFY transformation, STEP-UP challenges and DEFER windows), the capability claims and token errors
  of \<^verbatim>\<open>firma-core/src/token/mod.rs\<close>, the injected credentials of
  \<^verbatim>\<open>firma-core/src/credential.rs\<close>, and the Sidecar's unified decision
  (\<^verbatim>\<open>firma-sidecar/src/enforcement/decision.rs\<close>) with its fail-closed error boundary
  (\<^verbatim>\<open>error.rs\<close>).
\<close>

section \<open>Reasons\<close>

datatype AbortReason =
    AbortConnectorTimeout | AbortConnectorFailure | AbortConnectorInvalidRequest
  | AbortCredentialInjectionFailed | AbortCredentialInjectionBlocked | AbortBatchAtomicity

primrec AbortReason_code :: "AbortReason \<Rightarrow> string" where
  "AbortReason_code AbortConnectorTimeout = ''CONNECTOR_TIMEOUT''"
| "AbortReason_code AbortConnectorFailure = ''CONNECTOR_FAILURE''"
| "AbortReason_code AbortConnectorInvalidRequest = ''CONNECTOR_INVALID_REQUEST''"
| "AbortReason_code AbortCredentialInjectionFailed = ''CREDENTIAL_INJECTION_FAILED''"
| "AbortReason_code AbortCredentialInjectionBlocked = ''CREDENTIAL_INJECTION_BLOCKED''"
| "AbortReason_code AbortBatchAtomicity = ''BATCH_ATOMICITY''"

primrec AbortReason_display :: "AbortReason \<Rightarrow> string" where
  "AbortReason_display AbortConnectorTimeout = ''connector timeout''"
| "AbortReason_display AbortConnectorFailure = ''connector failure''"
| "AbortReason_display AbortConnectorInvalidRequest = ''connector invalid request''"
| "AbortReason_display AbortCredentialInjectionFailed = ''credential injection failed''"
| "AbortReason_display AbortCredentialInjectionBlocked = ''credential injection blocked''"
| "AbortReason_display AbortBatchAtomicity = ''batch atomicity''"

datatype DenyReason =
    TokenInvalid | TokenExpired | TokenRevoked | PolicyDenied | ScopeViolation | ToolNotInScope
  | MalformedRequest | AuthorityUnavailable | PolicyBundleStale | PolicyBundleNotReady
  | RevocationCacheNotReady | FailClosed | EnforcementTimeout | CredentialInjectionFailed
  | ConnectorTimeout | ConnectorNetworkError | ConnectorInvalidRequest | UnclassifiedIntent
  | TenantMismatch | LoopbackBlocked | StepUpRequired | Deferred

primrec DenyReason_display :: "DenyReason \<Rightarrow> string" where
  "DenyReason_display TokenInvalid = ''token invalid''"
| "DenyReason_display TokenExpired = ''token expired''"
| "DenyReason_display TokenRevoked = ''token revoked''"
| "DenyReason_display PolicyDenied = ''policy denied''"
| "DenyReason_display ScopeViolation = ''scope violation''"
| "DenyReason_display ToolNotInScope = ''tool not in scope''"
| "DenyReason_display MalformedRequest = ''malformed request''"
| "DenyReason_display AuthorityUnavailable = ''authority unavailable''"
| "DenyReason_display PolicyBundleStale = ''policy bundle stale''"
| "DenyReason_display PolicyBundleNotReady = ''policy bundle not ready''"
| "DenyReason_display RevocationCacheNotReady = ''revocation cache not ready''"
| "DenyReason_display FailClosed = ''fail closed''"
| "DenyReason_display EnforcementTimeout = ''enforcement timeout''"
| "DenyReason_display CredentialInjectionFailed = ''credential injection failed''"
| "DenyReason_display ConnectorTimeout = ''connector timeout''"
| "DenyReason_display ConnectorNetworkError = ''connector network error''"
| "DenyReason_display ConnectorInvalidRequest = ''connector invalid request''"
| "DenyReason_display UnclassifiedIntent = ''unclassified intent''"
| "DenyReason_display TenantMismatch = ''tenant mismatch''"
| "DenyReason_display LoopbackBlocked = ''loopback blocked''"
| "DenyReason_display StepUpRequired = ''step up required''"
| "DenyReason_display Deferred = ''deferred''"

section \<open>MODIFY, STEP-UP and DEFER\<close>

datatype ModificationError =
    EmptyValue
  | EmptyHeaderName
  | InvalidHeaderName string string
  | UnknownKind string
  | UnsupportedModificationTarget

datatype ModificationSpec = RedactHeader string

definition MODIFICATION_REDACT_HEADER :: string where
  "MODIFICATION_REDACT_HEADER = ''redact_header:''"

text \<open>
  \<open>header_name\<close> is \<^verbatim>\<open>HeaderName::from_bytes\<close> of the http crate: the canonical name, or the
  text of its error.
\<close>

definition ModificationSpec_parse ::
  "(string \<Rightarrow> (string, string) result) \<Rightarrow> string \<Rightarrow> (ModificationError, ModificationSpec) result" where
  "ModificationSpec_parse header_name annotation =
     (let v = trim annotation in
      if v = [] then Err EmptyValue
      else case strip_prefix MODIFICATION_REDACT_HEADER v of
        Some rest \<Rightarrow>
          (let name = trim rest in
           if name = [] then Err EmptyHeaderName
           else case header_name name of
             Inl source \<Rightarrow> Err (InvalidHeaderName name source)
           | Inr h \<Rightarrow> Ok (RedactHeader h))
      | None \<Rightarrow> Err (UnknownKind v))"

primrec ModificationSpec_apply ::
  "ModificationSpec \<Rightarrow> ExecutionEnvelope \<Rightarrow> (ModificationError, ExecutionEnvelope) result" where
  "ModificationSpec_apply (RedactHeader name) envelope =
     (case intent_params (env_intent envelope) of
        Http http \<Rightarrow>
          Ok (envelope\<lparr>env_intent := (env_intent envelope)\<lparr>intent_params :=
                Http (http\<lparr>http_headers := header_remove (http_headers http) name\<rparr>)\<rparr>\<rparr>)
      | _ \<Rightarrow> Err UnsupportedModificationTarget)"

primrec ModificationSpec_display :: "ModificationSpec \<Rightarrow> string" where
  "ModificationSpec_display (RedactHeader name) = ''redacted_header:'' @ name"

datatype StepUpSpec = StepUpSpec string

primrec StepUpSpec_as_str :: "StepUpSpec \<Rightarrow> string" where
  "StepUpSpec_as_str (StepUpSpec s) = s"

definition StepUpSpec_new :: "string \<Rightarrow> (ModificationError, StepUpSpec) result" where
  "StepUpSpec_new v = (if trim v = [] then Err EmptyValue else Ok (StepUpSpec v))"

text \<open>A \<^verbatim>\<open>Duration\<close> is its number of nanoseconds.\<close>

datatype DeferDuration = DeferDuration nat

primrec DeferDuration_duration :: "DeferDuration \<Rightarrow> nat" where
  "DeferDuration_duration (DeferDuration d) = d"

definition DeferDuration_new :: "nat \<Rightarrow> (ModificationError, DeferDuration) result" where
  "DeferDuration_new d = (if d = 0 then Err EmptyValue else Ok (DeferDuration d))"

section \<open>Claims and token errors\<close>

record CapabilityClaims =
  claim_token_id :: token_id
  claim_agent_id :: agent_id
  claim_session_id :: session_id
  claim_action_set :: "string list"
  claim_resource_scope :: string
  claim_issued_at :: datetime
  claim_expiry :: datetime
  claim_context_hash :: string

datatype TokenError =
    ParseFailure string
  | SignatureInvalid string
  | Expired token_id
  | Revoked token_id
  | Malformed string

primrec TokenError_display :: "TokenError \<Rightarrow> string" where
  "TokenError_display (ParseFailure reason) = ''token parse failure: '' @ reason"
| "TokenError_display (SignatureInvalid reason) = ''token signature invalid: '' @ reason"
| "TokenError_display (Expired t) = ''token expired: '' @ t"
| "TokenError_display (Revoked t) = ''token revoked: '' @ t"
| "TokenError_display (Malformed reason) = ''token malformed: '' @ reason"

record InjectedCredentials =
  cred_headers :: "string \<rightharpoonup> string"

definition InjectedCredentials_empty :: InjectedCredentials where
  "InjectedCredentials_empty = \<lparr>cred_headers = Map.empty\<rparr>"

section \<open>The unified decision\<close>

text \<open>The normaliser's output; the remaining envelope fields are filled in after Stage 1.\<close>

record NormalizedEnvelope =
  norm_intent :: ExecutionIntent
  norm_timestamp :: datetime

datatype CapabilityValidationStage = TokenSelection | TokenValidation

datatype ConstraintEnforcementStage = ScopeCheck | BundleFreshness | PolicyEvaluation

datatype EnforcementStage =
    Normalization
  | CapabilityValidation CapabilityValidationStage
  | ConstraintEnforcement ConstraintEnforcementStage
  | CredentialInjection

record DenyIdentity =
  id_token_id :: string
  id_agent_id :: string
  id_context_hash :: string

definition DenyIdentity_from_claims :: "CapabilityClaims \<Rightarrow> DenyIdentity" where
  "DenyIdentity_from_claims claims =
     \<lparr>id_token_id = claim_token_id claims, id_agent_id = claim_agent_id claims,
      id_context_hash = claim_context_hash claims\<rparr>"

datatype EnforcementDecision =
    Allow CapabilityClaims ExecutionEnvelope InjectedCredentials
  | Deny DenyReason EnforcementStage string "NormalizedEnvelope option" "DenyIdentity option"
  | Abort AbortReason string "DenyIdentity option"
  | Passthrough string
  | Modify CapabilityClaims ExecutionEnvelope ModificationSpec InjectedCredentials
  | StepUp "CapabilityClaims option" "NormalizedEnvelope option" string nat "DenyIdentity option"
  | Defer "CapabilityClaims option" "NormalizedEnvelope option" nat "DenyIdentity option"

primrec with_identity :: "EnforcementDecision \<Rightarrow> DenyIdentity \<Rightarrow> EnforcementDecision" where
  "with_identity (Deny reason stage detail envelope _) i = Deny reason stage detail envelope (Some i)"
| "with_identity (Abort reason detail _) i = Abort reason detail (Some i)"
| "with_identity (StepUp claims envelope challenge ms _) i = StepUp claims envelope challenge ms (Some i)"
| "with_identity (Defer claims envelope ms _) i = Defer claims envelope ms (Some i)"
| "with_identity (Allow claims envelope creds) i = Allow claims envelope creds"
| "with_identity (Modify claims envelope m creds) i = Modify claims envelope m creds"
| "with_identity (Passthrough detail) i = Passthrough detail"

primrec is_allow :: "EnforcementDecision \<Rightarrow> bool" where
  "is_allow (Allow claims envelope creds) = True"
| "is_allow (Deny reason stage detail envelope i) = False"
| "is_allow (Abort reason detail i) = False"
| "is_allow (Passthrough detail) = False"
| "is_allow (Modify claims envelope m creds) = False"
| "is_allow (StepUp claims envelope challenge ms i) = False"
| "is_allow (Defer claims envelope ms i) = False"

primrec is_deny :: "EnforcementDecision \<Rightarrow> bool" where
  "is_deny (Deny reason stage detail envelope i) = True"
| "is_deny (Allow claims envelope creds) = False"
| "is_deny (Abort reason detail i) = False"
| "is_deny (Passthrough detail) = False"
| "is_deny (Modify claims envelope m creds) = False"
| "is_deny (StepUp claims envelope challenge ms i) = False"
| "is_deny (Defer claims envelope ms i) = False"

text \<open>The decisions that let a request reach a connector.\<close>

definition admitted :: "EnforcementDecision \<Rightarrow> bool" where
  "admitted d = (case d of Allow _ _ _ \<Rightarrow> True | Modify _ _ _ _ \<Rightarrow> True | _ \<Rightarrow> False)"

section \<open>The fail-closed error boundary\<close>

datatype EnforcementError =
    NormalizationFailed string
  | NoMatchingToken string
  | TokenValidationError TokenError
  | ScopeViolationError string
  | PolicyDeniedError string
  | PolicyBundleStaleError
  | ConfigError string

primrec token_error_to_deny_reason :: "TokenError \<Rightarrow> DenyReason" where
  "token_error_to_deny_reason (Expired t) = TokenExpired"
| "token_error_to_deny_reason (Revoked t) = TokenRevoked"
| "token_error_to_deny_reason (ParseFailure r) = TokenInvalid"
| "token_error_to_deny_reason (SignatureInvalid r) = TokenInvalid"
| "token_error_to_deny_reason (Malformed r) = TokenInvalid"

definition into_deny :: "EnforcementError \<Rightarrow> EnforcementStage \<Rightarrow> EnforcementDecision" where
  "into_deny e stage =
     (case (case e of
              NormalizationFailed detail \<Rightarrow> (UnclassifiedIntent, detail)
            | NoMatchingToken detail \<Rightarrow> (TokenInvalid, detail)
            | TokenValidationError te \<Rightarrow> (token_error_to_deny_reason te, TokenError_display te)
            | ScopeViolationError detail \<Rightarrow> (ScopeViolation, detail)
            | PolicyDeniedError detail \<Rightarrow> (PolicyDenied, detail)
            | PolicyBundleStaleError \<Rightarrow> (PolicyBundleStale, ''policy bundle TTL expired'')
            | ConfigError msg \<Rightarrow> (MalformedRequest, msg)) of
        (reason, detail) \<Rightarrow> Deny reason stage detail None None)"

section \<open>Facts\<close>

lemma into_deny_is_deny [simp]: "is_deny (into_deny e stage)"
  by (auto simp: into_deny_def split: prod.splits)

lemma is_deny_not_admitted [simp]: "is_deny d \<Longrightarrow> \<not> admitted d"
  by (cases d) (auto simp: admitted_def)

lemma admitted_simps [simp]:
  "admitted (Allow c e k)" "admitted (Modify c e m k)" "\<not> admitted (Deny r s d n i)"
  "\<not> admitted (Abort ar d i)" "\<not> admitted (Passthrough d)" "\<not> admitted (StepUp oc on ch ms i)"
  "\<not> admitted (Defer oc on ms i)"
  by (simp_all add: admitted_def)

lemma with_identity_admitted [simp]: "admitted (with_identity d i) \<longleftrightarrow> admitted d"
  by (cases d) (simp_all add: admitted_def)

lemma with_identity_deny [simp]: "is_deny (with_identity d i) \<longleftrightarrow> is_deny d"
  by (cases d) simp_all

lemma ModificationSpec_apply_removes:
  assumes "ModificationSpec_apply (RedactHeader name) e = Ok e'"
  shows "\<exists>h h'. intent_params (env_intent e) = Http h \<and> intent_params (env_intent e') = Http h'
    \<and> \<not> header_contains (http_headers h') name
    \<and> (\<forall>n. n \<noteq> name \<longrightarrow> header_get (http_headers h') n = header_get (http_headers h) n)"
  using assms
  by (cases "intent_params (env_intent e)") (auto simp: header_remove_contains header_remove_get)

end
