(* ===== verification/Session_State.thy ===== *)
theory Session_State
  imports Lru_Cache Decisions
begin

text \<open>
  Session state (\<^verbatim>\<open>firma-sidecar/src/enforcement/session/state.rs\<close>): the per-session record, its
  bounded history, the provenance chain, and the in-memory store. SHA-256 with its hex encoding and
  the cache are parameters. The contract of a store is the locale \<open>session_store\<close>, with an abstract
  machine in which every session evolves alone by its own calls.
\<close>

section \<open>Records and signals\<close>

datatype Outcome = OutAllow | OutModify | OutDeny | OutStepUp | OutDefer | OutAbort

record ActionOutcome =
  ao_action_class :: string
  ao_resource :: string
  ao_outcome :: Outcome

definition HISTORY_CAP :: nat where "HISTORY_CAP = 8"

record RuntimeSignals =
  sig_action_count :: nat
  sig_risk_score :: f64
  sig_deny_count :: nat
  sig_history :: "ActionOutcome list"
  sig_last_provenance :: "string option"

definition RuntimeSignals_default :: RuntimeSignals where
  "RuntimeSignals_default =
     \<lparr>sig_action_count = 0, sig_risk_score = Fin 0, sig_deny_count = 0, sig_history = [],
      sig_last_provenance = None\<rparr>"

definition i64_max :: int where "i64_max = 9223372036854775807"

definition i64_min :: int where "i64_min = - 9223372036854775808"

text \<open>\<^verbatim>\<open>floor() as i64\<close>: the cast saturates.\<close>

definition risk_score_long :: "RuntimeSignals \<Rightarrow> int" where
  "risk_score_long self =
     (case sig_risk_score self of
        NaN \<Rightarrow> i64_max
      | Infinity \<Rightarrow> i64_max
      | NegInfinity \<Rightarrow> i64_min
      | Fin r \<Rightarrow> max i64_min (min i64_max \<lfloor>r\<rfloor>))"

definition next_provenance :: "(string \<Rightarrow> string) \<Rightarrow> string option \<Rightarrow> string \<Rightarrow> string \<Rightarrow> string \<Rightarrow> string" where
  "next_provenance sha256_hex prev context_hash action_class resource =
     sha256_hex (unwrap_or [] prev @ [CHR 0x0A] @ context_hash @ [CHR 0x0A] @ action_class
       @ [CHR 0x0A] @ resource)"

record SessionRecord =
  rec_action_count :: nat
  rec_risk_score :: f64
  rec_deny_count :: nat
  rec_history :: "ActionOutcome list"
  rec_last_provenance :: "string option"

definition SessionRecord_default :: SessionRecord where
  "SessionRecord_default =
     \<lparr>rec_action_count = 0, rec_risk_score = Fin 0, rec_deny_count = 0, rec_history = [],
      rec_last_provenance = None\<rparr>"

definition push_outcome :: "string \<Rightarrow> string \<Rightarrow> Outcome \<Rightarrow> SessionRecord \<Rightarrow> SessionRecord" where
  "push_outcome action_class resource outcome self =
     (let self1 = (if outcome = OutDeny then self\<lparr>rec_deny_count := sat_add (rec_deny_count self) 1\<rparr> else self);
          self2 = (if HISTORY_CAP \<le> length (rec_history self1)
                   then self1\<lparr>rec_history := tl (rec_history self1)\<rparr> else self1)
      in self2\<lparr>rec_history := rec_history self2
           @ [\<lparr>ao_action_class = action_class, ao_resource = resource, ao_outcome = outcome\<rparr>]\<rparr>)"

text \<open>The signals read off a record, and the count increment of \<^verbatim>\<open>record_action\<close>.\<close>

definition signals_of :: "SessionRecord \<Rightarrow> RuntimeSignals" where
  "signals_of r =
     \<lparr>sig_action_count = rec_action_count r, sig_risk_score = rec_risk_score r,
      sig_deny_count = rec_deny_count r, sig_history = rec_history r,
      sig_last_provenance = rec_last_provenance r\<rparr>"

definition bump_count :: "SessionRecord \<Rightarrow> SessionRecord" where
  "bump_count r = r\<lparr>rec_action_count := sat_add (rec_action_count r) 1\<rparr>"

section \<open>The in-memory store\<close>

definition DEFAULT_CAPACITY :: nat where "DEFAULT_CAPACITY = 8192"

record 'c LruSessionStateStore =
  ss_poisoned :: bool
  ss_inner :: 'c

definition LruSessionStateStore_new :: "('c, SessionRecord) lru_lib \<Rightarrow> nat \<Rightarrow> 'c LruSessionStateStore" where
  "LruSessionStateStore_new lru capacity = \<lparr>ss_poisoned = False, ss_inner = lru_new lru capacity\<rparr>"

definition with_default_capacity :: "('c, SessionRecord) lru_lib \<Rightarrow> 'c LruSessionStateStore" where
  "with_default_capacity lru = LruSessionStateStore_new lru DEFAULT_CAPACITY"

definition record_action ::
  "('c, SessionRecord) lru_lib \<Rightarrow> 'c LruSessionStateStore \<Rightarrow> session_id \<Rightarrow> nat \<times> 'c LruSessionStateStore" where
  "record_action lru self sid =
     (if ss_poisoned self then (1, self)
      else let inner = lru_get_or_insert_mut lru (ss_inner self) sid SessionRecord_default bump_count
        in (rec_action_count (bump_count (unwrap_or SessionRecord_default (lru_peek lru (ss_inner self) sid))),
            self\<lparr>ss_inner := inner\<rparr>))"

definition signals ::
  "('c, SessionRecord) lru_lib \<Rightarrow> 'c LruSessionStateStore \<Rightarrow> session_id \<Rightarrow> RuntimeSignals" where
  "signals lru self sid =
     (if ss_poisoned self then RuntimeSignals_default
      else case lru_peek lru (ss_inner self) sid of
             None \<Rightarrow> RuntimeSignals_default
           | Some r \<Rightarrow> signals_of r)"

definition record_outcome ::
  "('c, SessionRecord) lru_lib \<Rightarrow> 'c LruSessionStateStore \<Rightarrow> session_id \<Rightarrow> string \<Rightarrow> string \<Rightarrow> Outcome
    \<Rightarrow> 'c LruSessionStateStore" where
  "record_outcome lru self sid action_class resource outcome =
     (if ss_poisoned self then self
      else self\<lparr>ss_inner := lru_get_or_insert_mut lru (ss_inner self) sid SessionRecord_default
             (push_outcome action_class resource outcome)\<rparr>)"

definition advance_provenance ::
  "(string \<Rightarrow> string) \<Rightarrow> ('c, SessionRecord) lru_lib \<Rightarrow> 'c LruSessionStateStore \<Rightarrow> session_id \<Rightarrow> string \<Rightarrow> string
    \<Rightarrow> string \<Rightarrow> string \<times> 'c LruSessionStateStore" where
  "advance_provenance sha256_hex lru self sid context_hash action_class resource =
     (if ss_poisoned self then ([], self)
      else let record = unwrap_or SessionRecord_default (lru_peek lru (ss_inner self) sid);
               new = next_provenance sha256_hex (rec_last_provenance record) context_hash action_class resource
        in (new, self\<lparr>ss_inner := lru_get_or_insert_mut lru (ss_inner self) sid SessionRecord_default
              (\<lambda>r. r\<lparr>rec_last_provenance := Some new\<rparr>)\<rparr>))"

section \<open>The abstract machine of one session\<close>

datatype session_call =
    RecordAction session_id
  | RecordOutcome session_id string string Outcome
  | AdvanceProvenance session_id string string string

primrec call_session :: "session_call \<Rightarrow> session_id" where
  "call_session (RecordAction sid) = sid"
| "call_session (RecordOutcome sid _ _ _) = sid"
| "call_session (AdvanceProvenance sid _ _ _) = sid"

text \<open>
  What one call does to the signals of its session: count, remember the last eight outcomes and the
  number of denials, extend the chain.
\<close>

primrec call_signals :: "(string \<Rightarrow> string) \<Rightarrow> session_call \<Rightarrow> RuntimeSignals \<Rightarrow> RuntimeSignals" where
  "call_signals sha256_hex (RecordAction _) sg = sg\<lparr>sig_action_count := min u64_max (Suc (sig_action_count sg))\<rparr>"
| "call_signals sha256_hex (RecordOutcome _ action_class resource outcome) sg =
     sg\<lparr>sig_deny_count := (if outcome = OutDeny then min u64_max (Suc (sig_deny_count sg)) else sig_deny_count sg),
        sig_history :=
          (let h = sig_history sg
                 @ [\<lparr>ao_action_class = action_class, ao_resource = resource, ao_outcome = outcome\<rparr>]
           in drop (length h - 8) h)\<rparr>"
| "call_signals sha256_hex (AdvanceProvenance _ context_hash action_class resource) sg =
     sg\<lparr>sig_last_provenance :=
        Some (next_provenance sha256_hex (sig_last_provenance sg) context_hash action_class resource)\<rparr>"

definition session_spec :: "(string \<Rightarrow> string) \<Rightarrow> session_call list \<Rightarrow> session_id \<Rightarrow> RuntimeSignals" where
  "session_spec sha256_hex calls sid =
     fold (call_signals sha256_hex) (filter (\<lambda>c. call_session c = sid) calls) RuntimeSignals_default"

text \<open>A store driven by a call.\<close>

fun session_step ::
  "('s \<Rightarrow> session_id \<Rightarrow> nat \<times> 's) \<Rightarrow> ('s \<Rightarrow> session_id \<Rightarrow> string \<Rightarrow> string \<Rightarrow> Outcome \<Rightarrow> 's)
    \<Rightarrow> ('s \<Rightarrow> session_id \<Rightarrow> string \<Rightarrow> string \<Rightarrow> string \<Rightarrow> string \<times> 's) \<Rightarrow> session_call \<Rightarrow> 's \<Rightarrow> 's" where
  "session_step act out prov (RecordAction sid) s = snd (act s sid)"
| "session_step act out prov (RecordOutcome sid class res oc) s = out s sid class res oc"
| "session_step act out prov (AdvanceProvenance sid ctx class res) s = snd (prov s sid ctx class res)"

section \<open>The contract of a session store\<close>

text \<open>
  \<open>known\<close> are the sessions the store holds, \<open>load\<close> how many entries it holds and \<open>room\<close> how many it may
  hold. A store may forget another session only when it is full and meets a new one.
\<close>

locale session_store =
  fixes sha256_hex :: "string \<Rightarrow> string"
    and ok :: "'s \<Rightarrow> bool"
    and known :: "'s \<Rightarrow> session_id \<Rightarrow> bool"
    and load :: "'s \<Rightarrow> nat"
    and room :: "'s \<Rightarrow> nat"
    and sig :: "'s \<Rightarrow> session_id \<Rightarrow> RuntimeSignals"
    and act :: "'s \<Rightarrow> session_id \<Rightarrow> nat \<times> 's"
    and out :: "'s \<Rightarrow> session_id \<Rightarrow> string \<Rightarrow> string \<Rightarrow> Outcome \<Rightarrow> 's"
    and prov :: "'s \<Rightarrow> session_id \<Rightarrow> string \<Rightarrow> string \<Rightarrow> string \<Rightarrow> string \<times> 's"
  assumes step_ok: "ok s \<Longrightarrow> ok (session_step act out prov c s)"
    and step_same: "ok s \<Longrightarrow>
      sig (session_step act out prov c s) (call_session c) = call_signals sha256_hex c (sig s (call_session c))"
    and step_known: "ok s \<Longrightarrow> known (session_step act out prov c s) (call_session c)"
    and step_other: "ok s \<Longrightarrow> sid \<noteq> call_session c \<Longrightarrow>
      sig (session_step act out prov c s) sid = sig s sid
      \<or> sig (session_step act out prov c s) sid = RuntimeSignals_default"
    and step_room: "ok s \<Longrightarrow> known s (call_session c) \<or> load s < room s \<Longrightarrow> sid \<noteq> call_session c \<Longrightarrow>
      sig (session_step act out prov c s) sid = sig s sid
      \<and> known (session_step act out prov c s) sid = known s sid"
    and step_load: "ok s \<Longrightarrow>
      room (session_step act out prov c s) = room s
      \<and> load (session_step act out prov c s) \<le> (if known s (call_session c) then load s else Suc (load s))"
    and sig_bounded: "ok s \<Longrightarrow> length (sig_history (sig s sid)) \<le> HISTORY_CAP"
    and act_count: "ok s \<Longrightarrow> fst (act s sid) = sig_action_count (sig (snd (act s sid)) sid)"
    and prov_anchor: "ok s \<Longrightarrow>
      Some (fst (prov s sid ctx cls res)) = sig_last_provenance (sig (snd (prov s sid ctx cls res)) sid)"
begin

lemma run_ok: "ok s \<Longrightarrow> ok (fold (session_step act out prov) calls s)"
  by (induction calls arbitrary: s) (simp_all add: step_ok)

lemma run_bounded: "ok s \<Longrightarrow> length (sig_history (sig (fold (session_step act out prov) calls s) sid)) \<le> HISTORY_CAP"
  by (simp add: sig_bounded run_ok)

lemma run_state:
  assumes "ok s" and "load s = 0" and "\<And>sid. \<not> known s sid" and "\<And>sid. sig s sid = RuntimeSignals_default"
    and "card (call_session ` set calls) \<le> room s"
  shows "(\<forall>sid. sig (fold (session_step act out prov) calls s) sid = session_spec sha256_hex calls sid)
    \<and> (\<forall>sid. known (fold (session_step act out prov) calls s) sid \<longleftrightarrow> sid \<in> call_session ` set calls)
    \<and> load (fold (session_step act out prov) calls s) \<le> card (call_session ` set calls)
    \<and> room (fold (session_step act out prov) calls s) = room s"
  using assms(5)
proof (induction calls rule: rev_induct)
  case Nil
  then show ?case using assms by (simp add: session_spec_def)
next
  case (snoc c calls)
  let ?s = "fold (session_step act out prov) calls s" and ?S = "call_session ` set calls"
  have okS: "ok ?s" using assms(1) by (rule run_ok)
  have card: "card (insert (call_session c) ?S) \<le> room s" using snoc.prems by simp
  then have "card ?S \<le> room s" using card_insert_le [of ?S "call_session c"] by linarith
  note IH = snoc.IH [OF this]
  have known: "known ?s sid \<longleftrightarrow> sid \<in> ?S" for sid using IH by blast
  have room: "known ?s (call_session c) \<or> load ?s < room ?s"
    using IH card by (auto simp: card_insert_if)
  have spec: "session_spec sha256_hex (calls @ [c]) sid =
      (if call_session c = sid then call_signals sha256_hex c (session_spec sha256_hex calls sid)
       else session_spec sha256_hex calls sid)" for sid
    by (simp add: session_spec_def)
  have "sig (session_step act out prov c ?s) sid = session_spec sha256_hex (calls @ [c]) sid" for sid
    using IH step_same [OF okS, of c] step_room [OF okS room, of sid] unfolding spec
    by (cases "sid = call_session c") simp_all
  moreover have "known (session_step act out prov c ?s) sid \<longleftrightarrow> sid \<in> insert (call_session c) ?S" for sid
    using known step_known [OF okS, of c] step_room [OF okS room, of sid]
    by (cases "sid = call_session c") simp_all
  moreover have "load (session_step act out prov c ?s) \<le> card (insert (call_session c) ?S)"
    using step_load [OF okS, of c] IH known [of "call_session c"] by (auto simp: card_insert_if)
  ultimately show ?case using step_load [OF okS, of c] IH by simp
qed

lemma run_refines:
  assumes "ok s" and "load s = 0" and "\<And>sid. \<not> known s sid" and "\<And>sid. sig s sid = RuntimeSignals_default"
    and "card (call_session ` set calls) \<le> room s"
  shows "sig (fold (session_step act out prov) calls s) sid = session_spec sha256_hex calls sid"
  using run_state [OF assms] by blast

end

section \<open>The in-memory store keeps the contract\<close>

lemma push_outcome_signals:
  assumes "length (rec_history r) \<le> HISTORY_CAP"
  shows "signals_of (push_outcome cls res oc r) = call_signals f (RecordOutcome sid cls res oc) (signals_of r)"
    and "length (rec_history (push_outcome cls res oc r)) \<le> HISTORY_CAP"
proof -
  have "tl (rec_history r) @ [x] = drop 1 (rec_history r @ [x])" if "8 \<le> length (rec_history r)" for x
    using that by (cases "rec_history r") simp_all
  then show "signals_of (push_outcome cls res oc r) = call_signals f (RecordOutcome sid cls res oc) (signals_of r)"
    using assms by (auto simp: push_outcome_def signals_of_def Let_def HISTORY_CAP_def sat_add_def)
  show "length (rec_history (push_outcome cls res oc r)) \<le> HISTORY_CAP"
    using assms by (auto simp: push_outcome_def Let_def HISTORY_CAP_def)
qed

lemma signals_of_default [simp]: "signals_of SessionRecord_default = RuntimeSignals_default"
  by (simp add: signals_of_def SessionRecord_default_def RuntimeSignals_default_def)

text \<open>The record update of a call, so that every operation of a store is one cache write.\<close>

primrec call_record :: "(string \<Rightarrow> string) \<Rightarrow> session_call \<Rightarrow> SessionRecord \<Rightarrow> SessionRecord" where
  "call_record sha256_hex (RecordAction _) r = bump_count r"
| "call_record sha256_hex (RecordOutcome _ cls res oc) r = push_outcome cls res oc r"
| "call_record sha256_hex (AdvanceProvenance _ ctx cls res) r =
     r\<lparr>rec_last_provenance := Some (next_provenance sha256_hex (rec_last_provenance r) ctx cls res)\<rparr>"

lemma call_record_signals:
  assumes "length (rec_history r) \<le> HISTORY_CAP"
  shows "signals_of (call_record f c r) = call_signals f c (signals_of r)"
    and "length (rec_history (call_record f c r)) \<le> HISTORY_CAP"
proof -
  show "signals_of (call_record f c r) = call_signals f c (signals_of r)"
    using push_outcome_signals(1) [OF assms]
    by (cases c) (simp_all add: bump_count_def sat_add_def signals_of_def [of "_ \<lparr>rec_action_count := _\<rparr>"]
        signals_of_def [of "_ \<lparr>rec_last_provenance := _\<rparr>"], simp_all add: signals_of_def)
  show "length (rec_history (call_record f c r)) \<le> HISTORY_CAP"
    using assms push_outcome_signals(2) [OF assms] by (cases c) (simp_all add: bump_count_def)
qed

text \<open>A cache step of a call, shared by both stores.\<close>

definition cache_ok :: "('c, SessionRecord) lru_lib \<Rightarrow> 'c \<Rightarrow> bool" where
  "cache_ok lru c \<longleftrightarrow> (\<forall>sid r. lru_peek lru c sid = Some r \<longrightarrow> length (rec_history r) \<le> HISTORY_CAP)"

definition cache_signals :: "('c, SessionRecord) lru_lib \<Rightarrow> 'c \<Rightarrow> session_id \<Rightarrow> RuntimeSignals" where
  "cache_signals lru c sid = signals_of (unwrap_or SessionRecord_default (lru_peek lru c sid))"

definition cache_step :: "(string \<Rightarrow> string) \<Rightarrow> ('c, SessionRecord) lru_lib \<Rightarrow> session_call \<Rightarrow> 'c \<Rightarrow> 'c \<Rightarrow> bool" where
  "cache_step f lru call c c' \<longleftrightarrow>
     lru_written lru c (call_session call)
       (call_record f call (unwrap_or SessionRecord_default (lru_peek lru c (call_session call)))) c'"

lemma unwrap_record_bounded:
  "cache_ok lru c \<Longrightarrow> length (rec_history (unwrap_or SessionRecord_default (lru_peek lru c sid))) \<le> HISTORY_CAP"
  by (cases "lru_peek lru c sid") (auto simp: cache_ok_def SessionRecord_default_def)

lemma cache_step_same:
  "cache_ok lru c \<Longrightarrow> cache_step f lru call c c' \<Longrightarrow>
     cache_signals lru c' (call_session call) = call_signals f call (cache_signals lru c (call_session call))"
  by (simp add: cache_step_def cache_signals_def lru_written_same call_record_signals unwrap_record_bounded)

lemma cache_step_ok:
  assumes "cache_ok lru c" and "cache_step f lru call c c'"
  shows "cache_ok lru c'"
  unfolding cache_ok_def
proof (intro allI impI)
  fix sid r
  assume r: "lru_peek lru c' sid = Some r"
  show "length (rec_history r) \<le> HISTORY_CAP"
  proof (cases "sid = call_session call")
    case True
    then have "r = call_record f call (unwrap_or SessionRecord_default (lru_peek lru c (call_session call)))"
      using r lru_written_same [OF assms(2) [unfolded cache_step_def]] by simp
    then show ?thesis by (simp add: call_record_signals(2) unwrap_record_bounded [OF assms(1)])
  next
    case False
    then show ?thesis
      using r assms(1) lru_written_other [OF assms(2) [unfolded cache_step_def], of sid]
      by (auto simp: cache_ok_def)
  qed
qed

lemma cache_step_other:
  "cache_step f lru call c c' \<Longrightarrow> sid \<noteq> call_session call \<Longrightarrow>
     cache_signals lru c' sid = cache_signals lru c sid \<or> cache_signals lru c' sid = RuntimeSignals_default"
  unfolding cache_step_def by (drule (1) lru_written_other) (auto simp: cache_signals_def)

lemma cache_step_room:
  "cache_step f lru call c c' \<Longrightarrow> lru_peek lru c (call_session call) \<noteq> None \<or> lru_len lru c < lru_cap lru c \<Longrightarrow>
     sid \<noteq> call_session call \<Longrightarrow> lru_peek lru c' sid = lru_peek lru c sid"
  using lru_written_keeps [of lru c "call_session call" _ c' sid] by (simp add: cache_step_def)

text \<open>
  A store that keeps its records in such a cache and whose calls are cache steps keeps the contract of
  a session store; both stores of the sidecar are of this kind.
\<close>

locale cached_store =
  fixes sha256_hex :: "string \<Rightarrow> string"
    and lru :: "('c, SessionRecord) lru_lib"
    and healthy :: "'s \<Rightarrow> bool"
    and cache :: "'s \<Rightarrow> 'c"
    and sig :: "'s \<Rightarrow> session_id \<Rightarrow> RuntimeSignals"
    and act :: "'s \<Rightarrow> session_id \<Rightarrow> nat \<times> 's"
    and out :: "'s \<Rightarrow> session_id \<Rightarrow> string \<Rightarrow> string \<Rightarrow> Outcome \<Rightarrow> 's"
    and prov :: "'s \<Rightarrow> session_id \<Rightarrow> string \<Rightarrow> string \<Rightarrow> string \<Rightarrow> string \<times> 's"
  assumes step_healthy: "healthy s \<Longrightarrow> healthy (session_step act out prov c s)"
    and step_cache: "lru_laws lru \<Longrightarrow> healthy s \<Longrightarrow>
      cache_step sha256_hex lru c (cache s) (cache (session_step act out prov c s))"
    and sig_cache: "healthy s \<Longrightarrow> sig s sid = cache_signals lru (cache s) sid"
    and act_result: "healthy s \<Longrightarrow>
      fst (act s sid) = rec_action_count (bump_count (unwrap_or SessionRecord_default (lru_peek lru (cache s) sid)))"
    and prov_result: "healthy s \<Longrightarrow> fst (prov s sid ctx cls res) =
      next_provenance sha256_hex (sig_last_provenance (cache_signals lru (cache s) sid)) ctx cls res"

sublocale cached_store \<subseteq> session_store sha256_hex
  "\<lambda>s. lru_laws lru \<and> healthy s \<and> cache_ok lru (cache s)" "\<lambda>s sid. lru_peek lru (cache s) sid \<noteq> None"
  "\<lambda>s. lru_len lru (cache s)" "\<lambda>s. lru_cap lru (cache s)" sig act out prov
proof (unfold_locales, goal_cases)
  case (1 s c)
  then show ?case using cache_step_ok [OF _ step_cache] by (blast intro: step_healthy)
next
  case (2 s c)
  then show ?case using cache_step_same [OF _ step_cache] by (simp add: sig_cache step_healthy)
next
  case (3 s c)
  then show ?case using step_cache [of s c] by (simp add: cache_step_def lru_written_same)
next
  case (4 s sid c)
  then show ?case using cache_step_other [OF step_cache] by (simp add: sig_cache step_healthy)
next
  case (5 s c sid)
  then have "lru_peek lru (cache (session_step act out prov c s)) sid = lru_peek lru (cache s) sid"
    by (blast intro: cache_step_room step_cache)
  then show ?case using 5 by (simp add: sig_cache step_healthy cache_signals_def)
next
  case (6 s c)
  then have "cache_step sha256_hex lru c (cache s) (cache (session_step act out prov c s))"
    by (blast intro: step_cache)
  from lru_written_load [OF this [unfolded cache_step_def]] show ?case
    by (cases "lru_peek lru (cache s) (call_session c)") simp_all
next
  case (7 s sid)
  then show ?case
    using unwrap_record_bounded [of lru "cache s" sid] by (simp add: sig_cache cache_signals_def signals_of_def)
next
  case (8 s sid)
  then show ?case
    using step_cache [of s "RecordAction sid"] step_healthy [of s "RecordAction sid"]
    by (simp add: sig_cache cache_step_def cache_signals_def lru_written_same act_result signals_of_def)
next
  case (9 s sid ctx cls res)
  then show ?case
    using step_cache [of s "AdvanceProvenance sid ctx cls res"] step_healthy [of s "AdvanceProvenance sid ctx cls res"]
    by (simp add: sig_cache cache_step_def cache_signals_def lru_written_same prov_result signals_of_def)
qed

lemma session_step_cache:
  assumes "lru_laws lru" and "\<not> ss_poisoned s"
  shows "cache_step f lru call (ss_inner s)
    (ss_inner (session_step (record_action lru) (record_outcome lru) (advance_provenance f lru) call s))"
  using assms(2) lru_get_or_insert_mut_written [OF assms(1), of "ss_inner s" _ _ SessionRecord_default]
  by (cases call) (simp_all add: cache_step_def record_action_def record_outcome_def advance_provenance_def Let_def)

lemma session_step_healthy:
  "\<not> ss_poisoned s \<Longrightarrow>
     \<not> ss_poisoned (session_step (record_action lru) (record_outcome lru) (advance_provenance f lru) call s)"
  by (cases call) (simp_all add: record_action_def record_outcome_def advance_provenance_def Let_def)

interpretation mem_store: cached_store f lru "\<lambda>s. \<not> ss_poisoned s" ss_inner
  "signals lru" "record_action lru" "record_outcome lru" "advance_provenance f lru" for f lru
proof (unfold_locales, goal_cases)
  case (1 s c)
  then show ?case by (rule session_step_healthy)
next
  case (2 s c)
  then show ?case by (rule session_step_cache)
next
  case (3 s sid)
  then show ?case by (simp add: signals_def cache_signals_def split: option.split)
next
  case (4 s sid)
  then show ?case by (simp add: record_action_def Let_def)
next
  case (5 s sid ctx cls res)
  then show ?case by (simp add: advance_provenance_def cache_signals_def signals_of_def Let_def)
qed

lemma mem_new:
  assumes "lru_laws lru" and "0 < capacity"
  shows "lru_laws lru \<and> \<not> ss_poisoned (LruSessionStateStore_new lru capacity)
      \<and> cache_ok lru (ss_inner (LruSessionStateStore_new lru capacity))"
    and "lru_len lru (ss_inner (LruSessionStateStore_new lru capacity)) = 0"
    and "lru_cap lru (ss_inner (LruSessionStateStore_new lru capacity)) = capacity"
    and "lru_peek lru (ss_inner (LruSessionStateStore_new lru capacity)) sid = None"
    and "signals lru (LruSessionStateStore_new lru capacity) sid = RuntimeSignals_default"
  using assms by (simp_all add: LruSessionStateStore_new_def cache_ok_def signals_def lru_laws_def)


definition sample_calls :: "session_call list" where
  "sample_calls =
     [RecordAction ''ses_1'', RecordOutcome ''ses_1'' ''code.read'' ''api.x.com/a'' OutDeny, RecordAction ''ses_2'',
      AdvanceProvenance ''ses_1'' ''h'' ''code.read'' ''api.x.com/a'', RecordAction ''ses_1'']"


text \<open>
  Session memory is bounded and the reported numbers agree: in every state reachable from a new
  store the history of a session has at most \<^verbatim>\<open>HISTORY_CAP\<close> entries, \<^verbatim>\<open>record_action\<close> returns the count
  that \<^verbatim>\<open>signals\<close> then reports and \<^verbatim>\<open>advance_provenance\<close> the anchor it then reports, even after
  evictions.
\<close>

theorem session_store_bounded:
  assumes "lru_laws lru" and "0 < capacity"
    and "s = fold (session_step (record_action lru) (record_outcome lru) (advance_provenance sha256_hex lru)) calls
         (LruSessionStateStore_new lru capacity)"
  shows "length (sig_history (signals lru s sid)) \<le> HISTORY_CAP
    \<and> fst (record_action lru s sid) = sig_action_count (signals lru (snd (record_action lru s sid)) sid)
    \<and> Some (fst (advance_provenance sha256_hex lru s sid ctx cls res)) =
        sig_last_provenance (signals lru (snd (advance_provenance sha256_hex lru s sid ctx cls res)) sid)"
proof -
  have "lru_laws lru \<and> \<not> ss_poisoned s \<and> cache_ok lru (ss_inner s)" unfolding assms(3) by (rule mem_store.run_ok) (rule mem_new(1) [OF assms(1,2)])
  then show ?thesis by (simp add: mem_store.sig_bounded mem_store.act_count mem_store.prov_anchor)
qed

theorem session_store_bounded_witness:
  "length (sig_history (signals assoc_lru
     (fold (session_step (record_action assoc_lru) (record_outcome assoc_lru) (advance_provenance rev assoc_lru))
       sample_calls (LruSessionStateStore_new assoc_lru 1)) ''ses_1'')) \<le> HISTORY_CAP"
  using session_store_bounded [OF assoc_lru_laws _ refl, of 1 rev sample_calls "''ses_1''"] by simp

end
