(* ===== verification/Redaction.thy ===== *)
theory Redaction
  imports Firma_Prelude
begin

text \<open>
  Query-parameter redaction (\<^verbatim>\<open>firma-sidecar/src/normalizer/redaction.rs\<close>).  The scanning loop
  over byte positions is modelled as written and proved equal to a per-pair reference, from which the
  non-interference property follows: the result does not depend on the values it removes.

  \<open>form_first\<close> stands for \<^verbatim>\<open>form_urlencoded::parse(key).next()\<close>, the decoded name of the first
  pair of its argument.
\<close>

definition DEFAULT_SENSITIVE_QUERY_PARAMS :: "string list" where
  "DEFAULT_SENSITIVE_QUERY_PARAMS =
    [''api_key'', ''apikey'', ''api-key'', ''key'', ''token'', ''access_token'', ''access-token'',
     ''refresh_token'', ''auth'', ''password'', ''passwd'', ''pwd'', ''secret'', ''signature'', ''sig'',
     ''sas'', ''bearer'', ''authorization'', ''credential'', ''credentials'', ''private_key'', ''privatekey'']"

section \<open>Byte positions\<close>

text \<open>\<^verbatim>\<open>find\<close> and \<^verbatim>\<open>rfind\<close> of one byte, and the slice \<^verbatim>\<open>s[a..b]\<close>.\<close>

definition find_byte :: "char \<Rightarrow> string \<Rightarrow> nat option" where
  "find_byte c s = (case split_once c s of None \<Rightarrow> None | Some (a, b) \<Rightarrow> Some (length a))"

definition rfind_byte :: "char \<Rightarrow> string \<Rightarrow> nat option" where
  "rfind_byte c s = (case rsplit_once c s of None \<Rightarrow> None | Some (a, b) \<Rightarrow> Some (length a))"

definition slice :: "nat \<Rightarrow> nat \<Rightarrow> string \<Rightarrow> string" where
  "slice a b s = take (b - a) (drop a s)"

definition is_ascii_whitespace :: "char \<Rightarrow> bool" where
  "is_ascii_whitespace c \<longleftrightarrow> byte_val c \<in> {9, 10, 12, 13, 32}"

text \<open>A byte position inside well-formed UTF-8 is a character boundary iff no continuation byte is there.\<close>

definition is_char_boundary :: "string \<Rightarrow> nat \<Rightarrow> bool" where
  "is_char_boundary s i \<longleftrightarrow>
     i = length s \<or> i < length s \<and> \<not> (128 \<le> byte_val (s ! i) \<and> byte_val (s ! i) < 192)"

section \<open>The redactor\<close>

definition key_boundary_before :: "string \<Rightarrow> bool" where
  "key_boundary_before pre \<longleftrightarrow>
     pre = [] \<or> last pre \<in> {CHR ''?'', CHR ''('', CHR ''['', CHR 0x27, CHR 0x22} \<or> is_ascii_whitespace (last pre)"

definition param_matches :: "string \<Rightarrow> string \<Rightarrow> bool" where
  "param_matches decoded param =
     (if param = [] \<or> length decoded < length param then False
      else let start = length decoded - length param in
        is_char_boundary decoded start
      \<and> eq_ignore_ascii_case (drop start decoded) param
      \<and> key_boundary_before (take start decoded))"

definition is_sensitive_query_key :: "(string \<Rightarrow> string option) \<Rightarrow> string list \<Rightarrow> string \<Rightarrow> bool" where
  "is_sensitive_query_key form_first sensitive_params key =
     (case form_first key of
        None \<Rightarrow> False
      | Some decoded \<Rightarrow> list_ex (param_matches decoded) sensitive_params)"

lemma find_byte_less: "find_byte c s = Some i \<Longrightarrow> i < length s"
  by (auto simp: find_byte_def dest: split_once_Some split: option.split_asm)

text \<open>The loop: the text built so far, the position copied up to, the position scanned from.\<close>

function redact_loop ::
  "(string \<Rightarrow> bool) \<Rightarrow> string \<Rightarrow> string \<Rightarrow> nat \<Rightarrow> nat \<Rightarrow> string" where
  "redact_loop sensitive v result copied_until scan_from =
     (case find_byte CHR ''='' (drop scan_from v) of
        None \<Rightarrow> result @ drop copied_until v
      | Some relative_eq \<Rightarrow>
          (let eq = scan_from + relative_eq;
               key_start = (case rfind_byte CHR ''&'' (slice scan_from eq v) of
                              None \<Rightarrow> scan_from | Some pos \<Rightarrow> scan_from + pos + 1)
           in if \<not> sensitive (slice key_start eq v)
              then redact_loop sensitive v result copied_until (eq + 1)
              else
                (let value_start = eq + 1;
                     value_end = (case find_byte CHR ''&'' (drop value_start v) of
                                    None \<Rightarrow> length v | Some pos \<Rightarrow> value_start + pos)
                 in redact_loop sensitive v
                      (result @ slice copied_until value_start v @ ''[REDACTED]'') value_end value_end)))"
  by pat_completeness auto
termination
  by (relation "measure (\<lambda>(sensitive, v, result, copied_until, scan_from). length v - scan_from)")
    (auto dest: find_byte_less split: option.splits)

declare redact_loop.simps [simp del]

definition redact_query_params :: "(string \<Rightarrow> string option) \<Rightarrow> string \<Rightarrow> string list \<Rightarrow> string" where
  "redact_query_params form_first v sensitive_params =
     redact_loop (is_sensitive_query_key form_first sensitive_params) v [] 0 0"

definition redact_default_query_params :: "(string \<Rightarrow> string option) \<Rightarrow> string \<Rightarrow> string" where
  "redact_default_query_params form_first v = redact_query_params form_first v DEFAULT_SENSITIVE_QUERY_PARAMS"

section \<open>The per-pair reference\<close>

text \<open>Within one pair every text between two equals signs is a key candidate.\<close>

lemma split_once_shorter: "split_once c s = Some (a, b) \<Longrightarrow> length b < length s"
  by (auto dest: split_once_Some)

function redact_pair :: "(string \<Rightarrow> bool) \<Rightarrow> string \<Rightarrow> string" where
  "redact_pair sensitive p =
     (case split_once CHR ''='' p of
        None \<Rightarrow> p
      | Some (k, v) \<Rightarrow>
          if sensitive k then k @ ''=[REDACTED]'' else k @ ''='' @ redact_pair sensitive v)"
  by pat_completeness auto
termination
  by (relation "measure (length \<circ> snd)") (auto dest: split_once_shorter)

declare redact_pair.simps [simp del]

definition redact_pairs :: "(string \<Rightarrow> bool) \<Rightarrow> string \<Rightarrow> string" where
  "redact_pairs sensitive s = join_with CHR ''&'' (map (redact_pair sensitive) (split_on CHR ''&'' s))"

lemma redact_pair_free: "CHR ''='' \<notin> set p \<Longrightarrow> redact_pair sensitive p = p"
  by (subst redact_pair.simps) (simp add: split_once_None_iff [THEN iffD2])

lemma redact_pair_eq:
  "CHR ''='' \<notin> set k \<Longrightarrow>
   redact_pair sensitive (k @ CHR ''='' # v) =
     (if sensitive k then k @ ''=[REDACTED]'' else k @ CHR ''='' # redact_pair sensitive v)"
  by (subst redact_pair.simps) (simp add: split_once_append)

lemma redact_pairs_free: "CHR ''='' \<notin> set s \<Longrightarrow> redact_pairs sensitive s = s"
proof -
  assume free: "CHR ''='' \<notin> set s"
  have "map (redact_pair sensitive) (split_on CHR ''&'' s) = split_on CHR ''&'' s"
    using free set_split_on [of _ "CHR ''&''" s] by (intro map_idI redact_pair_free) blast
  then show ?thesis by (simp add: redact_pairs_def join_split_on)
qed

lemma redact_pairs_amp: "redact_pairs sensitive (p @ CHR ''&'' # q) =
    redact_pairs sensitive p @ CHR ''&'' # redact_pairs sensitive q"
  by (simp add: redact_pairs_def split_on_append_sep join_with_append)

text \<open>What follows a removed value: nothing, or the next delimiter and the rest.\<close>

definition after_value :: "(string \<Rightarrow> bool) \<Rightarrow> string \<Rightarrow> string" where
  "after_value sensitive b =
     (case split_once CHR ''&'' b of None \<Rightarrow> [] | Some (x, y) \<Rightarrow> redact_pairs sensitive (CHR ''&'' # y))"

lemma redact_pairs_key:
  assumes "CHR ''='' \<notin> set k" "CHR ''&'' \<notin> set k"
  shows "redact_pairs sensitive (k @ CHR ''='' # b) =
    k @ CHR ''='' # (if sensitive k then ''[REDACTED]'' @ after_value sensitive b else redact_pairs sensitive b)"
proof -
  obtain b1 bs where b: "split_on CHR ''&'' b = b1 # bs" by (cases "split_on CHR ''&'' b") auto
  have sp: "split_on CHR ''&'' (k @ CHR ''='' # b) = (k @ CHR ''='' # b1) # bs"
    using split_on_append_free [of "CHR ''&''" "k @ ''=''" b] assms b by simp
  show ?thesis
  proof (cases "sensitive k")
    case False
    then show ?thesis
      using sp b assms join_with_head [of "CHR ''&''" "k @ ''=''" "redact_pair sensitive b1"]
      by (simp add: redact_pairs_def redact_pair_eq)
  next
    case True
    show ?thesis
    proof (cases "split_once CHR ''&'' b")
      case None
      then have "bs = []" using b split_on_free_single [of "CHR ''&''" b] by (simp add: split_once_None_iff)
      then show ?thesis using sp assms True None by (simp add: redact_pairs_def redact_pair_eq after_value_def)
    next
      case (Some xy)
      then obtain x y where xy: "split_once CHR ''&'' b = Some (x, y)" by (cases xy) auto
      from split_once_Some [OF xy] have beq: "b = x @ CHR ''&'' # y" and "CHR ''&'' \<notin> set x" by auto
      then have "split_on CHR ''&'' b = x # split_on CHR ''&'' y"
        by (simp add: split_on_append_sep split_on_free_single)
      with b have bs: "bs = split_on CHR ''&'' y" by simp
      have "redact_pairs sensitive (CHR ''&'' # y) = CHR ''&'' # redact_pairs sensitive y"
        using redact_pairs_amp [of sensitive "[]" y] by (simp add: redact_pairs_def redact_pair_free)
      then show ?thesis
        using sp bs assms True xy
          join_with_append [of "[k @ ''=[REDACTED]'']" "map (redact_pair sensitive) bs" "CHR ''&''"]
        by (simp add: redact_pairs_def redact_pair_eq after_value_def)
    qed
  qed
qed

lemma redact_pairs_scan:
  assumes "CHR ''='' \<notin> set a"
  shows "redact_pairs sensitive (a @ CHR ''='' # b) =
    a @ CHR ''='' # (if sensitive (case rsplit_once CHR ''&'' a of None \<Rightarrow> a | Some (p, k) \<Rightarrow> k)
                      then ''[REDACTED]'' @ after_value sensitive b else redact_pairs sensitive b)"
proof (cases "rsplit_once CHR ''&'' a")
  case None
  then have "CHR ''&'' \<notin> set a" by (simp add: rsplit_once_None_iff)
  then show ?thesis using redact_pairs_key [OF assms, of sensitive b] None by simp
next
  case (Some pk)
  then obtain p k where pk: "rsplit_once CHR ''&'' a = Some (p, k)" by (cases pk) auto
  from rsplit_once_Some [OF pk] have a: "a = p @ CHR ''&'' # k" "CHR ''&'' \<notin> set k" by auto
  then have "redact_pairs sensitive (a @ CHR ''='' # b) =
      p @ CHR ''&'' # redact_pairs sensitive (k @ CHR ''='' # b)"
    using redact_pairs_amp [of sensitive p "k @ CHR ''='' # b"] redact_pairs_free [of p] assms by simp
  then show ?thesis using redact_pairs_key [of k sensitive b] a assms pk by simp
qed

section \<open>The loop computes the reference\<close>

lemma slice_drop: "a \<le> b \<Longrightarrow> slice a b v @ drop b v = drop a v"
  by (simp add: slice_def) (metis append_take_drop_id drop_drop le_add_diff_inverse2)

lemma slice_at: "drop a v = x @ y \<Longrightarrow> slice a (a + length x) v = x"
  by (simp add: slice_def)

lemma slice_extend: "a \<le> b \<Longrightarrow> drop b v = x @ y \<Longrightarrow> slice a (b + length x) v = slice a b v @ x"
proof -
  assume "a \<le> b" "drop b v = x @ y"
  moreover have "slice a (b + n) v = slice a b v @ take n (drop b v)" if "a \<le> b" for n
    using that take_add [of "b - a" n "drop a v"] by (simp add: slice_def)
  ultimately show ?thesis by simp
qed

lemma slice_key:
  assumes "drop sf v = a @ CHR ''='' # b"
  shows "slice (case rfind_byte CHR ''&'' (slice sf (sf + length a) v) of None \<Rightarrow> sf | Some pos \<Rightarrow> sf + pos + 1)
      (sf + length a) v = (case rsplit_once CHR ''&'' a of None \<Rightarrow> a | Some (p, k) \<Rightarrow> k)"
proof -
  have a: "slice sf (sf + length a) v = a" using assms by (rule slice_at)
  show ?thesis
  proof (cases "rsplit_once CHR ''&'' a")
    case None
    then show ?thesis using a by (simp add: rfind_byte_def)
  next
    case (Some pk)
    then obtain p k where pk: "rsplit_once CHR ''&'' a = Some (p, k)" by (cases pk) auto
    from rsplit_once_Some [OF pk] have "a = p @ CHR ''&'' # k" by simp
    moreover have "drop (sf + length p + 1) v = drop (length p + 1) (drop sf v)" by (simp add: ac_simps)
    ultimately have "drop (sf + length p + 1) v = k @ CHR ''='' # b" "a = p @ CHR ''&'' # k"
      using assms by simp_all
    then show ?thesis
      using a pk slice_at [of "sf + length p + 1" v k] by (simp add: rfind_byte_def add.assoc)
  qed
qed

lemma redact_rest:
  assumes "drop n v = b"
  shows "redact_pairs sensitive
      (drop (case find_byte CHR ''&'' b of None \<Rightarrow> length v | Some pos \<Rightarrow> n + pos) v) = after_value sensitive b"
proof (cases "split_once CHR ''&'' b")
  case None
  then show ?thesis by (simp add: find_byte_def after_value_def redact_pairs_free)
next
  case (Some xy)
  then obtain x y where xy: "split_once CHR ''&'' b = Some (x, y)" by (cases xy) auto
  from split_once_Some [OF xy] have "b = x @ CHR ''&'' # y" by simp
  then have "drop (n + length x) v = CHR ''&'' # y"
    using arg_cong [OF assms, of "drop (length x)"] by (simp add: add.commute)
  then show ?thesis using xy by (simp add: find_byte_def after_value_def)
qed

lemma redact_loop_pairs:
  assumes "copied_until \<le> scan_from" "scan_from \<le> length v"
  shows "redact_loop sensitive v result copied_until scan_from =
    result @ slice copied_until scan_from v @ redact_pairs sensitive (drop scan_from v)"
  using assms
proof (induction sensitive v result copied_until scan_from rule: redact_loop.induct)
  case (1 sensitive v result cu sf)
  show ?case
  proof (cases "split_once CHR ''='' (drop sf v)")
    case None
    then have "find_byte CHR ''='' (drop sf v) = None" by (simp add: find_byte_def)
    moreover from None have "CHR ''='' \<notin> set (drop sf v)" by (simp add: split_once_None_iff)
    ultimately show ?thesis
      using 1(3) slice_drop [of cu sf v] redact_pairs_free [of "drop sf v"]
      by (subst redact_loop.simps) simp
  next
    case (Some ab)
    then obtain a b where ab: "split_once CHR ''='' (drop sf v) = Some (a, b)" by (cases ab) auto
    from split_once_Some [OF ab] have s: "drop sf v = a @ CHR ''='' # b" and free: "CHR ''='' \<notin> set a" by auto
    let ?eq = "sf + length a"
    let ?ks = "case rfind_byte CHR ''&'' (slice sf ?eq v) of None \<Rightarrow> sf | Some pos \<Rightarrow> sf + pos + 1"
    let ?key = "case rsplit_once CHR ''&'' a of None \<Rightarrow> a | Some (p, k) \<Rightarrow> k"
    have found: "find_byte CHR ''='' (drop sf v) = Some (length a)" using ab by (simp add: find_byte_def)
    have len: "?eq + 1 \<le> length v" using arg_cong [OF s, of length] by simp
    have b: "drop (?eq + 1) v = b"
      using arg_cong [OF s, of "drop (length a + 1)"] by (simp add: add.commute)
    have key: "slice ?ks ?eq v = ?key"
      using s by (rule slice_key)
    have upto: "slice cu (?eq + 1) v = slice cu sf v @ a @ ''=''"
      using slice_extend [of cu sf v "a @ ''=''" b] s 1(3) by simp
    show ?thesis
    proof (cases "sensitive ?key")
      case False
      have "redact_loop sensitive v result cu sf = redact_loop sensitive v result cu (?eq + 1)"
        using found key False by (subst redact_loop.simps) (simp add: Let_def)
      also have "\<dots> = result @ slice cu (?eq + 1) v @ redact_pairs sensitive b"
        using 1(1) [OF found refl refl] False key 1(3) len b by simp
      finally show ?thesis using upto s free redact_pairs_scan [of a sensitive b] False by simp
    next
      case True
      let ?ve = "case find_byte CHR ''&'' (drop (?eq + 1) v) of None \<Rightarrow> length v | Some pos \<Rightarrow> ?eq + 1 + pos"
      have ve: "?ve \<le> length v" using len find_byte_less by (fastforce split: option.split)
      have rest: "redact_pairs sensitive (drop ?ve v) = after_value sensitive b"
        unfolding b by (rule redact_rest [OF b])
      have "redact_loop sensitive v result cu sf =
          redact_loop sensitive v (result @ slice cu (?eq + 1) v @ ''[REDACTED]'') ?ve ?ve"
        using found key True by (subst redact_loop.simps) (simp add: Let_def split: option.split)
      also have "\<dots> = result @ slice cu (?eq + 1) v @ ''[REDACTED]'' @ redact_pairs sensitive (drop ?ve v)"
        using 1(2) [OF found refl refl _ refl refl] True key ve by (simp add: slice_def)
      finally show ?thesis using upto s free redact_pairs_scan [of a sensitive b] True rest by simp
    qed
  qed
qed

lemma redact_query_params_pairs:
  "redact_query_params form_first v ps = redact_pairs (is_sensitive_query_key form_first ps) v"
  by (simp add: redact_query_params_def redact_loop_pairs slice_def)

section \<open>Properties\<close>

text \<open>
  The single-pass scanner over byte positions computes the per-pair reference: split the text at
  ampersands, in every pair replace what follows the first sensitive key by the redaction marker, and
  join the pairs again.
\<close>

theorem redact_query_params_reference:
  "redact_query_params form_first v ps =
     join_with CHR ''&'' (map (redact_pair (is_sensitive_query_key form_first ps)) (split_on CHR ''&'' v))"
  by (simp add: redact_query_params_pairs redact_pairs_def)

text \<open>
  Redaction is independent of the secrets it removes: whatever the value of a sensitive parameter,
  and wherever the pair stands in the query, the redacted text is the same.
\<close>

theorem redact_query_params_hides:
  assumes "is_sensitive_query_key form_first ps k" "CHR ''='' \<notin> set k" "CHR ''&'' \<notin> set k"
    and "CHR ''&'' \<notin> set v" "CHR ''&'' \<notin> set w"
    and "list_all (\<lambda>p. CHR ''&'' \<notin> set p) xs" "list_all (\<lambda>p. CHR ''&'' \<notin> set p) ys"
  shows "redact_query_params form_first (join_with CHR ''&'' (xs @ [k @ ''='' @ v] @ ys)) ps =
         redact_query_params form_first (join_with CHR ''&'' (xs @ [k @ ''='' @ w] @ ys)) ps"
proof -
  have "redact_query_params form_first (join_with CHR ''&'' (xs @ [k @ ''='' @ u] @ ys)) ps =
      join_with CHR ''&'' (map (redact_pair (is_sensitive_query_key form_first ps)) xs
        @ [k @ ''=[REDACTED]''] @ map (redact_pair (is_sensitive_query_key form_first ps)) ys)"
    if "CHR ''&'' \<notin> set u" for u
  proof -
    have "split_on CHR ''&'' (join_with CHR ''&'' (xs @ [k @ ''='' @ u] @ ys)) = xs @ [k @ ''='' @ u] @ ys"
      by (rule split_on_join) (use that assms in \<open>auto simp: list_all_iff\<close>)
    then show ?thesis
      unfolding redact_query_params_pairs redact_pairs_def using assms(1,2) by (simp add: redact_pair_eq)
  qed
  then show ?thesis using assms(4,5) by simp
qed

text \<open>The identity is a faithful decoder of keys without percent escapes and plus signs.\<close>

theorem redact_query_params_hides_witness:
  "redact_query_params Some (join_with CHR ''&'' ([''q=1''] @ [''Token'' @ ''='' @ ''a=b''] @ [''r''])) DEFAULT_SENSITIVE_QUERY_PARAMS =
   redact_query_params Some (join_with CHR ''&'' ([''q=1''] @ [''Token'' @ ''='' @ ''c''] @ [''r''])) DEFAULT_SENSITIVE_QUERY_PARAMS"
  by (rule redact_query_params_hides) code_simp+

end
