(* ===== verification/Glob.thy ===== *)
theory Glob
  imports Firma_Prelude
begin

text \<open>
  The glob language of action-mapping rules (\<^verbatim>\<open>firma-core/src/mapping.rs\<close>): the
  dynamic-programming matcher \<^verbatim>\<open>glob_match\<close> and the breadth-first overlap check
  \<^verbatim>\<open>glob_patterns_overlap\<close>, both proved equal to one declarative semantics, the inductive
  predicate \<open>glob_lang\<close>.
\<close>

section \<open>The matcher\<close>

text \<open>The loop of a star token: once a position was reachable every later one is.\<close>

fun star_pass :: "bool \<Rightarrow> bool list \<Rightarrow> bool list" where
  "star_pass seen [] = []"
| "star_pass seen (position # rest) = (seen \<or> position) # star_pass (seen \<or> position) rest"

text \<open>The loop of a literal token, from the last index down to 1, then index 0.\<close>

fun literal_pass :: "char \<Rightarrow> string \<Rightarrow> nat \<Rightarrow> bool list \<Rightarrow> bool list" where
  "literal_pass token v 0 reachable = reachable[0 := False]"
| "literal_pass token v (Suc i) reachable =
     literal_pass token v i (reachable[Suc i := reachable ! i \<and> v ! i = token])"

fun glob_tokens :: "string \<Rightarrow> string \<Rightarrow> bool list \<Rightarrow> bool list" where
  "glob_tokens [] v reachable = reachable"
| "glob_tokens (token # pattern) v reachable =
     glob_tokens pattern v
       (if token = CHR ''*'' then star_pass False reachable
        else literal_pass token v (length v) reachable)"

definition glob_match :: "string \<Rightarrow> string \<Rightarrow> bool" where
  "glob_match pattern v =
     (if pattern = ''*'' then True
      else if CHR ''*'' \<notin> set pattern then pattern = v
      else glob_tokens pattern v (True # replicate (length v) False) ! length v)"

section \<open>The overlap check\<close>

definition byte_at :: "string \<Rightarrow> nat \<Rightarrow> char option" where
  "byte_at s i = (if i < length s then Some (s ! i) else None)"

text \<open>The pairs one iteration of the loop body appends to the queue, in the order it appends them.\<close>

definition overlap_pushes :: "string \<Rightarrow> string \<Rightarrow> nat \<times> nat \<Rightarrow> (nat \<times> nat) list" where
  "overlap_pushes l r = (\<lambda>(i, j).
     (if byte_at l i = Some CHR ''*'' then [(i + 1, j)] else [])
   @ (if byte_at r j = Some CHR ''*'' then [(i, j + 1)] else [])
   @ (case (byte_at l i, byte_at r j) of
        (Some a, Some b) \<Rightarrow>
          (if a = CHR ''*'' \<and> b = CHR ''*'' then [(i, j)]
           else if a = CHR ''*'' then [(i, j + 1)]
           else if b = CHR ''*'' then [(i + 1, j)]
           else if a = b then [(i + 1, j + 1)]
           else [])
      | _ \<Rightarrow> []))"

text \<open>The finite box of index pairs the queue can ever hold, used only to show termination.\<close>

definition overlap_box :: "string \<Rightarrow> string \<Rightarrow> (nat \<times> nat) list \<Rightarrow> (nat \<times> nat) set" where
  "overlap_box l r pending =
     {..Max (insert (length l) (fst ` set pending))} \<times> {..Max (insert (length r) (snd ` set pending))}"

lemma finite_overlap_box [simp]: "finite (overlap_box l r pending)"
  by (simp add: overlap_box_def)

lemma overlap_box_head: "p \<in> overlap_box l r (p # pending)"
  unfolding overlap_box_def mem_Times_iff atMost_iff by (intro conjI Max_ge) auto

lemma Max_insert_image_mono:
  assumes "\<And>x. x \<in> set ys \<Longrightarrow> f x \<le> n \<or> (\<exists>y \<in> set xs. f x \<le> f y)"
  shows "Max (insert (n::nat) (f ` set ys)) \<le> Max (insert n (f ` set xs))"
proof (rule Max.boundedI)
  fix a assume a: "a \<in> insert n (f ` set ys)"
  have fin: "finite (insert n (f ` set xs))" by simp
  from a consider "a = n" | x where "x \<in> set ys" "a = f x" by auto
  then show "a \<le> Max (insert n (f ` set xs))"
  proof cases
    case 1
    then show ?thesis using Max_ge [OF fin] by simp
  next
    case 2
    from assms [OF 2(1)] obtain b where "b \<in> insert n (f ` set xs)" "a \<le> b"
      using 2(2) by blast
    with Max_ge [OF fin, of b] show ?thesis by (blast intro: order_trans)
  qed
qed auto

lemma overlap_box_mono:
  assumes "\<And>x. x \<in> set ys \<Longrightarrow> fst x \<le> length l \<or> (\<exists>y \<in> set xs. fst x \<le> fst y)"
    and "\<And>x. x \<in> set ys \<Longrightarrow> snd x \<le> length r \<or> (\<exists>y \<in> set xs. snd x \<le> snd y)"
  shows "overlap_box l r ys \<subseteq> overlap_box l r xs"
proof -
  have "Max (insert (length l) (fst ` set ys)) \<le> Max (insert (length l) (fst ` set xs))"
    by (rule Max_insert_image_mono [of ys fst "length l" xs]) (fact assms(1))
  moreover have "Max (insert (length r) (snd ` set ys)) \<le> Max (insert (length r) (snd ` set xs))"
    by (rule Max_insert_image_mono [of ys snd "length r" xs]) (fact assms(2))
  ultimately show ?thesis
    unfolding overlap_box_def by (intro Sigma_mono) (auto simp del: Max_insert)
qed

lemma byte_at_Some [simp]: "byte_at s i = Some c \<longleftrightarrow> i < length s \<and> s ! i = c"
  by (simp add: byte_at_def)

lemma byte_at_None [simp]: "byte_at s i = None \<longleftrightarrow> length s \<le> i"
  by (simp add: byte_at_def not_less)

lemma overlap_pushes_iff:
  "q \<in> set (overlap_pushes l r (i, j)) \<longleftrightarrow>
     i < length l \<and> l ! i = CHR ''*'' \<and> q = (i + 1, j)
   \<or> j < length r \<and> r ! j = CHR ''*'' \<and> q = (i, j + 1)
   \<or> i < length l \<and> j < length r \<and>
      (l ! i = CHR ''*'' \<and> r ! j = CHR ''*'' \<and> q = (i, j)
     \<or> l ! i = CHR ''*'' \<and> r ! j \<noteq> CHR ''*'' \<and> q = (i, j + 1)
     \<or> l ! i \<noteq> CHR ''*'' \<and> r ! j = CHR ''*'' \<and> q = (i + 1, j)
     \<or> l ! i \<noteq> CHR ''*'' \<and> l ! i = r ! j \<and> q = (i + 1, j + 1))"
  by ((cases "i < length l"; cases "j < length r"; cases "l ! i = CHR ''*''"; cases "r ! j = CHR ''*''"),
      simp_all add: overlap_pushes_def byte_at_def, blast+)

lemma overlap_pushes_bounds:
  assumes "q \<in> set (overlap_pushes l r p)"
  shows "(fst q \<le> length l \<or> fst q \<le> fst p) \<and> (snd q \<le> length r \<or> snd q \<le> snd p)"
proof (cases p)
  case (Pair i j)
  with assms show ?thesis unfolding Pair overlap_pushes_iff by force
qed

function overlap_loop :: "string \<Rightarrow> string \<Rightarrow> (nat \<times> nat) list \<Rightarrow> (nat \<times> nat) set \<Rightarrow> bool" where
  "overlap_loop l r [] visited = False"
| "overlap_loop l r (p # pending) visited =
     (if p \<in> visited then overlap_loop l r pending visited
      else if p = (length l, length r) then True
      else overlap_loop l r (pending @ overlap_pushes l r p) (insert p visited))"
  by pat_completeness auto
termination
proof (relation "(\<lambda>(l, r, pending, visited). card (overlap_box l r pending - visited)) <*mlex*>
                 measure (\<lambda>(l, r, pending, visited). length pending)", goal_cases)
  case 1
  then show ?case by (intro wf_mlex) simp
next
  case (2 l r p pending visited)
  have "overlap_box l r pending \<subseteq> overlap_box l r (p # pending)"
    by (rule overlap_box_mono) auto
  then have "card (overlap_box l r pending - visited) \<le> card (overlap_box l r (p # pending) - visited)"
    by (intro card_mono) auto
  then show ?case by (auto intro: mlex_leq)
next
  case (3 l r p pending visited)
  let ?new = "pending @ overlap_pushes l r p"
  have "overlap_box l r ?new \<subseteq> overlap_box l r (p # pending)"
    by (rule overlap_box_mono) (auto dest: overlap_pushes_bounds)
  then have "overlap_box l r ?new - insert p visited \<subset> overlap_box l r (p # pending) - visited"
    using 3 overlap_box_head [of p l r pending] by auto
  then have "card (overlap_box l r ?new - insert p visited) < card (overlap_box l r (p # pending) - visited)"
    by (intro psubset_card_mono) auto
  then show ?case by (auto intro: mlex_less)
qed

definition glob_patterns_overlap :: "string \<Rightarrow> string \<Rightarrow> bool" where
  "glob_patterns_overlap l r = overlap_loop l r [(0, 0)] {}"

section \<open>Declarative semantics\<close>

text \<open>A star accepts any sequence, every other byte accepts itself.\<close>

inductive glob_lang :: "string \<Rightarrow> string \<Rightarrow> bool" where
  glob_empty: "glob_lang [] []"
| glob_literal: "c \<noteq> CHR ''*'' \<Longrightarrow> glob_lang p s \<Longrightarrow> glob_lang (c # p) (c # s)"
| glob_star: "glob_lang p s \<Longrightarrow> glob_lang (CHR ''*'' # p) (w @ s)"

inductive_simps glob_lang_Nil [simp]: "glob_lang [] s"
inductive_simps glob_lang_Cons: "glob_lang (c # p) s"

lemma glob_lang_literal:
  "c \<noteq> CHR ''*'' \<Longrightarrow> glob_lang (c # p) s \<longleftrightarrow> (\<exists>t. s = c # t \<and> glob_lang p t)"
  by (auto simp: glob_lang_Cons)

lemma glob_lang_star: "glob_lang (CHR ''*'' # p) s \<longleftrightarrow> (\<exists>w t. s = w @ t \<and> glob_lang p t)"
  by (auto simp: glob_lang_Cons)

lemma glob_lang_append:
  "glob_lang (p @ q) s \<longleftrightarrow> (\<exists>u v. s = u @ v \<and> glob_lang p u \<and> glob_lang q v)"
proof (induction p arbitrary: s)
  case (Cons c p)
  show ?case
  proof (cases "c = CHR ''*''")
    case True
    have "glob_lang ((c # p) @ q) s \<longleftrightarrow> (\<exists>w u v. s = (w @ u) @ v \<and> glob_lang p u \<and> glob_lang q v)"
      by (auto simp: True glob_lang_star Cons.IH)
    also have "\<dots> \<longleftrightarrow> (\<exists>u v. s = u @ v \<and> glob_lang (c # p) u \<and> glob_lang q v)"
      unfolding True glob_lang_star by blast
    finally show ?thesis .
  next
    case False
    have "glob_lang ((c # p) @ q) s \<longleftrightarrow> (\<exists>u v. s = (c # u) @ v \<and> glob_lang p u \<and> glob_lang q v)"
      by (auto simp: False glob_lang_literal Cons.IH)
    also have "\<dots> \<longleftrightarrow> (\<exists>u v. s = u @ v \<and> glob_lang (c # p) u \<and> glob_lang q v)"
      unfolding glob_lang_literal [OF False] by blast
    finally show ?thesis .
  qed
qed simp

section \<open>Correctness of the matcher\<close>

lemma length_star_pass [simp]: "length (star_pass seen rs) = length rs"
  by (induction rs arbitrary: seen) auto

lemma ex_le_Suc: "(\<exists>j \<le> Suc k. P j) \<longleftrightarrow> P 0 \<or> (\<exists>j \<le> k. P (Suc j))"
proof
  assume "\<exists>j \<le> Suc k. P j"
  then obtain j where "j \<le> Suc k" "P j" by blast
  then show "P 0 \<or> (\<exists>j \<le> k. P (Suc j))" by (cases j) auto
qed auto

lemma star_pass_nth:
  "i < length rs \<Longrightarrow> star_pass seen rs ! i \<longleftrightarrow> seen \<or> (\<exists>j \<le> i. rs ! j)"
proof (induction rs arbitrary: seen i)
  case (Cons a rs)
  then show ?case
  proof (cases i)
    case (Suc k)
    with Cons have "star_pass seen (a # rs) ! i \<longleftrightarrow> (seen \<or> a) \<or> (\<exists>j \<le> k. rs ! j)" by simp
    also have "\<dots> \<longleftrightarrow> seen \<or> (\<exists>j \<le> Suc k. (a # rs) ! j)"
      by (simp add: ex_le_Suc)
    finally show ?thesis by (simp add: Suc)
  qed simp
qed simp

lemma length_literal_pass [simp]: "length (literal_pass t v n rs) = length rs"
  by (induction n arbitrary: rs) auto

lemma literal_pass_nth:
  assumes "i < length rs" "n < length rs"
  shows "literal_pass t v n rs ! i \<longleftrightarrow>
    (if i = 0 then False else if i \<le> n then rs ! (i - 1) \<and> v ! (i - 1) = t else rs ! i)"
  using assms
proof (induction n arbitrary: rs)
  case (Suc n)
  then show ?case
    by (simp add: nth_list_update) (auto simp: le_Suc_eq)
qed simp

lemma length_glob_tokens [simp]: "length (glob_tokens p v rs) = length rs"
  by (induction p arbitrary: rs) auto

text \<open>Loop invariant: a position is reachable iff the consumed pattern accepts that prefix.\<close>

definition reach_inv :: "string \<Rightarrow> string \<Rightarrow> bool list \<Rightarrow> bool" where
  "reach_inv p v rs \<longleftrightarrow>
     length rs = Suc (length v) \<and> (\<forall>i \<le> length v. rs ! i \<longleftrightarrow> glob_lang p (take i v))"

lemma reach_inv_init: "reach_inv [] v (True # replicate (length v) False)"
  by (auto simp: reach_inv_def nth_Cons split: nat.splits)

lemma glob_lang_snoc_star:
  "glob_lang (p @ ''*'') s \<longleftrightarrow> (\<exists>j \<le> length s. glob_lang p (take j s))"
proof
  assume "glob_lang (p @ ''*'') s"
  then obtain u v where "s = u @ v" "glob_lang p u" by (auto simp: glob_lang_append)
  then show "\<exists>j \<le> length s. glob_lang p (take j s)" by (intro exI [of _ "length u"]) simp
next
  assume "\<exists>j \<le> length s. glob_lang p (take j s)"
  then obtain j where "glob_lang p (take j s)" by blast
  moreover have "glob_lang ''*'' (drop j s)" by (auto simp: glob_lang_star)
  ultimately show "glob_lang (p @ ''*'') s"
    unfolding glob_lang_append by (intro exI [of _ "take j s"] exI [of _ "drop j s"]) simp
qed

lemma glob_lang_snoc_literal:
  assumes "c \<noteq> CHR ''*''"
  shows "glob_lang (p @ [c]) s \<longleftrightarrow> s \<noteq> [] \<and> last s = c \<and> glob_lang p (butlast s)"
proof -
  have "glob_lang (p @ [c]) s \<longleftrightarrow> (\<exists>u. s = u @ [c] \<and> glob_lang p u)"
    unfolding glob_lang_append glob_lang_literal [OF assms] by simp
  then show ?thesis by (cases s rule: rev_cases) auto
qed

lemma reach_inv_star:
  assumes "reach_inv p v rs"
  shows "reach_inv (p @ ''*'') v (star_pass False rs)"
proof -
  have len: "length rs = Suc (length v)" using assms by (simp add: reach_inv_def)
  have "star_pass False rs ! i \<longleftrightarrow> glob_lang (p @ ''*'') (take i v)" if "i \<le> length v" for i
  proof -
    have "star_pass False rs ! i \<longleftrightarrow> (\<exists>j \<le> i. rs ! j)" using that len by (simp add: star_pass_nth)
    also have "\<dots> \<longleftrightarrow> (\<exists>j \<le> i. glob_lang p (take j (take i v)))"
      using assms that by (auto simp: reach_inv_def min_absorb1)
    finally show ?thesis using that by (simp add: glob_lang_snoc_star min_absorb2)
  qed
  then show ?thesis using len by (simp add: reach_inv_def)
qed

lemma reach_inv_literal:
  assumes inv: "reach_inv p v rs" and c: "c \<noteq> CHR ''*''"
  shows "reach_inv (p @ [c]) v (literal_pass c v (length v) rs)"
proof -
  have len: "length rs = Suc (length v)" using inv by (simp add: reach_inv_def)
  have "literal_pass c v (length v) rs ! i \<longleftrightarrow> glob_lang (p @ [c]) (take i v)" if "i \<le> length v" for i
  proof (cases i)
    case 0
    then show ?thesis using c len by (simp add: literal_pass_nth glob_lang_snoc_literal)
  next
    case (Suc k)
    then have "take i v = take k v @ [v ! k]" using that by (simp add: take_Suc_conv_app_nth)
    moreover have "rs ! k \<longleftrightarrow> glob_lang p (take k v)" using inv Suc that by (simp add: reach_inv_def)
    ultimately show ?thesis
      using c len that Suc by (auto simp: literal_pass_nth glob_lang_snoc_literal)
  qed
  then show ?thesis using len by (simp add: reach_inv_def)
qed

lemma reach_inv_tokens: "reach_inv p v rs \<Longrightarrow> reach_inv (p @ q) v (glob_tokens q v rs)"
proof (induction q arbitrary: p rs)
  case (Cons c q)
  show ?case
  proof (cases "c = CHR ''*''")
    case True
    with Cons.IH [OF reach_inv_star [OF Cons.prems]] show ?thesis by simp
  next
    case False
    with Cons.IH [OF reach_inv_literal [OF Cons.prems False]] show ?thesis by simp
  qed
qed simp

lemma glob_lang_no_star: "CHR ''*'' \<notin> set p \<Longrightarrow> glob_lang p s \<longleftrightarrow> p = s"
proof (induction p arbitrary: s)
  case (Cons c p)
  then have c: "c \<noteq> CHR ''*''" and "glob_lang p t \<longleftrightarrow> p = t" for t by auto
  then show ?case unfolding glob_lang_literal [OF c] by blast
qed auto

lemma glob_match_lang: "glob_match p v \<longleftrightarrow> glob_lang p v"
proof -
  have "glob_lang ''*'' v" by (auto simp: glob_lang_star)
  moreover have "glob_tokens p v (True # replicate (length v) False) ! length v \<longleftrightarrow> glob_lang p v"
    using reach_inv_tokens [OF reach_inv_init, where q = p and v = v] by (simp add: reach_inv_def)
  ultimately show ?thesis
    unfolding glob_match_def by (cases "p = ''*''"; cases "CHR ''*'' \<in> set p") (simp_all add: glob_lang_no_star)
qed

section \<open>Correctness of the overlap check\<close>

definition overlap_rel :: "string \<Rightarrow> string \<Rightarrow> ((nat \<times> nat) \<times> (nat \<times> nat)) set" where
  "overlap_rel l r = {(p, q). q \<in> set (overlap_pushes l r p)}"

abbreviation overlap_reach :: "string \<Rightarrow> string \<Rightarrow> nat \<times> nat \<Rightarrow> bool" where
  "overlap_reach l r p \<equiv> (p, (length l, length r)) \<in> (overlap_rel l r)\<^sup>*"

text \<open>Worklist invariant: what was visited is not the goal and its successors are visited or queued.\<close>

definition overlap_inv :: "string \<Rightarrow> string \<Rightarrow> (nat \<times> nat) list \<Rightarrow> (nat \<times> nat) set \<Rightarrow> bool" where
  "overlap_inv l r pending visited \<longleftrightarrow>
     (length l, length r) \<notin> visited
   \<and> (\<forall>v \<in> visited. \<forall>q. (v, q) \<in> overlap_rel l r \<longrightarrow> q \<in> visited \<or> q \<in> set pending)"

lemma overlap_inv_escape:
  assumes "overlap_inv l r pending visited" and "overlap_reach l r v" and "v \<in> visited"
  shows "\<exists>q \<in> set pending. overlap_reach l r q"
  using assms(2,3)
proof (induction rule: converse_rtrancl_induct)
  case base
  then show ?case using assms(1) by (simp add: overlap_inv_def)
next
  case (step y z)
  then have "z \<in> visited \<or> z \<in> set pending" using assms(1) unfolding overlap_inv_def by blast
  then show ?case using step by blast
qed

lemma overlap_loop_reach:
  "overlap_inv l r pending visited \<Longrightarrow>
   overlap_loop l r pending visited \<longleftrightarrow> (\<exists>p \<in> set pending. overlap_reach l r p)"
proof (induction l r pending visited rule: overlap_loop.induct)
  case (2 l r p pending visited)
  consider (seen) "p \<in> visited" | (goal) "p \<notin> visited" "p = (length l, length r)"
    | (next_pair) "p \<notin> visited" "p \<noteq> (length l, length r)" by blast
  then show ?case
  proof cases
    case seen
    then have inv: "overlap_inv l r pending visited"
      using 2(3) by (auto simp: overlap_inv_def)
    then show ?thesis using 2(1) [OF seen inv] seen overlap_inv_escape [OF inv, of p] by auto
  next
    case goal
    then show ?thesis by auto
  next
    case next_pair
    have inv: "overlap_inv l r (pending @ overlap_pushes l r p) (insert p visited)"
      using 2(3) next_pair by (auto simp: overlap_inv_def overlap_rel_def)
    have "overlap_reach l r p \<longleftrightarrow> (\<exists>q \<in> set (overlap_pushes l r p). overlap_reach l r q)"
      using next_pair(2) converse_rtrancl_into_rtrancl [of p _ "overlap_rel l r"]
      by (auto simp: overlap_rel_def elim: converse_rtranclE)
    then show ?thesis using 2(2) [OF next_pair inv] next_pair by auto
  qed
qed simp

text \<open>What a pair of indices stands for: a string both remaining patterns accept.\<close>

definition common_suffix :: "string \<Rightarrow> string \<Rightarrow> nat \<times> nat \<Rightarrow> bool" where
  "common_suffix l r = (\<lambda>(i, j). \<exists>s. glob_lang (drop i l) s \<and> glob_lang (drop j r) s)"

lemma glob_lang_star_step:
  "glob_lang (CHR ''*'' # p) s \<longleftrightarrow>
     glob_lang p s \<or> (\<exists>c t. s = c # t \<and> glob_lang (CHR ''*'' # p) t)"
proof
  assume "glob_lang (CHR ''*'' # p) s"
  then obtain w t where "s = w @ t" "glob_lang p t" unfolding glob_lang_star by blast
  then show "glob_lang p s \<or> (\<exists>c t. s = c # t \<and> glob_lang (CHR ''*'' # p) t)"
    by (cases w) (auto simp: glob_lang_star)
next
  assume "glob_lang p s \<or> (\<exists>c t. s = c # t \<and> glob_lang (CHR ''*'' # p) t)"
  then show "glob_lang (CHR ''*'' # p) s"
  proof (elim disjE exE conjE)
    assume "glob_lang p s"
    then show ?thesis using glob_star [of p s "[]"] by simp
  next
    fix c t assume s: "s = c # t" and "glob_lang (CHR ''*'' # p) t"
    then obtain w u where "t = w @ u" "glob_lang p u" unfolding glob_lang_star by blast
    then show ?thesis using glob_star [of p u "c # w"] s by simp
  qed
qed

lemma drop_star:
  assumes "i < length p" "p ! i = CHR ''*''"
  shows "drop i p = CHR ''*'' # drop (Suc i) p"
  using Cons_nth_drop_Suc [OF assms(1)] assms(2) by simp

lemma glob_lang_drop_star:
  assumes "i < length p" "p ! i = CHR ''*''"
  shows "glob_lang (drop i p) s \<longleftrightarrow>
           glob_lang (drop (Suc i) p) s \<or> (\<exists>c t. s = c # t \<and> glob_lang (drop i p) t)"
  unfolding drop_star [OF assms] by (rule glob_lang_star_step)

lemma glob_lang_drop_star_skip:
  "i < length p \<Longrightarrow> p ! i = CHR ''*'' \<Longrightarrow> glob_lang (drop (Suc i) p) s \<Longrightarrow> glob_lang (drop i p) s"
  using glob_lang_drop_star by blast

lemma glob_lang_drop_star_eat:
  "i < length p \<Longrightarrow> p ! i = CHR ''*'' \<Longrightarrow> glob_lang (drop i p) s \<Longrightarrow> glob_lang (drop i p) (c # s)"
  using glob_lang_drop_star by blast

lemma glob_lang_drop_literal:
  assumes "i < length p" "p ! i \<noteq> CHR ''*''"
  shows "glob_lang (drop i p) s \<longleftrightarrow> (\<exists>t. s = p ! i # t \<and> glob_lang (drop (Suc i) p) t)"
  using glob_lang_literal [OF assms(2), of "drop (Suc i) p"] Cons_nth_drop_Suc [OF assms(1)] by simp

lemma overlap_step_back:
  assumes "q \<in> set (overlap_pushes l r (i, j))" "common_suffix l r q"
  shows "common_suffix l r (i, j)"
proof -
  obtain s where s: "glob_lang (drop (fst q) l) s" "glob_lang (drop (snd q) r) s"
    using assms(2) by (auto simp: common_suffix_def split: prod.splits)
  have "\<exists>t. glob_lang (drop i l) t \<and> glob_lang (drop j r) t"
    using assms(1) unfolding overlap_pushes_iff
  proof (elim disjE conjE, goal_cases)
    case 1
    then show ?case using s glob_lang_drop_star_skip [of i l s] by auto
  next
    case 2
    then show ?case using s glob_lang_drop_star_skip [of j r s] by auto
  next
    case 3
    then show ?case using s by auto
  next
    case 4
    then have "glob_lang (drop j r) (r ! j # s)" using s by (simp add: glob_lang_drop_literal)
    with 4 s show ?case using glob_lang_drop_star_eat [of i l s] by auto
  next
    case 5
    then have "glob_lang (drop i l) (l ! i # s)" using s by (simp add: glob_lang_drop_literal)
    with 5 s show ?case using glob_lang_drop_star_eat [of j r s] by auto
  next
    case 6
    then have "glob_lang (drop i l) (l ! i # s)" "glob_lang (drop j r) (l ! i # s)"
      using s by (simp_all add: glob_lang_drop_literal)
    then show ?case by blast
  qed
  then show ?thesis by (simp add: common_suffix_def)
qed

lemma overlap_reach_sound: "overlap_reach l r p \<Longrightarrow> common_suffix l r p"
proof (induction rule: converse_rtrancl_induct)
  case base
  then show ?case by (auto simp: common_suffix_def)
next
  case (step y z)
  then show ?case by (cases y) (auto simp: overlap_rel_def intro: overlap_step_back)
qed

lemma overlap_reach_step:
  "q \<in> set (overlap_pushes l r p) \<Longrightarrow> overlap_reach l r q \<Longrightarrow> overlap_reach l r p"
  by (rule converse_rtrancl_into_rtrancl) (auto simp: overlap_rel_def)

lemma drop_star_cases:
  assumes "glob_lang (drop i p) s" "i < length p" "p ! i = CHR ''*''"
  obtains (skip) "glob_lang (drop (Suc i) p) s" | (eat) c t where "s = c # t" "glob_lang (drop i p) t"
  using assms glob_lang_drop_star by blast

lemma drop_literal_cases:
  assumes "glob_lang (drop i p) s" "i < length p" "p ! i \<noteq> CHR ''*''"
  obtains t where "s = p ! i # t" "glob_lang (drop (Suc i) p) t"
  using assms glob_lang_drop_literal by blast

text \<open>One move towards the goal: the pair may stay while the common string gets shorter.\<close>

definition overlap_weight :: "string \<Rightarrow> string \<Rightarrow> string \<Rightarrow> nat \<times> nat \<Rightarrow> nat" where
  "overlap_weight l r s p = length s + (length l - fst p) + (length r - snd p)"

definition overlap_move :: "string \<Rightarrow> string \<Rightarrow> string \<Rightarrow> nat \<times> nat \<Rightarrow> string \<Rightarrow> nat \<times> nat \<Rightarrow> bool" where
  "overlap_move l r s p t q \<longleftrightarrow>
     (q = p \<or> q \<in> set (overlap_pushes l r p)) \<and> fst q \<le> length l \<and> snd q \<le> length r
   \<and> glob_lang (drop (fst q) l) t \<and> glob_lang (drop (snd q) r) t
   \<and> overlap_weight l r t q < overlap_weight l r s p"

lemmas overlap_move_simps = overlap_move_def overlap_weight_def overlap_pushes_iff

lemma overlap_move_left_star:
  assumes j: "j \<le> length r" and l: "glob_lang (drop i l) s" and r: "glob_lang (drop j r) s"
    and i: "i < length l" "l ! i = CHR ''*''"
  shows "\<exists>t q. overlap_move l r s (i, j) t q"
  using l i
proof (cases rule: drop_star_cases)
  case skip
  then have "overlap_move l r s (i, j) s (Suc i, j)" using j r i by (simp add: overlap_move_simps)
  then show ?thesis by blast
next
  case (eat c t)
  then have jl: "j < length r" using r j by (cases "j = length r") auto
  show ?thesis
  proof (cases "r ! j = CHR ''*''")
    case True
    with r jl show ?thesis
    proof (cases rule: drop_star_cases)
      case skip
      then have "overlap_move l r s (i, j) s (i, Suc j)" using l i jl True by (simp add: overlap_move_simps)
      then show ?thesis by blast
    next
      case (eat c' t')
      then have "overlap_move l r s (i, j) t (i, j)" using \<open>s = c # t\<close> \<open>glob_lang (drop i l) t\<close> i jl
        by (simp add: overlap_move_simps)
      then show ?thesis by blast
    qed
  next
    case False
    obtain t' where "s = r ! j # t'" "glob_lang (drop (Suc j) r) t'"
      using drop_literal_cases [OF r jl False] by blast
    then have "overlap_move l r s (i, j) t (i, Suc j)" using eat i jl False by (simp add: overlap_move_simps)
    then show ?thesis by blast
  qed
qed

lemma overlap_move_left_literal:
  assumes j: "j \<le> length r" and l: "glob_lang (drop i l) s" and r: "glob_lang (drop j r) s"
    and i: "i < length l" "l ! i \<noteq> CHR ''*''"
  shows "\<exists>t q. overlap_move l r s (i, j) t q"
proof -
  obtain t where s: "s = l ! i # t" and t: "glob_lang (drop (Suc i) l) t"
    using drop_literal_cases [OF l i] by blast
  then have jl: "j < length r" using r j by (cases "j = length r") auto
  show ?thesis
  proof (cases "r ! j = CHR ''*''")
    case True
    with r jl show ?thesis
    proof (cases rule: drop_star_cases)
      case skip
      then have "overlap_move l r s (i, j) s (i, Suc j)" using l i jl True by (simp add: overlap_move_simps)
      then show ?thesis by blast
    next
      case (eat c t')
      then have "overlap_move l r s (i, j) t (Suc i, j)" using s t i jl True by (simp add: overlap_move_simps)
      then show ?thesis by blast
    qed
  next
    case False
    obtain t' where "s = r ! j # t'" "glob_lang (drop (Suc j) r) t'"
      using drop_literal_cases [OF r jl False] by blast
    then have "overlap_move l r s (i, j) t (Suc i, Suc j)" using s t i jl by (simp add: overlap_move_simps)
    then show ?thesis by blast
  qed
qed

lemma overlap_move_left_end:
  assumes "j < length r" and "glob_lang (drop j r) []"
  shows "\<exists>t q. overlap_move l r [] (length l, j) t q"
proof -
  have star: "r ! j = CHR ''*''"
    using assms drop_literal_cases [of j r "[]"] by blast
  with assms(2,1) have "glob_lang (drop (Suc j) r) []"
    by (cases rule: drop_star_cases) auto
  then have "overlap_move l r [] (length l, j) [] (length l, Suc j)"
    using assms star by (simp add: overlap_move_simps)
  then show ?thesis by blast
qed

lemma overlap_reach_complete:
  assumes "fst p \<le> length l" "snd p \<le> length r" "glob_lang (drop (fst p) l) s" "glob_lang (drop (snd p) r) s"
  shows "overlap_reach l r p"
  using assms
proof (induction "overlap_weight l r s p" arbitrary: p s rule: less_induct)
  case less
  obtain i j where p: "p = (i, j)" by force
  show ?case
  proof (cases "p = (length l, length r)")
    case False
    have "\<exists>t q. overlap_move l r s p t q"
    proof (cases "i = length l")
      case True
      then show ?thesis using less.prems False p overlap_move_left_end [of j r l] by auto
    next
      case False
      then show ?thesis
        using less.prems p overlap_move_left_star [of j r i l s] overlap_move_left_literal [of j r i l s]
        by (cases "l ! i = CHR ''*''") auto
    qed
    then obtain t q where move: "overlap_move l r s p t q" by blast
    then have "overlap_reach l r q" using less.hyps [of t q] by (simp add: overlap_move_def)
    then show ?thesis using move overlap_reach_step [of q l r p] unfolding overlap_move_def by blast
  qed simp
qed

lemma glob_patterns_overlap_lang:
  "glob_patterns_overlap l r \<longleftrightarrow> (\<exists>s. glob_lang l s \<and> glob_lang r s)"
proof -
  have "glob_patterns_overlap l r \<longleftrightarrow> overlap_reach l r (0, 0)"
    unfolding glob_patterns_overlap_def
    by (subst overlap_loop_reach) (simp_all add: overlap_inv_def)
  also have "\<dots> \<longleftrightarrow> (\<exists>s. glob_lang l s \<and> glob_lang r s)"
    using overlap_reach_sound [of "(0, 0)" l r] overlap_reach_complete [of "(0, 0)" l r]
    by (auto simp: common_suffix_def)
  finally show ?thesis .
qed

section \<open>Properties\<close>

text \<open>
  C31.  The dynamic-programming matcher decides the glob language: for every pattern and every value,
  \<^verbatim>\<open>glob_match\<close> answers true exactly when the value can be derived from the pattern, a star
  standing for any byte sequence and every other byte for itself.
\<close>

theorem glob_match_correct: "glob_match pattern v \<longleftrightarrow> glob_lang pattern v"
  by (rule glob_match_lang)

text \<open>
  C32.  The breadth-first search of \<^verbatim>\<open>glob_patterns_overlap\<close> always ends (it is a total
  function) and answers true exactly when some string is accepted by both patterns, as
  \<^verbatim>\<open>glob_match\<close> accepts it.
\<close>

theorem glob_patterns_overlap_correct:
  "glob_patterns_overlap l r \<longleftrightarrow> (\<exists>s. glob_match l s \<and> glob_match r s)"
  by (simp add: glob_match_lang glob_patterns_overlap_lang)

end
