(* ===== verification/Action_Class.thy ===== *)
theory Action_Class
  imports Firma_Prelude
begin

text \<open>
  The canonical action-class catalogue (\<^verbatim>\<open>firma-core/src/action_class.rs\<close>) and the Sidecar's
  registry view of it (\<^verbatim>\<open>firma-sidecar/src/enforcement/registry.rs\<close>): the 52 classes, their wire
  identifiers, parsing, and the order on classes, which is the order of the identifiers.
\<close>

datatype ActionClass =
    AccountPermissionChange | BrowserPurchase | CalendarCreate | CalendarDelete | CalendarRead |
    CalendarUpdate | CodeDestructive | CodeMerge | CodeRead | CodeReviewRead | CodeReviewSubmit |
    CodeWrite | CommunicationExternalDelete | CommunicationExternalDraft |
    CommunicationExternalFilter | CommunicationExternalManage | CommunicationExternalRead |
    CommunicationExternalSend | CommunicationInternalSend | CredentialRead | CredentialWrite |
    CustomerRead | CustomerWrite | DocumentDelete | DocumentRead | DocumentSchemaWrite |
    DocumentWrite | FilesystemDelete | FilesystemRead | FilesystemWrite | IssueRead | IssueWrite |
    MemoryCrossNamespaceRead | MemoryCrossNamespaceWrite | NotificationManage | PaymentCancel |
    PaymentCatalogWrite | PaymentDispute | PaymentMethodManage | PaymentMethodSetup |
    PaymentPayout | PaymentPurchase | PaymentRead | PaymentRefund | PaymentSubscription |
    PaymentTax | PaymentTransfer | RepoAdmin | RepoLifecycle | SecurityAlertRead | SystemExecute |
    SystemInstall

definition ActionClass_ALL :: "ActionClass list" where
  "ActionClass_ALL =
    [AccountPermissionChange, BrowserPurchase, CalendarCreate, CalendarDelete, CalendarRead,
     CalendarUpdate, CodeDestructive, CodeMerge, CodeRead, CodeReviewRead, CodeReviewSubmit,
     CodeWrite, CommunicationExternalDelete, CommunicationExternalDraft,
     CommunicationExternalFilter, CommunicationExternalManage, CommunicationExternalRead,
     CommunicationExternalSend, CommunicationInternalSend, CredentialRead, CredentialWrite,
     CustomerRead, CustomerWrite, DocumentDelete, DocumentRead, DocumentSchemaWrite, DocumentWrite,
     FilesystemDelete, FilesystemRead, FilesystemWrite, IssueRead, IssueWrite,
     MemoryCrossNamespaceRead, MemoryCrossNamespaceWrite, NotificationManage, PaymentCancel,
     PaymentCatalogWrite, PaymentDispute, PaymentMethodManage, PaymentMethodSetup, PaymentPayout,
     PaymentPurchase, PaymentRead, PaymentRefund, PaymentSubscription, PaymentTax, PaymentTransfer,
     RepoAdmin, RepoLifecycle, SecurityAlertRead, SystemExecute, SystemInstall]"

primrec ActionClass_as_str :: "ActionClass \<Rightarrow> string" where
  "ActionClass_as_str AccountPermissionChange = ''account.permission.change''"
| "ActionClass_as_str BrowserPurchase = ''browser.purchase''"
| "ActionClass_as_str CalendarCreate = ''calendar.create''"
| "ActionClass_as_str CalendarDelete = ''calendar.delete''"
| "ActionClass_as_str CalendarRead = ''calendar.read''"
| "ActionClass_as_str CalendarUpdate = ''calendar.update''"
| "ActionClass_as_str CodeDestructive = ''code.destructive''"
| "ActionClass_as_str CodeMerge = ''code.merge''"
| "ActionClass_as_str CodeRead = ''code.read''"
| "ActionClass_as_str CodeReviewRead = ''code.review.read''"
| "ActionClass_as_str CodeReviewSubmit = ''code.review.submit''"
| "ActionClass_as_str CodeWrite = ''code.write''"
| "ActionClass_as_str CommunicationExternalDelete = ''communication.external.delete''"
| "ActionClass_as_str CommunicationExternalDraft = ''communication.external.draft''"
| "ActionClass_as_str CommunicationExternalFilter = ''communication.external.filter''"
| "ActionClass_as_str CommunicationExternalManage = ''communication.external.manage''"
| "ActionClass_as_str CommunicationExternalRead = ''communication.external.read''"
| "ActionClass_as_str CommunicationExternalSend = ''communication.external.send''"
| "ActionClass_as_str CommunicationInternalSend = ''communication.internal.send''"
| "ActionClass_as_str CredentialRead = ''credential.read''"
| "ActionClass_as_str CredentialWrite = ''credential.write''"
| "ActionClass_as_str CustomerRead = ''customer.read''"
| "ActionClass_as_str CustomerWrite = ''customer.write''"
| "ActionClass_as_str DocumentDelete = ''document.delete''"
| "ActionClass_as_str DocumentRead = ''document.read''"
| "ActionClass_as_str DocumentSchemaWrite = ''document.schema.write''"
| "ActionClass_as_str DocumentWrite = ''document.write''"
| "ActionClass_as_str FilesystemDelete = ''filesystem.delete''"
| "ActionClass_as_str FilesystemRead = ''filesystem.read''"
| "ActionClass_as_str FilesystemWrite = ''filesystem.write''"
| "ActionClass_as_str IssueRead = ''issue.read''"
| "ActionClass_as_str IssueWrite = ''issue.write''"
| "ActionClass_as_str MemoryCrossNamespaceRead = ''memory.cross_namespace.read''"
| "ActionClass_as_str MemoryCrossNamespaceWrite = ''memory.cross_namespace.write''"
| "ActionClass_as_str NotificationManage = ''notification.manage''"
| "ActionClass_as_str PaymentCancel = ''payment.cancel''"
| "ActionClass_as_str PaymentCatalogWrite = ''payment.catalog.write''"
| "ActionClass_as_str PaymentDispute = ''payment.dispute''"
| "ActionClass_as_str PaymentMethodManage = ''payment.method.manage''"
| "ActionClass_as_str PaymentMethodSetup = ''payment.method.setup''"
| "ActionClass_as_str PaymentPayout = ''payment.payout''"
| "ActionClass_as_str PaymentPurchase = ''payment.purchase''"
| "ActionClass_as_str PaymentRead = ''payment.read''"
| "ActionClass_as_str PaymentRefund = ''payment.refund''"
| "ActionClass_as_str PaymentSubscription = ''payment.subscription''"
| "ActionClass_as_str PaymentTax = ''payment.tax''"
| "ActionClass_as_str PaymentTransfer = ''payment.transfer''"
| "ActionClass_as_str RepoAdmin = ''repo.admin''"
| "ActionClass_as_str RepoLifecycle = ''repo.lifecycle''"
| "ActionClass_as_str SecurityAlertRead = ''security.alert.read''"
| "ActionClass_as_str SystemExecute = ''system.execute''"
| "ActionClass_as_str SystemInstall = ''system.install''"

datatype UnknownActionClass = UnknownActionClass string

text \<open>The string match of \<^verbatim>\<open>FromStr\<close>: the arms are tried in the order of the table.\<close>

definition ActionClass_from_str :: "string \<Rightarrow> (UnknownActionClass, ActionClass) result" where
  "ActionClass_from_str s =
     (case find (\<lambda>c. ActionClass_as_str c = s) ActionClass_ALL of
        Some c \<Rightarrow> Ok c
      | None \<Rightarrow> Err (UnknownActionClass s))"

text \<open>The Sidecar's view of the catalogue.\<close>

record ActionClassRegistry =
  registry_classes :: "ActionClass list"

definition registry_v0_1 :: ActionClassRegistry where
  "registry_v0_1 = \<lparr>registry_classes = ActionClass_ALL\<rparr>"

definition registry_contains :: "ActionClassRegistry \<Rightarrow> string \<Rightarrow> bool" where
  "registry_contains reg name =
     (case ActionClass_from_str name of
        Inr class \<Rightarrow> class \<in> set (registry_classes reg)
      | Inl _ \<Rightarrow> False)"

section \<open>The table\<close>

lemma ActionClass_ALL_complete: "c \<in> set ActionClass_ALL"
  by (cases c) (simp_all add: ActionClass_ALL_def)

lemma as_str_distinct: "distinct (map ActionClass_as_str ActionClass_ALL)"
  by code_simp

lemma as_str_inject: "ActionClass_as_str c = ActionClass_as_str d \<longleftrightarrow> c = d"
  using as_str_distinct ActionClass_ALL_complete by (auto simp: distinct_map dest: inj_onD)

lemma find_as_str: "find (\<lambda>d. ActionClass_as_str d = ActionClass_as_str c) ActionClass_ALL = Some c"
proof -
  have "find ((=) c) ActionClass_ALL = Some c"
    using ActionClass_ALL_complete by (rule find_eq)
  moreover have "(\<lambda>d. ActionClass_as_str d = ActionClass_as_str c) = (=) c"
    by (auto simp: as_str_inject)
  ultimately show ?thesis by simp
qed

text \<open>Rust orders classes by their identifiers; this makes them a linear order.\<close>

instantiation ActionClass :: linorder
begin

definition less_eq_ActionClass :: "ActionClass \<Rightarrow> ActionClass \<Rightarrow> bool" where
  "less_eq_ActionClass a b \<longleftrightarrow> ActionClass_as_str a \<le> ActionClass_as_str b"

definition less_ActionClass :: "ActionClass \<Rightarrow> ActionClass \<Rightarrow> bool" where
  "less_ActionClass a b \<longleftrightarrow> ActionClass_as_str a < ActionClass_as_str b"

instance
  by standard
    (auto simp: less_eq_ActionClass_def less_ActionClass_def as_str_inject dest: order_antisym)

end

section \<open>Parsing\<close>

lemma from_str_Ok_iff: "ActionClass_from_str s = Ok c \<longleftrightarrow> s = ActionClass_as_str c"
proof
  assume "ActionClass_from_str s = Ok c"
  then have "find (\<lambda>c. ActionClass_as_str c = s) ActionClass_ALL = Some c"
    by (auto simp: ActionClass_from_str_def split: option.splits)
  then show "s = ActionClass_as_str c" by (auto simp: find_Some_iff)
next
  assume "s = ActionClass_as_str c"
  then show "ActionClass_from_str s = Ok c" by (simp add: ActionClass_from_str_def find_as_str)
qed

lemma registry_contains_iff: "registry_contains registry_v0_1 s \<longleftrightarrow> (\<exists>c. s = ActionClass_as_str c)"
  by (auto simp: registry_contains_def registry_v0_1_def ActionClass_ALL_complete
      from_str_Ok_iff [symmetric] split: sum.splits)

lemma ActionClass_ALL_sorted: "sorted_wrt (<) ActionClass_ALL"
  by code_simp

end
