(* ===== verification/Mapping_Language.thy ===== *)
theory Mapping_Language
  imports Glob Action_Class Envelope
begin

text \<open>
  The shared action-mapping language (\<^verbatim>\<open>firma-core/src/mapping.rs\<close>): splitting and normalising
  host patterns, the additive specificity score, and the validators of authored and of managed rules.
  The glob matcher itself is in theory \<^verbatim>\<open>Glob\<close>.
\<close>

section \<open>Splitting an authority\<close>

definition is_valid_port :: "string \<Rightarrow> bool" where
  "is_valid_port port \<longleftrightarrow> port \<noteq> [] \<and> list_all is_ascii_digit port"

definition canonical_port :: "string \<Rightarrow> string" where
  "canonical_port port =
     (case parse_uint u32_max port of None \<Rightarrow> port | Some number \<Rightarrow> show_nat number)"

definition split_authority :: "string \<Rightarrow> string \<times> string option" where
  "split_authority host =
     (let lower = to_ascii_lowercase (trim_end_matches CHR ''.'' host);
          (name, port) =
            (case rsplit_once CHR '':'' lower of
               Some (name, port) \<Rightarrow>
                 if name \<noteq> [] \<and> CHR '':'' \<notin> set name \<and> is_valid_port port
                 then (name, Some port) else (lower, None)
             | None \<Rightarrow> (lower, None))
      in (trim_end_matches CHR ''.'' name, map_option canonical_port port))"

definition split_ipv6_authority :: "string \<Rightarrow> string \<times> string option" where
  "split_ipv6_authority host =
     (let lower = to_ascii_lowercase host
      in case split_once_str '']:'' lower of
           Some (name, port) \<Rightarrow>
             if is_valid_port port then (name @ '']'', Some (canonical_port port)) else (lower, None)
         | None \<Rightarrow> (lower, None))"

definition split_mapping_authority :: "string \<Rightarrow> string \<times> string option" where
  "split_mapping_authority authority =
     (let trimmed = trim authority
      in if prefix ''['' trimmed then split_ipv6_authority trimmed else split_authority trimmed)"

definition normalize_mapping_host :: "string \<Rightarrow> string" where
  "normalize_mapping_host host =
     (case split_mapping_authority host of
        (name, None) \<Rightarrow> name
      | (name, Some port) \<Rightarrow>
          if port = ''443'' \<or> port = ''80'' then name else name @ '':'' @ port)"

section \<open>Specificity\<close>

definition mapping_specificity :: "bool \<Rightarrow> string \<Rightarrow> string option \<Rightarrow> nat" where
  "mapping_specificity has_method host_pattern path_pattern =
     (if CHR ''*'' \<notin> set host_pattern then 100 else 0)
   + (if has_method then 10 else 0)
   + (case path_pattern of
        None \<Rightarrow> 0
      | Some path \<Rightarrow>
          5 + length (filter (\<lambda>segment. segment \<noteq> []) (split_on CHR ''/'' path))
        + (if CHR ''*'' \<notin> set path then 10 else 0))"

section \<open>Textual IPv6 addresses\<close>

text \<open>
  The recogniser of \<^verbatim>\<open>std::net::Ipv6Addr::from_str\<close>; each reader returns the unread input.
\<close>

definition radix_digit :: "nat \<Rightarrow> char \<Rightarrow> bool" where
  "radix_digit radix c = (case digit_val c of Some d \<Rightarrow> d < radix | None \<Rightarrow> False)"

definition read_number :: "nat \<Rightarrow> nat \<Rightarrow> bool \<Rightarrow> nat \<Rightarrow> string \<Rightarrow> string option" where
  "read_number radix max_digits allow_zero_prefix mx s =
     (let digits = takeWhile (radix_digit radix) s
      in if digits = [] \<or> max_digits < length digits
          \<or> \<not> allow_zero_prefix \<and> hd digits = CHR ''0'' \<and> 1 < length digits
          \<or> parse_digits radix mx 0 digits = None
         then None else Some (drop (length digits) s))"

definition read_given_char :: "char \<Rightarrow> string \<Rightarrow> string option" where
  "read_given_char c s = (case s of [] \<Rightarrow> None | x # r \<Rightarrow> if x = c then Some r else None)"

definition read_separator :: "char \<Rightarrow> nat \<Rightarrow> (string \<Rightarrow> string option) \<Rightarrow> string \<Rightarrow> string option" where
  "read_separator sep index inner s =
     (if 0 < index then Option.bind (read_given_char sep s) inner else inner s)"

definition read_octet :: "string \<Rightarrow> string option" where
  "read_octet = read_number 10 3 False u8_max"

definition read_ipv4_addr :: "string \<Rightarrow> string option" where
  "read_ipv4_addr s =
     Option.bind (read_separator CHR ''.'' 0 read_octet s) (\<lambda>s1.
     Option.bind (read_separator CHR ''.'' 1 read_octet s1) (\<lambda>s2.
     Option.bind (read_separator CHR ''.'' 2 read_octet s2) (\<lambda>s3.
     read_separator CHR ''.'' 3 read_octet s3)))"

text \<open>The groups still allowed, the index of the next group, the input.\<close>

fun read_groups :: "nat \<Rightarrow> nat \<Rightarrow> string \<Rightarrow> nat \<times> bool \<times> string" where
  "read_groups 0 i s = (i, False, s)"
| "read_groups (Suc n) i s =
     (case (if 0 < n then read_separator CHR '':'' i read_ipv4_addr s else None) of
        Some rest \<Rightarrow> (i + 2, True, rest)
      | None \<Rightarrow>
          (case read_separator CHR '':'' i (read_number 16 4 True u16_max) s of
             Some rest \<Rightarrow> read_groups n (i + 1) rest
           | None \<Rightarrow> (i, False, s)))"

definition ipv6_addr_parses :: "string \<Rightarrow> bool" where
  "ipv6_addr_parses s =
     (case read_groups 8 0 s of (head_size, head_ipv4, rest) \<Rightarrow>
        if head_size = 8 then rest = []
        else if head_ipv4 then False
        else (case Option.bind (read_given_char CHR '':'' rest) (read_given_char CHR '':'') of
                None \<Rightarrow> False
              | Some r \<Rightarrow> (case read_groups (8 - (head_size + 1)) 0 r of (_, _, rest') \<Rightarrow> rest' = [])))"

section \<open>Canonical hosts and rule validation\<close>

definition dns_label_ok :: "string \<Rightarrow> bool" where
  "dns_label_ok label \<longleftrightarrow>
     label \<noteq> [] \<and> length label \<le> 63 \<and> \<not> prefix ''-'' label \<and> \<not> suffix ''-'' label
   \<and> list_all (\<lambda>b. is_ascii_alphanumeric b \<or> b = CHR ''-'' \<or> b = CHR ''*'') label"

text \<open>The part of the check after the port pattern was handled.\<close>

definition canonical_authority :: "string \<Rightarrow> bool" where
  "canonical_authority host =
     (case split_mapping_authority host of (name, port) \<Rightarrow>
        if (case port of None \<Rightarrow> False
            | Some p \<Rightarrow> (case parse_uint u16_max p of None \<Rightarrow> True | Some n \<Rightarrow> n = 0)) then False
        else if name = ''*'' then True
        else (case Option.bind (strip_prefix ''['' name) (strip_suffix '']'') of
                Some address \<Rightarrow> ipv6_addr_parses address
              | None \<Rightarrow> length name \<le> 253 \<and> list_all dns_label_ok (split_on CHR ''.'' name)))"

lemma rsplit_once_shorter: "rsplit_once c s = Some (a, b) \<Longrightarrow> length a < length s"
  by (induction s arbitrary: a b) (auto split: option.splits prod.splits if_splits)

function mapping_host_is_canonical :: "string \<Rightarrow> bool" where
  "mapping_host_is_canonical host =
     (if host = [] \<or> normalize_mapping_host host \<noteq> host then False
      else
        (case rsplit_once CHR '':'' host of
           Some (name, port) \<Rightarrow>
             if CHR ''*'' \<in> set port
             then length port \<le> 5
                \<and> list_all (\<lambda>b. is_ascii_digit b \<or> b = CHR ''*'') port
                \<and> (CHR '':'' \<notin> set name \<or> prefix ''['' name \<and> suffix '']'' name)
                \<and> mapping_host_is_canonical name
             else canonical_authority host
         | None \<Rightarrow> canonical_authority host))"
  by pat_completeness auto
termination
  by (relation "measure length") (auto dest: rsplit_once_shorter)

declare mapping_host_is_canonical.simps [simp del]

datatype ManagedMappingRuleError = RuleHost | RuleMethod | RulePath | RuleActionClass

primrec ManagedMappingRuleError_display :: "ManagedMappingRuleError \<Rightarrow> string" where
  "ManagedMappingRuleError_display RuleHost = ''invalid normalized host''"
| "ManagedMappingRuleError_display RuleMethod = ''invalid HTTP method''"
| "ManagedMappingRuleError_display RulePath = ''invalid path''"
| "ManagedMappingRuleError_display RuleActionClass = ''unknown action class''"

definition validate_managed_rule ::
  "string option \<Rightarrow> string \<Rightarrow> string option \<Rightarrow> string \<Rightarrow> (ManagedMappingRuleError, unit) result" where
  "validate_managed_rule method host path action_class =
     (if \<not> mapping_host_is_canonical host then Err RuleHost
      else if (case method of None \<Rightarrow> False | Some m \<Rightarrow> \<not> is_ok (HttpMethod_from_str m)) then Err RuleMethod
      else if (case path of None \<Rightarrow> False
               | Some p \<Rightarrow> p = [] \<or> 4096 < length p \<or> CHR 0x00 \<in> set p) then Err RulePath
      else if \<not> is_ok (ActionClass_from_str action_class) then Err RuleActionClass
      else Ok ())"

definition host_pattern_message :: "string \<Rightarrow> string \<Rightarrow> string" where
  "host_pattern_message host rest = ''host pattern '' @ CHR 0x27 # host @ CHR 0x27 # rest"

definition bracketed_malformed :: "string \<Rightarrow> bool" where
  "bracketed_malformed bracketed =
     (case split_once CHR '']'' bracketed of
        None \<Rightarrow> True
      | Some (name, rest) \<Rightarrow>
          name = []
        \<or> CHR ''['' \<in> set name \<or> CHR '']'' \<in> set name
        \<or> CHR '':'' \<notin> set name \<and> CHR ''*'' \<notin> set name
        \<or> rest \<noteq> [] \<and>
           (case strip_prefix '':'' rest of
              None \<Rightarrow> True
            | Some port \<Rightarrow> port = [] \<or> CHR '':'' \<in> set port \<or> CHR ''['' \<in> set port \<or> CHR '']'' \<in> set port))"

definition authored_malformed :: "string \<Rightarrow> bool" where
  "authored_malformed host =
     (case strip_prefix ''['' host of
        None \<Rightarrow> CHR ''['' \<in> set host \<or> CHR '']'' \<in> set host \<or> 1 < length (filter (\<lambda>c. c = CHR '':'') host)
      | Some bracketed \<Rightarrow> bracketed_malformed bracketed)"

text \<open>The name part of an authority when its last segment is a port.\<close>

definition name_before_port :: "string \<Rightarrow> string" where
  "name_before_port s =
     (case rsplit_once CHR '':'' s of
        Some (name, port) \<Rightarrow> if is_valid_port port then name else s
      | None \<Rightarrow> s)"

definition validate_authored_mapping_host :: "string \<Rightarrow> (string, unit) result" where
  "validate_authored_mapping_host host0 =
     (let host = trim host0; normalized = normalize_mapping_host host in
      if host = [] then Err ''host must not be empty''
      else if authored_malformed host then
        Err (host_pattern_message host '' is not a valid authority; use at most one port suffix and bracket IPv6 literals'')
      else if normalized = [] \<or> prefix '':'' normalized then
        Err (host_pattern_message host '' normalizes to a host with an empty name and can never match'')
      else if normalized = ''*'' \<and> host \<noteq> ''*'' then
        Err (host_pattern_message host
          ('' would normalize to the bare catch-all '' @ CHR 0x27 # ''*'' @ CHR 0x27 # ''; write ''
            @ CHR 0x27 # ''*'' @ CHR 0x27 # '' explicitly if that is intended''))
      else if name_before_port normalized = ''*''
            \<and> name_before_port (trim_end_matches CHR ''.'' host) \<noteq> ''*'' then
        Err (host_pattern_message host
          ('' would normalize its name to the catch-all '' @ CHR 0x27 # ''*'' @ CHR 0x27 # ''; write the ''
            @ CHR 0x27 # ''*'' @ CHR 0x27 # '' explicitly if that is intended''))
      else Ok ())"

section \<open>Normal forms\<close>

text \<open>The delimiters of the language are not letters, so lower-casing neither makes nor hides one.\<close>

lemma delimiters [simp]:
  "\<not> is_ascii_lower CHR '':''" "\<not> is_ascii_upper CHR '':''"
  "\<not> is_ascii_lower CHR ''.''" "\<not> is_ascii_upper CHR ''.''"
  "\<not> is_ascii_lower CHR ''[''" "\<not> is_ascii_upper CHR ''[''"
  "\<not> is_ascii_lower CHR '']''" "\<not> is_ascii_upper CHR '']''"
  "\<not> is_ascii_digit CHR '':''" "\<not> is_ascii_digit CHR ''.''" "\<not> is_ascii_digit CHR '']''"
  by code_simp+

lemma digit_not_upper: "is_ascii_digit c \<Longrightarrow> \<not> is_ascii_upper c"
  by (simp add: is_ascii_digit_def is_ascii_upper_def)

lemma digit_graphic: "is_ascii_digit c \<Longrightarrow> is_ascii_graphic c"
  by (simp add: is_ascii_digit_def is_ascii_graphic_def)

lemma graphic_to_lower: "is_ascii_graphic c \<Longrightarrow> is_ascii_graphic (to_lower_byte c)"
  by (auto simp: is_ascii_graphic_def byte_val_to_lower is_ascii_upper_def)

lemma graphic_lowercase: "list_all is_ascii_graphic s \<Longrightarrow> list_all is_ascii_graphic (to_ascii_lowercase s)"
  by (auto simp: list_all_iff to_ascii_lowercase_def graphic_to_lower)

lemma valid_port_chars:
  assumes "is_valid_port p"
  shows "CHR '':'' \<notin> set p" "CHR ''.'' \<notin> set p" "CHR '']'' \<notin> set p" "p \<noteq> []"
    "list_all is_ascii_graphic p" "to_ascii_lowercase p = p"
  using assms
  by (auto simp: is_valid_port_def list_all_iff digit_graphic intro!: to_ascii_lowercase_id digit_not_upper)

lemma canonical_port_valid: "is_valid_port p \<Longrightarrow> is_valid_port (canonical_port p)"
  by (auto simp: canonical_port_def is_valid_port_def show_nat_digits split: option.splits)

lemma canonical_port_idem: "canonical_port (canonical_port p) = canonical_port p"
  by (auto simp: canonical_port_def split: option.splits dest: parse_uint_le)

text \<open>What \<^verbatim>\<open>split_authority\<close> yields, and that it splits a normal form into itself.\<close>

lemma split_authority_port:
  assumes "rsplit_once CHR '':'' (to_ascii_lowercase (trim_end_matches CHR ''.'' h)) = Some (name, port)"
    and "name \<noteq> []" "CHR '':'' \<notin> set name" "is_valid_port port"
  shows "split_authority h = (trim_end_matches CHR ''.'' name, Some (canonical_port port))"
  using assms by (simp add: split_authority_def)

lemma split_authority_whole:
  assumes "\<And>name port. rsplit_once CHR '':'' (to_ascii_lowercase (trim_end_matches CHR ''.'' h)) = Some (name, port)
     \<Longrightarrow> \<not> (name \<noteq> [] \<and> CHR '':'' \<notin> set name \<and> is_valid_port port)"
  shows "split_authority h = (to_ascii_lowercase (trim_end_matches CHR ''.'' h), None)"
  using assms
  by (cases "rsplit_once CHR '':'' (to_ascii_lowercase (trim_end_matches CHR ''.'' h))")
    (auto simp: split_authority_def trim_end_matches_lowercase Let_def)

lemma normalize_plain:
  assumes "list_all is_ascii_graphic h" "\<not> prefix ''['' h"
  shows "split_mapping_authority h = split_authority h"
  using assms by (simp add: split_mapping_authority_def trim_graphic Let_def)

text \<open>Names without a bracket in front.\<close>

definition plain_name :: "string \<Rightarrow> bool" where
  "plain_name n \<longleftrightarrow>
     list_all is_ascii_graphic n \<and> \<not> prefix ''['' n \<and> to_ascii_lowercase n = n
   \<and> trim_end_matches CHR ''.'' n = n"

lemma prefix_single: "prefix [c] s \<longleftrightarrow> s \<noteq> [] \<and> hd s = c"
  by (cases s) auto

lemma plain_name_lowercase_prefix:
  assumes "list_all is_ascii_graphic h" "\<not> prefix ''['' h" "prefix n (to_ascii_lowercase h)"
  shows "plain_name (trim_end_matches CHR ''.'' n)"
proof -
  let ?t = "trim_end_matches CHR ''.'' n"
  have pre: "prefix ?t (to_ascii_lowercase h)"
    using trim_end_matches_prefix assms(3) by (rule prefix_order.trans)
  then have sub: "set ?t \<subseteq> set (to_ascii_lowercase h)" by (rule set_mono_prefix)
  have "list_all is_ascii_graphic ?t"
    using sub graphic_lowercase [OF assms(1)] by (auto simp: list_all_iff)
  moreover have "to_ascii_lowercase ?t = ?t"
    using sub to_ascii_lowercase_no_upper by (intro to_ascii_lowercase_id) blast
  moreover have "\<not> prefix ''['' ?t"
  proof
    assume "prefix ''['' ?t"
    then have "prefix ''['' (to_ascii_lowercase h)" using pre prefix_order.trans by blast
    then have "h \<noteq> []" "to_lower_byte (hd h) = CHR ''[''" by (cases h; simp)+
    then show False using assms(2) by (simp add: prefix_single to_lower_eq_iff)
  qed
  ultimately show ?thesis by (simp add: plain_name_def)
qed

lemma split_authority_cases:
  assumes "list_all is_ascii_graphic h" "\<not> prefix ''['' h"
  obtains (whole) n where "split_authority h = (n, None)" "plain_name n" "split_authority n = (n, None)"
  | (port) n q where "split_authority h = (n, Some q)" "plain_name n" "CHR '':'' \<notin> set n"
      "is_valid_port q" "canonical_port q = q"
proof -
  let ?low = "to_ascii_lowercase (trim_end_matches CHR ''.'' h)"
  have low: "prefix ?low (to_ascii_lowercase h)"
    unfolding to_ascii_lowercase_def by (intro map_mono_prefix trim_end_matches_prefix)
  have fixp: "to_ascii_lowercase (trim_end_matches CHR ''.'' ?low) = ?low"
    by (simp add: trim_end_matches_lowercase)
  show thesis
  proof (cases "\<exists>name port. rsplit_once CHR '':'' ?low = Some (name, port)
      \<and> name \<noteq> [] \<and> CHR '':'' \<notin> set name \<and> is_valid_port port")
    case True
    then obtain name p where eq: "rsplit_once CHR '':'' ?low = Some (name, p)"
      and ok: "name \<noteq> []" "CHR '':'' \<notin> set name" "is_valid_port p" by blast
    from eq have "prefix name ?low" by (auto dest: rsplit_once_Some)
    then have "plain_name (trim_end_matches CHR ''.'' name)"
      using assms low by (blast intro: plain_name_lowercase_prefix prefix_order.trans)
    then show ?thesis
      using port [OF split_authority_port [OF eq ok]] ok set_trim_end_matches [of "CHR ''.''" name]
      by (auto simp: canonical_port_valid canonical_port_idem)
  next
    case False
    then have "split_authority h = (?low, None)" by (intro split_authority_whole) blast
    moreover have "split_authority ?low = (?low, None)"
      using split_authority_whole [of ?low] False by (simp add: fixp)
    moreover have "plain_name (trim_end_matches CHR ''.'' ?low)"
      using assms low by (rule plain_name_lowercase_prefix)
    ultimately show ?thesis using whole by (simp add: trim_end_matches_lowercase)
  qed
qed

lemma plain_name_no_port: "plain_name n \<Longrightarrow> CHR '':'' \<notin> set n \<Longrightarrow> split_authority n = (n, None)"
  using split_authority_whole [of n] rsplit_once_None_iff [of "CHR '':''" n]
  by (simp add: plain_name_def)

lemma split_authority_rejoin:
  assumes "plain_name n" "CHR '':'' \<notin> set n" "is_valid_port q" "canonical_port q = q"
  shows "split_authority (n @ '':'' @ q) = (if n = [] then ('':'' @ q, None) else (n, Some q))"
proof -
  have last: "last (n @ '':'' @ q) \<noteq> CHR ''.''"
    using valid_port_chars(2,4) [OF assms(3)] last_in_set [of q] by (simp, metis)
  have low: "to_ascii_lowercase (trim_end_matches CHR ''.'' (n @ '':'' @ q)) = n @ '':'' @ q"
    using last valid_port_chars [OF assms(3)] assms(1)
    by (simp add: trim_end_matches_id plain_name_def to_lower_id)
  have split: "rsplit_once CHR '':'' (n @ '':'' @ q) = Some (n, q)"
    using rsplit_once_append [of "CHR '':''" q n] valid_port_chars [OF assms(3)] by simp
  show ?thesis
  proof (cases "n = []")
    case True
    then show ?thesis using split_authority_whole [of "n @ '':'' @ q"] low split by simp
  next
    case False
    then show ?thesis
      using split_authority_port [of "n @ '':'' @ q" n q] low split assms by (simp add: plain_name_def)
  qed
qed

lemma normalize_graphic_plain:
  assumes "list_all is_ascii_graphic h" "\<not> prefix ''['' h"
  shows "normalize_mapping_host (normalize_mapping_host h) = normalize_mapping_host h"
  using assms
proof (cases rule: split_authority_cases)
  case (whole n)
  then have "normalize_mapping_host h = n" "normalize_mapping_host n = n"
    using assms by (simp_all add: normalize_mapping_host_def normalize_plain plain_name_def)
  then show ?thesis by simp
next
  case (port n q)
  show ?thesis
  proof (cases "q = ''443'' \<or> q = ''80''")
    case True
    then have "normalize_mapping_host h = n"
      using assms port by (auto simp: normalize_mapping_host_def normalize_plain)
    moreover have "normalize_mapping_host n = n"
      using port plain_name_no_port [of n]
      by (simp add: normalize_mapping_host_def normalize_plain plain_name_def)
    ultimately show ?thesis by simp
  next
    case False
    let ?r = "n @ '':'' @ q"
    have r: "normalize_mapping_host h = ?r"
      using assms port False by (auto simp: normalize_mapping_host_def normalize_plain)
    have "list_all is_ascii_graphic ?r" "\<not> prefix ''['' ?r"
      using port valid_port_chars [of q] by (cases n; auto simp: plain_name_def is_ascii_graphic_def byte_val_def)+
    then have "normalize_mapping_host ?r = ?r"
      using split_authority_rejoin [of n q] port False
      by (simp add: normalize_mapping_host_def normalize_plain)
    with r show ?thesis by simp
  qed
qed

text \<open>Bracketed literals: the first closing bracket followed by a colon ends the name.\<close>

lemma prefix_bracket_colon:
  "prefix '']:'' (x # a @ CHR '']'' # t) \<longleftrightarrow> x = CHR '']'' \<and> a \<noteq> [] \<and> hd a = CHR '':''"
  by (cases a) auto

lemma split_once_str_first:
  "split_once_str '']:'' s = Some (a, b) \<Longrightarrow>
   split_once_str '']:'' (a @ '']'') = None \<and> split_once_str '']:'' (a @ '']:'' @ c) = Some (a, c)"
proof (induction s arbitrary: a)
  case (Cons x s)
  show ?case
  proof (cases "prefix '']:'' (x # s)")
    case True
    with Cons.prems show ?thesis by auto
  next
    case False
    with Cons.prems obtain a' where a: "a = x # a'" and a': "split_once_str '']:'' s = Some (a', b)"
      by (auto split: option.splits)
    from split_once_str_Some [OF a'] have s: "s = a' @ CHR '']'' # CHR '':'' # b" by simp
    have "\<not> (x = CHR '']'' \<and> a' \<noteq> [] \<and> hd a' = CHR '':'')"
      using False [unfolded s] unfolding prefix_bracket_colon .
    then have "\<not> prefix '']:'' (x # a' @ CHR '']'' # t)" for t
      unfolding prefix_bracket_colon .
    from this [of "[]"] this [of "CHR '':'' # c"]
    have "\<not> prefix '']:'' (x # a' @ '']'')" "\<not> prefix '']:'' (x # a' @ '']:'' @ c)"
      by simp_all
    with Cons.IH [OF a'] show ?thesis unfolding a by simp
  qed
qed simp

lemma normalize_graphic_bracketed:
  assumes "list_all is_ascii_graphic h" "prefix ''['' h"
  shows "normalize_mapping_host (normalize_mapping_host h) = normalize_mapping_host h"
proof -
  let ?low = "to_ascii_lowercase h"
  have split: "split_mapping_authority s = split_ipv6_authority s"
    if "list_all is_ascii_graphic s" "prefix ''['' s" for s
    using that by (simp add: split_mapping_authority_def trim_graphic Let_def)
  have low: "list_all is_ascii_graphic ?low" "prefix ''['' ?low"
    using assms by (auto simp: graphic_lowercase prefix_single to_lower_id neq_Nil_conv)
  show ?thesis
  proof (cases "\<exists>name port. split_once_str '']:'' ?low = Some (name, port) \<and> is_valid_port port")
    case False
    then have "split_ipv6_authority h = (?low, None)" "split_ipv6_authority ?low = (?low, None)"
      by (auto simp: split_ipv6_authority_def Let_def split: option.splits)
    then show ?thesis using split assms low by (simp add: normalize_mapping_host_def)
  next
    case True
    then obtain name port where eq: "split_once_str '']:'' ?low = Some (name, port)"
      and port: "is_valid_port port" by blast
    let ?q = "canonical_port port" and ?n = "name @ '']''"
    have sp: "?low = name @ '']:'' @ port" using split_once_str_Some [OF eq] .
    then have name: "list_all is_ascii_graphic name" "to_ascii_lowercase name = name" "prefix ''['' name"
      using low to_ascii_lowercase_no_upper [of _ h] by (auto simp: to_ascii_lowercase_id prefix_single hd_append split: if_splits)
    have q: "is_valid_port ?q" "canonical_port ?q = ?q" "to_ascii_lowercase ?q = ?q" "list_all is_ascii_graphic ?q"
      using canonical_port_valid [OF port] valid_port_chars [of ?q] canonical_port_idem by auto
    have norm: "normalize_mapping_host h = (if ?q = ''443'' \<or> ?q = ''80'' then ?n else ?n @ '':'' @ ?q)"
      using split assms eq port by (simp add: normalize_mapping_host_def split_ipv6_authority_def Let_def)
    have brackets: "prefix ''['' (name @ t)" for t using name(3) by (auto simp: prefix_single)
    have g: "is_ascii_graphic CHR '']''" "is_ascii_graphic CHR '':''" by code_simp+
    have "split_ipv6_authority ?n = (?n, None)"
      using split_once_str_first [OF eq] name by (simp add: split_ipv6_authority_def to_lower_id)
    moreover have "split_ipv6_authority (?n @ '':'' @ ?q) = (?n, Some ?q)"
      using split_once_str_first [OF eq, of ?q] name q by (simp add: split_ipv6_authority_def to_lower_id)
    ultimately have "normalize_mapping_host ?n = ?n"
      "\<not> (?q = ''443'' \<or> ?q = ''80'') \<Longrightarrow> normalize_mapping_host (?n @ '':'' @ ?q) = ?n @ '':'' @ ?q"
      using split [of ?n] split [of "?n @ '':'' @ ?q"] name q g brackets by (simp_all add: normalize_mapping_host_def)
    with norm show ?thesis by simp
  qed
qed

lemma normalize_idem_graphic:
  "list_all is_ascii_graphic h \<Longrightarrow>
   normalize_mapping_host (normalize_mapping_host h) = normalize_mapping_host h"
  using normalize_graphic_plain normalize_graphic_bracketed by blast

lemma normalize_dns_spelling:
  assumes "list_all is_ascii_graphic h" "h \<noteq> []" "CHR '':'' \<notin> set h" "\<not> prefix ''['' h"
    and port: "is_valid_port p" "canonical_port p = ''443'' \<or> canonical_port p = ''80''"
  shows "normalize_mapping_host (h @ replicate a CHR ''.'' @ '':'' @ p @ replicate b CHR ''.'') =
         to_ascii_lowercase (trim_end_matches CHR ''.'' h)"
proof -
  let ?body = "h @ replicate a CHR ''.'' @ '':'' @ p" and ?name = "to_ascii_lowercase h @ replicate a CHR ''.''"
  let ?s = "h @ replicate a CHR ''.'' @ '':'' @ p @ replicate b CHR ''.''"
  have g: "is_ascii_graphic CHR ''.''" "is_ascii_graphic CHR '':''" by code_simp+
  have "last ?body \<noteq> CHR ''.''"
    using valid_port_chars(2,4) [OF port(1)] last_in_set [of p] by (simp, metis)
  then have "trim_end_matches CHR ''.'' ?s = ?body"
    using trim_end_matches_replicate [of "CHR ''.''" ?body b] by (simp add: trim_end_matches_id)
  then have low: "to_ascii_lowercase (trim_end_matches CHR ''.'' ?s) = ?name @ CHR '':'' # p"
    using valid_port_chars [OF port(1)] by (simp add: to_lower_id to_ascii_lowercase_id)
  have "CHR '':'' \<notin> set ?name" using assms(3) by (auto simp: mem_to_ascii_lowercase)
  then have "split_authority ?s = (trim_end_matches CHR ''.'' ?name, Some (canonical_port p))"
    using valid_port_chars [OF port(1)] assms(2) port(1) low
    by (intro split_authority_port) (simp_all add: rsplit_once_append del: append.simps append_assoc)
  moreover have "list_all is_ascii_graphic ?s" "\<not> prefix ''['' ?s"
    using assms g valid_port_chars [OF port(1)] by (auto simp: prefix_single list_all_iff)
  ultimately show ?thesis
    using port(2) by (auto simp: normalize_mapping_host_def normalize_plain
        trim_end_matches_replicate trim_end_matches_lowercase)
qed

section \<open>Canonical hosts\<close>

text \<open>The bytes a canonical host can have.\<close>

definition host_byte :: "char \<Rightarrow> bool" where
  "host_byte c \<longleftrightarrow> is_ascii_digit c \<or> is_ascii_lower c \<or> c \<in> set ''-*.:[]''"

lemma read_number_consumes:
  "read_number r m z mx s = Some t \<Longrightarrow> \<exists>d. s = d @ t \<and> list_all (radix_digit r) d"
proof -
  let ?d = "takeWhile (radix_digit r) s"
  assume "read_number r m z mx s = Some t"
  then have "t = dropWhile (radix_digit r) s"
    by (simp add: read_number_def Let_def dropWhile_eq_drop split: if_split_asm)
  then have "s = ?d @ t" by simp
  moreover have "list_all (radix_digit r) ?d" by (auto simp: list_all_iff dest: set_takeWhileD)
  ultimately show ?thesis by blast
qed

text \<open>A reader that only consumes bytes of a set.\<close>

definition consumes :: "(char \<Rightarrow> bool) \<Rightarrow> (string \<Rightarrow> string option) \<Rightarrow> bool" where
  "consumes P f \<longleftrightarrow> (\<forall>s t. f s = Some t \<longrightarrow> (\<exists>d. s = d @ t \<and> list_all P d))"

lemma consumes_bind:
  assumes "consumes P f" "consumes P g"
  shows "consumes P (\<lambda>s. Option.bind (f s) g)"
proof (unfold consumes_def, intro allI impI)
  fix s t assume "Option.bind (f s) g = Some t"
  then obtain u where "f s = Some u" "g u = Some t" by (auto simp: bind_eq_Some_conv)
  with assms obtain d e where "s = d @ u" "list_all P d" "u = e @ t" "list_all P e"
    unfolding consumes_def by blast
  then show "\<exists>d. s = d @ t \<and> list_all P d" by (intro exI [of _ "d @ e"]) simp
qed

lemma consumes_char: "P c \<Longrightarrow> consumes P (read_given_char c)"
  by (auto simp: consumes_def read_given_char_def split: list.splits if_splits intro!: exI [of _ "[c]"])

lemma consumes_number:
  assumes "\<And>c. radix_digit r c \<Longrightarrow> P c"
  shows "consumes P (read_number r m z mx)"
proof (unfold consumes_def, intro allI impI)
  fix s t assume "read_number r m z mx s = Some t"
  then obtain d where "s = d @ t" "list_all (radix_digit r) d" using read_number_consumes by blast
  then show "\<exists>d. s = d @ t \<and> list_all P d" using assms by (auto simp: list_all_iff)
qed

lemma consumes_separator:
  assumes "P c" "consumes P f"
  shows "consumes P (read_separator c i f)"
proof (cases "0 < i")
  case True
  then have "read_separator c i f = (\<lambda>s. Option.bind (read_given_char c s) f)"
    by (auto simp: read_separator_def)
  then show ?thesis using consumes_bind [OF consumes_char assms(2), of c] assms(1) by simp
next
  case False
  then have "read_separator c i f = f" by (auto simp: read_separator_def)
  then show ?thesis using assms(2) by simp
qed

definition ipv6_byte :: "char \<Rightarrow> bool" where
  "ipv6_byte c \<longleftrightarrow> radix_digit 16 c \<or> c = CHR ''.'' \<or> c = CHR '':''"

lemma radix_digit_10_16: "radix_digit 10 c \<Longrightarrow> ipv6_byte c"
  by (auto simp: radix_digit_def ipv6_byte_def split: option.splits)

lemma consumes_ipv4: "consumes ipv6_byte read_ipv4_addr"
proof -
  have "consumes ipv6_byte (read_separator CHR ''.'' i read_octet)" for i
    unfolding read_octet_def
    by (rule consumes_separator, simp add: ipv6_byte_def, rule consumes_number, rule radix_digit_10_16)
  then show ?thesis
    unfolding read_ipv4_addr_def by (intro consumes_bind)
qed

lemma read_groups_consumes:
  "read_groups n i s = (k, v4, t) \<Longrightarrow> \<exists>d. s = d @ t \<and> list_all ipv6_byte d"
proof (induction n i s rule: read_groups.induct)
  case (2 n i s)
  have v4: "consumes ipv6_byte (read_separator CHR '':'' i read_ipv4_addr)"
    by (intro consumes_separator consumes_ipv4) (simp add: ipv6_byte_def)
  have grp: "consumes ipv6_byte (read_separator CHR '':'' i (read_number 16 4 True u16_max))"
    by (intro consumes_separator consumes_number) (simp_all add: ipv6_byte_def)
  show ?case
  proof (cases "if 0 < n then read_separator CHR '':'' i read_ipv4_addr s else None")
    case (Some r)
    with 2(2) v4 show ?thesis by (auto simp: consumes_def split: if_splits)
  next
    case v4_none: None
    show ?thesis
    proof (cases "read_separator CHR '':'' i (read_number 16 4 True u16_max) s")
      case (Some r)
      with grp obtain d where d: "s = d @ r" "list_all ipv6_byte d" unfolding consumes_def by blast
      from 2(1) [OF v4_none Some] 2(2) v4_none Some obtain e where "r = e @ t" "list_all ipv6_byte e" by auto
      with d show ?thesis by (intro exI [of _ "d @ e"]) simp
    qed (use 2(2) v4_none in simp)
  qed
qed simp

lemma ipv6_addr_bytes:
  assumes "ipv6_addr_parses s"
  shows "list_all ipv6_byte s"
proof -
  obtain k v4 t where g: "read_groups 8 0 s = (k, v4, t)" by (metis prod_cases3)
  then obtain d where d: "s = d @ t" "list_all ipv6_byte d" using read_groups_consumes by blast
  have "list_all ipv6_byte t"
  proof (cases "t = []")
    case False
    then obtain r where r: "Option.bind (read_given_char CHR '':'' t) (read_given_char CHR '':'') = Some r"
      and "snd (snd (read_groups (8 - (k + 1)) 0 r)) = []"
      using assms unfolding ipv6_addr_parses_def g prod.case
      by (simp split: if_split_asm option.split_asm prod.split_asm)
    then obtain k' v4' where "read_groups (8 - (k + 1)) 0 r = (k', v4', [])"
      by (metis prod.collapse)
    then have "list_all ipv6_byte r" using read_groups_consumes [of _ 0 r] by force
    moreover have "t = CHR '':'' # CHR '':'' # r"
      using r by (cases t; cases "tl t") (simp_all add: read_given_char_def split: if_split_asm)
    ultimately show ?thesis by (simp add: ipv6_byte_def)
  qed simp
  with d show ?thesis by simp
qed

lemma split_authority_lower:
  assumes "split_authority s = (name, port)"
  shows "\<forall>c \<in> set name. \<not> is_ascii_upper c" "port = Some q \<Longrightarrow> is_valid_port q"
proof -
  let ?low = "to_ascii_lowercase (trim_end_matches CHR ''.'' s)"
  have up: "\<not> is_ascii_upper c" if "c \<in> set ?low" for c
    using that by (rule to_ascii_lowercase_no_upper)
  have "(\<forall>c \<in> set name. \<not> is_ascii_upper c) \<and> (port = Some q \<longrightarrow> is_valid_port q)"
  proof (cases "\<exists>name port. rsplit_once CHR '':'' ?low = Some (name, port)
      \<and> name \<noteq> [] \<and> CHR '':'' \<notin> set name \<and> is_valid_port port")
    case True
    then obtain n p where eq: "rsplit_once CHR '':'' ?low = Some (n, p)"
      and ok: "n \<noteq> []" "CHR '':'' \<notin> set n" "is_valid_port p" by blast
    have "set (trim_end_matches CHR ''.'' n) \<subseteq> set ?low"
      using rsplit_once_Some [OF eq] set_trim_end_matches [of "CHR ''.''" n] by auto
    then show ?thesis
      using split_authority_port [OF eq ok] canonical_port_valid [OF ok(3)] up assms by auto
  next
    case False
    then have "split_authority s = (?low, None)" by (intro split_authority_whole) blast
    then show ?thesis using up assms by auto
  qed
  then show "\<forall>c \<in> set name. \<not> is_ascii_upper c" "port = Some q \<Longrightarrow> is_valid_port q" by blast+
qed

lemma split_ipv6_authority_lower:
  assumes "split_ipv6_authority s = (name, port)"
  shows "\<forall>c \<in> set name. \<not> is_ascii_upper c" "port = Some q \<Longrightarrow> is_valid_port q"
proof -
  have up: "\<forall>c \<in> set (to_ascii_lowercase s). \<not> is_ascii_upper c"
    using to_ascii_lowercase_no_upper by blast
  show "\<forall>c \<in> set name. \<not> is_ascii_upper c"
  proof (cases "\<exists>n p. split_once_str '']:'' (to_ascii_lowercase s) = Some (n, p) \<and> is_valid_port p")
    case True
    then obtain n p where eq: "split_once_str '']:'' (to_ascii_lowercase s) = Some (n, p)" "is_valid_port p"
      by blast
    then have "name = n @ '']''" using assms by (simp add: split_ipv6_authority_def Let_def)
    then show ?thesis using up split_once_str_Some [OF eq(1)] by simp
  next
    case False
    then have "name = to_ascii_lowercase s"
      using assms by (auto simp: split_ipv6_authority_def Let_def split: option.split_asm if_split_asm)
    then show ?thesis using up by simp
  qed
  show "port = Some q \<Longrightarrow> is_valid_port q"
    using assms by (auto simp: split_ipv6_authority_def Let_def canonical_port_valid split: option.split_asm if_split_asm)
qed

lemma split_mapping_authority_lower:
  assumes "split_mapping_authority h = (name, port)"
  shows "\<forall>c \<in> set name. \<not> is_ascii_upper c" "port = Some q \<Longrightarrow> is_valid_port q"
  using assms split_authority_lower [of "trim h" name port] split_ipv6_authority_lower [of "trim h" name port]
  by (auto simp: split_mapping_authority_def Let_def split: if_split_asm)

lemma ipv6_byte_host: "ipv6_byte c \<Longrightarrow> \<not> is_ascii_upper c \<Longrightarrow> host_byte c"
  by (auto simp: ipv6_byte_def host_byte_def radix_digit_def digit_val_def is_ascii_upper_def is_ascii_lower_def
      split: if_split_asm)

lemma dns_label_host_byte:
  "dns_label_ok label \<Longrightarrow> c \<in> set label \<Longrightarrow> \<not> is_ascii_upper c \<Longrightarrow> host_byte c"
  by (auto simp: dns_label_ok_def host_byte_def list_all_iff is_ascii_alphanumeric_def)

lemma canonical_authority_bytes:
  assumes "canonical_authority h" "normalize_mapping_host h = h"
  shows "list_all host_byte h"
proof -
  obtain name port where sp: "split_mapping_authority h = (name, port)" by force
  note low = split_mapping_authority_lower [OF sp]
  have name: "host_byte c" if c: "c \<in> set name" for c
  proof -
    have up: "\<not> is_ascii_upper c" using low(1) c by blast
    consider "name = ''*''"
      | a where "Option.bind (strip_prefix ''['' name) (strip_suffix '']'') = Some a" "ipv6_addr_parses a"
      | "list_all dns_label_ok (split_on CHR ''.'' name)"
      using assms(1) sp
      by (auto simp: canonical_authority_def split: if_split_asm option.split_asm)
    then show ?thesis
    proof cases
      case 1
      then show ?thesis using c by (simp add: host_byte_def)
    next
      case 2
      then have "name = ''['' @ a @ '']''"
        by (auto simp: bind_eq_Some_conv strip_prefix_def strip_suffix_def prefix_def suffix_def split: if_split_asm)
      then show ?thesis
        using c up ipv6_addr_bytes [OF 2(2)] ipv6_byte_host [of c] by (auto simp: host_byte_def list_all_iff)
    next
      case 3
      then show ?thesis
        using split_on_covers [OF c, of "CHR ''.''"] up dns_label_host_byte
        by (auto simp: list_all_iff host_byte_def)
    qed
  qed
  have "h = name \<or> (\<exists>q. port = Some q \<and> h = name @ '':'' @ q)"
    using assms(2) sp by (auto simp: normalize_mapping_host_def split: option.split_asm if_split_asm)
  moreover have "host_byte CHR '':''" by (simp add: host_byte_def)
  moreover have "host_byte c" if "port = Some q" "c \<in> set q" for q c
    using low(2) [OF that(1)] that(2) by (auto simp: is_valid_port_def list_all_iff host_byte_def)
  ultimately show ?thesis using name by (auto simp: list_all_iff)
qed

lemma canonical_host_bytes: "mapping_host_is_canonical h \<Longrightarrow> list_all host_byte h"
proof (induction h rule: mapping_host_is_canonical.induct)
  case (1 h)
  have norm: "h \<noteq> []" "normalize_mapping_host h = h"
    using 1(2) by (auto simp: mapping_host_is_canonical.simps [of h] split: if_split_asm)
  show ?case
  proof (cases "\<exists>name port. rsplit_once CHR '':'' h = Some (name, port) \<and> CHR ''*'' \<in> set port")
    case True
    then obtain name port where sp: "rsplit_once CHR '':'' h = Some (name, port)" "CHR ''*'' \<in> set port" by blast
    then have ok: "list_all (\<lambda>b. is_ascii_digit b \<or> b = CHR ''*'') port" "mapping_host_is_canonical name"
      using 1(2) norm by (auto simp: mapping_host_is_canonical.simps [of h])
    have "list_all host_byte name" using 1(1) [OF _ sp(1) refl sp(2)] norm ok(2) by simp
    then show ?thesis
      using rsplit_once_Some [OF sp(1)] ok(1) by (auto simp: list_all_iff host_byte_def)
  next
    case False
    then have "canonical_authority h"
      using 1(2) norm by (auto simp: mapping_host_is_canonical.simps [of h] split: option.split_asm if_split_asm)
    then show ?thesis using norm(2) by (rule canonical_authority_bytes)
  qed
qed

lemma canonical_host_normal: "mapping_host_is_canonical h \<Longrightarrow> h \<noteq> [] \<and> normalize_mapping_host h = h"
  by (auto simp: mapping_host_is_canonical.simps [of h] split: if_split_asm)

lemma is_ok_iff: "is_ok r \<longleftrightarrow> (\<exists>a. r = Inr a)"
  by (cases r) auto

section \<open>Properties\<close>

text \<open>
  Spelling does not change what a host means: for a DNS name, any number of trailing dots, a default
  port written with any number of leading zeros and dots after the port all normalise to the lower-case
  name without dots, which is what rules are matched against.
\<close>

theorem normalize_spelling:
  assumes "list_all is_ascii_graphic h" "h \<noteq> []" "CHR '':'' \<notin> set h" "\<not> prefix ''['' h"
    and "is_valid_port p" "canonical_port p = ''443'' \<or> canonical_port p = ''80''"
  shows "normalize_mapping_host (h @ replicate a CHR ''.'' @ '':'' @ p @ replicate b CHR ''.'') =
         to_ascii_lowercase (trim_end_matches CHR ''.'' h)"
  using assms by (rule normalize_dns_spelling)

theorem normalize_spelling_witness:
  "normalize_mapping_host (''API.x.Com'' @ replicate 1 CHR ''.'' @ '':'' @ ''0443'' @ replicate 2 CHR ''.'') =
   to_ascii_lowercase (trim_end_matches CHR ''.'' ''API.x.Com'')"
  by (rule normalize_spelling) code_simp+

text \<open>
  Normalisation is idempotent on every host of printable ASCII bytes, with or without a port, a
  trailing dot or IPv6 brackets: a rule host that was normalised once is a fixed point, so rules and
  requests are compared in one normal form.
\<close>

theorem normalize_idempotent:
  assumes "list_all is_ascii_graphic h"
  shows "normalize_mapping_host (normalize_mapping_host h) = normalize_mapping_host h"
  using assms by (rule normalize_idem_graphic)

theorem normalize_idempotent_witness:
  "normalize_mapping_host (normalize_mapping_host ''[2001:DB8::1]:08443'') =
   normalize_mapping_host ''[2001:DB8::1]:08443''"
  by (rule normalize_idempotent) code_simp

text \<open>
  A managed rule that passes validation is well formed: its host is a non-empty fixed point of
  normalisation made only of lower-case letters, digits and the bytes of the pattern language, its
  method is one of the eight known methods, its path is non-empty, at most 4096 bytes and free of NUL,
  and its action class is in the registry.
\<close>

theorem validate_managed_rule_sound:
  assumes "validate_managed_rule method host path class = Ok ()"
  shows "host \<noteq> [] \<and> normalize_mapping_host host = host \<and> list_all host_byte host
    \<and> (\<forall>m. method = Some m \<longrightarrow> (\<exists>k. m = HttpMethod_as_str k))
    \<and> (\<forall>p. path = Some p \<longrightarrow> 0 < length p \<and> length p \<le> 4096 \<and> CHR 0x00 \<notin> set p)
    \<and> (\<exists>c. class = ActionClass_as_str c)"
proof -
  have host: "mapping_host_is_canonical host"
    and m: "\<And>m. method = Some m \<Longrightarrow> is_ok (HttpMethod_from_str m)"
    and p: "\<And>p. path = Some p \<Longrightarrow> p \<noteq> [] \<and> length p \<le> 4096 \<and> CHR 0x00 \<notin> set p"
    and c: "is_ok (ActionClass_from_str class)"
    using assms by (auto simp: validate_managed_rule_def split: if_split_asm option.split_asm)
  show ?thesis
    using canonical_host_normal [OF host] canonical_host_bytes [OF host] m p c
    by (auto simp: is_ok_iff from_str_Ok_iff dest: HttpMethod_from_str_Ok)
qed

theorem validate_managed_rule_sound_witness:
  "list_all host_byte ''*.example.com:8*'' \<and>
   validate_managed_rule (Some ''GET'') ''*.example.com:8*'' (Some ''/v1/*'') ''code.read'' = Ok ()"
proof -
  have ok: "validate_managed_rule (Some ''GET'') ''*.example.com:8*'' (Some ''/v1/*'') ''code.read'' = Ok ()"
    by code_simp
  then show ?thesis using validate_managed_rule_sound [OF ok] by blast
qed

end
