(* ===== verification/Mapping_Table.thy ===== *)
theory Mapping_Table
  imports Mapping_Language
begin

text \<open>
  The mapping table of the intent normaliser (\<^verbatim>\<open>firma-sidecar/src/normalizer/mapping.rs\<close>) and the
  rule configuration it is compiled from (\<^verbatim>\<open>firma-sidecar/src/config/enforcement.rs\<close>): validation,
  duplicate detection, compilation in order of descending specificity, and lookup.
\<close>

section \<open>Configured rules\<close>

record MappingRuleConfig =
  cfg_method :: "http_method_token option"
  cfg_host :: string
  cfg_path :: "string option"
  cfg_action_class :: string

record MappingRulesFile =
  file_rules :: "MappingRuleConfig list"

definition MappingRuleConfig_validate :: "MappingRuleConfig \<Rightarrow> (string, unit) result" where
  "MappingRuleConfig_validate rule =
     and_then (validate_authored_mapping_host (cfg_host rule)) (\<lambda>_.
       if trim (cfg_action_class rule) = [] then Err ''action_class must not be empty''
       else case cfg_method rule of
         None \<Rightarrow> Ok ()
       | Some method \<Rightarrow>
           if \<not> is_ok (HttpMethod_from_str method)
           then Err (''invalid HTTP method '' @ CHR 0x27 # method @ CHR 0x27 #
                     ''; expected one of: GET, POST, PUT, DELETE, PATCH, HEAD, OPTIONS, CONNECT'')
           else Ok ())"

fun validate_rules_from :: "nat \<Rightarrow> MappingRuleConfig list \<Rightarrow> (string, unit) result" where
  "validate_rules_from i [] = Ok ()"
| "validate_rules_from i (rule # rules) =
     (case MappingRuleConfig_validate rule of
        Inl e \<Rightarrow> Err (''rule '' @ show_nat i @ '': '' @ e)
      | Inr _ \<Rightarrow> validate_rules_from (i + 1) rules)"

definition MappingRulesFile_validate :: "MappingRulesFile \<Rightarrow> (string, unit) result" where
  "MappingRulesFile_validate file = validate_rules_from 0 (file_rules file)"

section \<open>The compiled table\<close>

datatype MappingTableError =
    InvalidRulesFile string
  | DuplicateRule nat MappingRuleConfig
  | NonExistingActionClass nat MappingRuleConfig

record MappingRule =
  rule_method :: "http_method_token option"
  rule_host_pattern :: string
  rule_path_pattern :: "string option"
  rule_action_class :: string
  rule_specificity :: nat

record MappingTable =
  table_rules :: "MappingRule list"

datatype MatchResult = Matched MappingRule | UnclassifiedProtected

definition compute_specificity :: "http_method_token option \<Rightarrow> string \<Rightarrow> string option \<Rightarrow> nat" where
  "compute_specificity method host path = mapping_specificity (method \<noteq> None) host path"

definition empty_protected :: MappingTable where
  "empty_protected = \<lparr>table_rules = []\<rparr>"

text \<open>The duplicate-detection loop.\<close>

definition rule_key :: "MappingRuleConfig \<Rightarrow> http_method_token option \<times> string \<times> string" where
  "rule_key rule =
     (cfg_method rule, normalize_mapping_host (cfg_host rule), unwrap_or [] (cfg_path rule))"

fun check_duplicates ::
  "nat \<Rightarrow> (http_method_token option \<times> string \<times> string) set \<Rightarrow> MappingRuleConfig list
    \<Rightarrow> (MappingTableError, unit) result" where
  "check_duplicates i seen [] = Ok ()"
| "check_duplicates i seen (rule # rules) =
     (if rule_key rule \<in> seen then Err (DuplicateRule i rule)
      else check_duplicates (i + 1) (insert (rule_key rule) seen) rules)"

text \<open>The compilation loop.\<close>

definition compile_rule :: "MappingRuleConfig \<Rightarrow> MappingRule" where
  "compile_rule rule =
     (let host_pattern = normalize_mapping_host (cfg_host rule)
      in \<lparr>rule_method = cfg_method rule,
          rule_host_pattern = host_pattern,
          rule_path_pattern = cfg_path rule,
          rule_action_class = cfg_action_class rule,
          rule_specificity = compute_specificity (cfg_method rule) host_pattern (cfg_path rule)\<rparr>)"

fun compile_rules ::
  "nat \<Rightarrow> ActionClassRegistry \<Rightarrow> MappingRuleConfig list \<Rightarrow> (MappingTableError, MappingRule list) result" where
  "compile_rules i registry [] = Ok []"
| "compile_rules i registry (rule # rules) =
     (if \<not> registry_contains registry (cfg_action_class rule) then Err (NonExistingActionClass i rule)
      else and_then (compile_rules (i + 1) registry rules) (\<lambda>rs. Ok (compile_rule rule # rs)))"

definition MappingTable_compile ::
  "MappingRulesFile \<Rightarrow> ActionClassRegistry \<Rightarrow> (MappingTableError, MappingTable) result" where
  "MappingTable_compile file registry =
     and_then (check_duplicates 0 {} (file_rules file)) (\<lambda>_.
     and_then (compile_rules 0 registry (file_rules file)) (\<lambda>rules.
     Ok \<lparr>table_rules = sort_key (\<lambda>rule. - int (rule_specificity rule)) rules\<rparr>))"

definition from_config ::
  "MappingRulesFile \<Rightarrow> ActionClassRegistry \<Rightarrow> (MappingTableError, MappingTable) result" where
  "from_config file registry =
     (case MappingRulesFile_validate file of
        Inl e \<Rightarrow> Err (InvalidRulesFile e)
      | Inr _ \<Rightarrow> MappingTable_compile file registry)"

fun validate_managed_from :: "nat \<Rightarrow> MappingRuleConfig list \<Rightarrow> (MappingTableError, unit) result" where
  "validate_managed_from i [] = Ok ()"
| "validate_managed_from i (rule # rules) =
     (case validate_managed_rule (cfg_method rule) (cfg_host rule) (cfg_path rule) (cfg_action_class rule) of
        Inl error \<Rightarrow>
          Err (InvalidRulesFile (''rule '' @ show_nat i @ '': '' @ ManagedMappingRuleError_display error))
      | Inr _ \<Rightarrow> validate_managed_from (i + 1) rules)"

definition from_managed_rules :: "MappingRuleConfig list \<Rightarrow> (MappingTableError, MappingTable) result" where
  "from_managed_rules rules =
     and_then (validate_managed_from 0 rules) (\<lambda>_.
       MappingTable_compile \<lparr>file_rules = rules\<rparr> registry_v0_1)"

section \<open>Lookup\<close>

definition rule_matches :: "MappingRule \<Rightarrow> http_method_token \<Rightarrow> string \<Rightarrow> string \<Rightarrow> bool" where
  "rule_matches rule method host path =
     (if (case rule_method rule of None \<Rightarrow> False | Some m \<Rightarrow> m \<noteq> method) then False
      else if \<not> glob_match (rule_host_pattern rule) host then False
      else if (case rule_path_pattern rule of None \<Rightarrow> False | Some pattern \<Rightarrow> \<not> glob_match pattern path)
        then False
      else True)"

fun first_match :: "MappingRule list \<Rightarrow> http_method_token \<Rightarrow> string \<Rightarrow> string \<Rightarrow> MatchResult" where
  "first_match [] method host path = UnclassifiedProtected"
| "first_match (rule # rules) method host path =
     (if rule_matches rule method host path then Matched rule else first_match rules method host path)"

definition find_match :: "MappingTable \<Rightarrow> http_method_token \<Rightarrow> string \<Rightarrow> string \<Rightarrow> MatchResult" where
  "find_match table = first_match (table_rules table)"

definition normalize_dispatch_host :: "string \<Rightarrow> bool \<Rightarrow> string" where
  "normalize_dispatch_host host is_https =
     (case split_mapping_authority host of (name, port) \<Rightarrow>
        (case port of
           Some p \<Rightarrow> if p \<noteq> (if is_https then ''443'' else ''80'') then name @ '':'' @ p else name
         | None \<Rightarrow> name))"

section \<open>A small configuration\<close>

text \<open>A catch-all rule and a more specific one, used to exercise the lookup.\<close>

definition sample_rules :: MappingRulesFile where
  "sample_rules =
     \<lparr>file_rules =
       [\<lparr>cfg_method = None, cfg_host = ''*'', cfg_path = None, cfg_action_class = ''document.read''\<rparr>,
        \<lparr>cfg_method = Some ''GET'', cfg_host = ''API.x.com'', cfg_path = Some ''/v1/*'',
          cfg_action_class = ''code.read''\<rparr>]\<rparr>"

definition sample_table :: MappingTable where
  "sample_table =
     \<lparr>table_rules =
       [\<lparr>rule_method = Some ''GET'', rule_host_pattern = ''api.x.com'', rule_path_pattern = Some ''/v1/*'',
          rule_action_class = ''code.read'', rule_specificity = 117\<rparr>,
        \<lparr>rule_method = None, rule_host_pattern = ''*'', rule_path_pattern = None,
          rule_action_class = ''document.read'', rule_specificity = 0\<rparr>]\<rparr>"

section \<open>Compilation\<close>

lemma check_duplicates_distinct:
  "check_duplicates i seen rules = Ok () \<Longrightarrow>
   distinct (map rule_key rules) \<and> rule_key ` set rules \<inter> seen = {}"
  by (induction rules arbitrary: i seen) (auto split: if_split_asm)

lemma compile_rules_Ok:
  "compile_rules i registry rules = Ok rs \<Longrightarrow>
   rs = map compile_rule rules \<and> (\<forall>r \<in> set rules. registry_contains registry (cfg_action_class r))"
proof (induction rules arbitrary: i rs)
  case (Cons r rules)
  then show ?case
    by (cases "compile_rules (i + 1) registry rules") (auto split: if_split_asm)
qed simp

lemma compile_Ok:
  assumes "MappingTable_compile file registry = Ok table"
  shows "table_rules table =
      sort_key (\<lambda>rule. - int (rule_specificity rule)) (map compile_rule (file_rules file))"
    and "distinct (map rule_key (file_rules file))"
    and "\<forall>r \<in> set (file_rules file). registry_contains registry (cfg_action_class r)"
proof -
  have dup: "check_duplicates 0 {} (file_rules file) = Ok ()"
    using assms by (cases "check_duplicates 0 {} (file_rules file)") (auto simp: MappingTable_compile_def)
  with assms obtain rs where rs: "compile_rules 0 registry (file_rules file) = Ok rs"
    by (cases "compile_rules 0 registry (file_rules file)") (auto simp: MappingTable_compile_def)
  show "table_rules table =
      sort_key (\<lambda>rule. - int (rule_specificity rule)) (map compile_rule (file_rules file))"
    using assms dup rs compile_rules_Ok [OF rs] by (auto simp: MappingTable_compile_def)
  show "distinct (map rule_key (file_rules file))"
    using check_duplicates_distinct [OF dup] by blast
  show "\<forall>r \<in> set (file_rules file). registry_contains registry (cfg_action_class r)"
    using compile_rules_Ok [OF rs] by blast
qed

section \<open>The first match of a sorted table\<close>

lemma first_match_Matched:
  "first_match rules m h p = Matched r \<Longrightarrow>
   \<exists>xs ys. rules = xs @ r # ys \<and> rule_matches r m h p \<and> (\<forall>x \<in> set xs. \<not> rule_matches x m h p)"
proof (induction rules)
  case (Cons x rules)
  show ?case
  proof (cases "rule_matches x m h p")
    case True
    with Cons.prems show ?thesis by (intro exI [of _ "[]"] exI [of _ rules]) simp
  next
    case False
    with Cons obtain xs ys where "rules = xs @ r # ys" "rule_matches r m h p"
      "\<forall>x \<in> set xs. \<not> rule_matches x m h p" by auto
    with False show ?thesis by (intro exI [of _ "x # xs"] exI [of _ ys]) simp
  qed
qed simp

lemma first_match_none_iff:
  "first_match rules m h p = UnclassifiedProtected \<longleftrightarrow> (\<forall>r \<in> set rules. \<not> rule_matches r m h p)"
  by (induction rules) auto

text \<open>A stable sort keeps the configured order among rules of one specificity.\<close>

lemma first_match_sorted:
  fixes spec :: "MappingRule \<Rightarrow> int"
  assumes "first_match (sort_key spec rules) m h p = Matched r"
  shows "r \<in> set rules" "rule_matches r m h p"
    "\<And>x. x \<in> set rules \<Longrightarrow> rule_matches x m h p \<Longrightarrow> spec r \<le> spec x"
    "hd (filter (\<lambda>x. rule_matches x m h p \<and> spec x = spec r) rules) = r"
proof -
  from assms obtain xs ys where sp: "sort_key spec rules = xs @ r # ys" and m: "rule_matches r m h p"
    and before: "\<forall>x \<in> set xs. \<not> rule_matches x m h p"
    using first_match_Matched by blast
  have all: "set rules = set (xs @ r # ys)" using sp by (metis set_sort)
  show "r \<in> set rules" "rule_matches r m h p" using all m by auto
  have sorted: "sorted (map spec (xs @ r # ys))" using sp by (metis sorted_sort_key)
  show "spec r \<le> spec x" if "x \<in> set rules" "rule_matches x m h p" for x
    using that all before sorted by (auto simp: sorted_append)
  let ?P = "\<lambda>x. rule_matches x m h p \<and> spec x = spec r"
  have "filter ?P rules = filter (\<lambda>x. rule_matches x m h p) (filter (\<lambda>x. spec x = spec r) rules)"
    by (simp add: conj_commute)
  also have "\<dots> = filter (\<lambda>x. rule_matches x m h p) (filter (\<lambda>x. spec x = spec r) (xs @ r # ys))"
    by (simp only: sort_key_stable flip: sp)
  also have "\<dots> = r # filter ?P ys" using m before by (simp add: conj_commute)
  finally show "hd (filter ?P rules) = r" by simp
qed

section \<open>Properties\<close>



text \<open>
  Nothing is let through unclassified: lookup reports an unclassified request exactly when no
  configured rule matches it, and the empty table reports every request as unclassified.
\<close>

theorem find_match_fail_closed:
  assumes "MappingTable_compile file registry = Ok table"
  shows "(find_match table m h p = UnclassifiedProtected \<longleftrightarrow>
           (\<forall>c \<in> set (file_rules file). \<not> rule_matches (compile_rule c) m h p))
       \<and> find_match empty_protected m h p = UnclassifiedProtected"
  using compile_Ok(1) [OF assms]
  by (simp add: find_match_def first_match_none_iff empty_protected_def)

theorem find_match_fail_closed_witness:
  "find_match empty_protected ''GET'' ''api.x.com'' ''/v1/a'' = UnclassifiedProtected
   \<and> MappingTable_compile sample_rules registry_v0_1 = Ok sample_table"
proof -
  have c: "MappingTable_compile sample_rules registry_v0_1 = Ok sample_table" by code_simp
  show ?thesis using find_match_fail_closed [OF c] c by blast
qed

end
