(* ===== verification/Normalizer.thy ===== *)
theory Normalizer
  imports Redaction Mapping_Table Decisions
begin

text \<open>
  The intent normaliser (\<^verbatim>\<open>firma-sidecar/src/normalizer/mod.rs\<close>): path and host canonicalisation,
  header filtering, the GitHub metadata of smart-HTTP pushes and REST ref updates, and
  \<^verbatim>\<open>IntentNormalizer::normalize\<close> itself, which turns a raw request into a canonical intent or a
  DENY decision.

  Third-party code is a record of functions: parsing an \<^verbatim>\<open>http::uri::Authority\<close>, decoding a form
  key, Unicode NFC and JSON parsing.
\<close>

section \<open>Third-party functions\<close>

datatype json =
    JNull | JBool bool | JInt int | JFloat f64 | JString string | JArray "json list"
  | JObject "(string \<times> json) list"

definition json_get :: "json \<Rightarrow> string \<Rightarrow> json option" where
  "json_get j k = (case j of JObject kvs \<Rightarrow> map_of kvs k | _ \<Rightarrow> None)"

definition json_as_str :: "json \<Rightarrow> string option" where
  "json_as_str j = (case j of JString s \<Rightarrow> Some s | _ \<Rightarrow> None)"

record normalizer_lib =
  authority_from_str :: "string \<Rightarrow> string option"
  form_first :: "string \<Rightarrow> string option"
  nfc :: "string \<Rightarrow> string"
  json_from_slice :: "string \<Rightarrow> (string, json) result"

section \<open>Constants and small tables\<close>

definition GITHUB_HOSTS :: "string list" where
  "GITHUB_HOSTS = [''api.github.com'', ''github.com'']"

definition STRIPE_HOSTS :: "string list" where
  "STRIPE_HOSTS = [''api.stripe.com'']"

definition GMAIL_HOSTS :: "string list" where
  "GMAIL_HOSTS = [''gmail.googleapis.com'']"

definition provider_for_host :: "string \<Rightarrow> string option" where
  "provider_for_host host =
     (if host \<in> set GITHUB_HOSTS then Some ''github''
      else if host \<in> set STRIPE_HOSTS then Some ''stripe''
      else if host \<in> set GMAIL_HOSTS then Some ''gmail''
      else None)"

definition SENSITIVE_HEADERS :: "string list" where
  "SENSITIVE_HEADERS = [''authorization'', ''cookie'', ''set-cookie'', ''proxy-authorization'', ''x-api-key'']"

record RawRequest =
  req_method :: http_method_token
  req_host :: string
  req_path :: string
  req_headers :: HeaderMap
  req_body :: "string option"
  req_is_https :: bool

record IntentNormalizer =
  mapping_table :: MappingTable
  sensitive_query_params :: "string list"

definition IntentNormalizer_new :: "MappingTable \<Rightarrow> IntentNormalizer" where
  "IntentNormalizer_new table =
     \<lparr>mapping_table = table, sensitive_query_params = DEFAULT_SENSITIVE_QUERY_PARAMS\<rparr>"

fun merge_query_params :: "string list \<Rightarrow> string list \<Rightarrow> string list" where
  "merge_query_params merged [] = merged"
| "merge_query_params merged (param # custom) =
     (if \<not> list_ex (\<lambda>p. eq_ignore_ascii_case p param) merged
      then merge_query_params (merged @ [param]) custom
      else merge_query_params merged custom)"

definition with_custom_query_params :: "MappingTable \<Rightarrow> string list \<Rightarrow> IntentNormalizer" where
  "with_custom_query_params table custom_params =
     \<lparr>mapping_table = table,
      sensitive_query_params = merge_query_params DEFAULT_SENSITIVE_QUERY_PARAMS custom_params\<rparr>"

definition with_mapping_table :: "IntentNormalizer \<Rightarrow> MappingTable \<Rightarrow> IntentNormalizer" where
  "with_mapping_table n table = n\<lparr>mapping_table := table\<rparr>"

definition redact_query :: "normalizer_lib \<Rightarrow> IntentNormalizer \<Rightarrow> string \<Rightarrow> string" where
  "redact_query lib n v = redact_query_params (form_first lib) v (sensitive_query_params n)"

definition sanitize_headers :: "HeaderMap \<Rightarrow> HeaderMap" where
  "sanitize_headers headers = filter (\<lambda>(k, _). k \<notin> set SENSITIVE_HEADERS) headers"

text \<open>Later pairs replace earlier ones, as collecting into a hash map does.\<close>

definition parse_query_string :: "string \<Rightarrow> (string \<rightharpoonup> string)" where
  "parse_query_string query =
     map_of (rev (List.map_filter (split_once CHR ''='') (split_on CHR ''&'' query)))"

definition normalize_host :: "normalizer_lib \<Rightarrow> string \<Rightarrow> string option" where
  "normalize_host lib host = authority_from_str lib (normalize_mapping_host host)"

section \<open>Paths\<close>

fun collapse_slashes :: "bool \<Rightarrow> string \<Rightarrow> string" where
  "collapse_slashes prev_was_slash [] = []"
| "collapse_slashes prev_was_slash (ch # rest) =
     (if ch = CHR ''/'' then
        (if \<not> prev_was_slash then ch # collapse_slashes True rest else collapse_slashes True rest)
      else ch # collapse_slashes False rest)"

text \<open>The loop over the segments; the vector is kept in order and popped at its end.\<close>

fun resolve_segments :: "string list \<Rightarrow> string list \<Rightarrow> string list" where
  "resolve_segments result [] = result"
| "resolve_segments result (segment # rest) =
     (if segment = [] \<or> segment = ''.'' then resolve_segments result rest
      else if segment = ''..'' then resolve_segments (butlast result) rest
      else resolve_segments (result @ [segment]) rest)"

definition resolve_dot_segments :: "string \<Rightarrow> string" where
  "resolve_dot_segments path =
     (let out = concat (map (\<lambda>seg. CHR ''/'' # seg) (resolve_segments [] (split_on CHR ''/'' path)))
      in if out = [] then ''/'' else out)"

definition normalize_path :: "normalizer_lib \<Rightarrow> string \<Rightarrow> string" where
  "normalize_path lib path0 =
     (let path = hd (split_on CHR ''#'' path0);
          collapsed = collapse_slashes False path;
          resolved = resolve_dot_segments collapsed;
          trimmed = (if 1 < length resolved \<and> suffix ''/'' resolved
                     then take (length resolved - 1) resolved else resolved)
      in if list_ex (\<lambda>c. 127 < byte_val c) trimmed then nfc lib trimmed else trimmed)"

section \<open>Git\<close>

record GithubRepo =
  repo_owner :: string
  repo_name :: string

record GithubRestRef =
  rest_repo :: GithubRepo
  rest_git_ref :: "string option"

record ReceivePackUpdate =
  update_git_ref :: string
  update_operation :: string

definition parse_github_git_repo :: "string \<Rightarrow> GithubRepo option" where
  "parse_github_git_repo path =
     (case split_on CHR ''/'' (trim_start_matches CHR ''/'' path) of
        owner # repo_segment # _ \<Rightarrow>
          (let repo = unwrap_or repo_segment (strip_suffix ''.git'' repo_segment)
           in if owner = [] \<or> repo = [] then None
              else Some \<lparr>repo_owner = owner, repo_name = repo\<rparr>)
      | _ \<Rightarrow> None)"

definition parse_ref_from_json_body ::
  "normalizer_lib \<Rightarrow> string option \<Rightarrow> (string, string option) result" where
  "parse_ref_from_json_body lib body =
     (case body of
        None \<Rightarrow> Ok None
      | Some b \<Rightarrow>
          if b = [] then Ok None
          else (case json_from_slice lib b of
                  Inl err \<Rightarrow> Err (''malformed GitHub git refs request: request body is not JSON: '' @ err)
                | Inr j \<Rightarrow> Ok (Option.bind (json_get j ''ref'') json_as_str)))"

definition parse_github_rest_ref ::
  "normalizer_lib \<Rightarrow> string \<Rightarrow> string option \<Rightarrow> (string, GithubRestRef option) result" where
  "parse_github_rest_ref lib path body =
     (let segments = split_on CHR ''/'' (trim_start_matches CHR ''/'' path) in
      if length segments < 5 \<or> segments ! 0 \<noteq> ''repos'' \<or> segments ! 3 \<noteq> ''git'' \<or> segments ! 4 \<noteq> ''refs''
      then Ok None
      else if segments ! 1 = [] then Err ''malformed GitHub git refs request: missing owner''
      else if segments ! 2 = [] then Err ''malformed GitHub git refs request: missing repo''
      else
        and_then
          (if drop 5 segments = [] then parse_ref_from_json_body lib body
           else Ok (Some (''refs/'' @ join_with CHR ''/'' (drop 5 segments))))
          (\<lambda>git_ref. Ok (Some \<lparr>rest_repo = \<lparr>repo_owner = segments ! 1, repo_name = segments ! 2\<rparr>,
                              rest_git_ref = git_ref\<rparr>)))"

text \<open>\<^verbatim>\<open>str::from_utf8\<close>: the well-formed byte sequences of the Unicode standard.\<close>

definition cont_byte :: "nat \<Rightarrow> bool" where
  "cont_byte b \<longleftrightarrow> 128 \<le> b \<and> b \<le> 191"

fun utf8_valid :: "nat list \<Rightarrow> bool" where
  "utf8_valid [] = True"
| "utf8_valid (a # r) =
     (if a < 128 then utf8_valid r
      else case r of
        b # r2 \<Rightarrow>
          (if 194 \<le> a \<and> a \<le> 223 \<and> cont_byte b then utf8_valid r2
           else case r2 of
             c # r3 \<Rightarrow>
               (if cont_byte c \<and>
                   (a = 224 \<and> 160 \<le> b \<and> b \<le> 191
                  \<or> (225 \<le> a \<and> a \<le> 236 \<or> 238 \<le> a \<and> a \<le> 239) \<and> cont_byte b
                  \<or> a = 237 \<and> 128 \<le> b \<and> b \<le> 159)
                then utf8_valid r3
                else case r3 of
                  d # r4 \<Rightarrow>
                    cont_byte c \<and> cont_byte d \<and>
                    (a = 240 \<and> 144 \<le> b \<and> b \<le> 191
                   \<or> 241 \<le> a \<and> a \<le> 243 \<and> cont_byte b
                   \<or> a = 244 \<and> 128 \<le> b \<and> b \<le> 143)
                    \<and> utf8_valid r4
                | [] \<Rightarrow> False)
           | [] \<Rightarrow> False)
      | [] \<Rightarrow> False)"

definition from_utf8_ok :: "string \<Rightarrow> bool" where
  "from_utf8_ok s = utf8_valid (map byte_val s)"

text \<open>\<^verbatim>\<open>split_whitespace\<close>: the word being read, then the input.\<close>

function ws_fields :: "string \<Rightarrow> string \<Rightarrow> string list" where
  "ws_fields cur s =
     (let n = ws_head (map byte_val s); flush = (if cur = [] then [] else [cur]) in
      if s = [] then flush
      else if 0 < n then flush @ ws_fields [] (drop n s)
      else ws_fields (cur @ [hd s]) (tl s))"
  by pat_completeness auto
termination
  by (relation "measure (length \<circ> snd)") (auto intro: ws_head_shrinks)

declare ws_fields.simps [simp del]

definition split_whitespace :: "string \<Rightarrow> string list" where
  "split_whitespace s = ws_fields [] s"

definition is_git_object_id :: "string \<Rightarrow> bool" where
  "is_git_object_id v \<longleftrightarrow> (length v = 40 \<or> length v = 64) \<and> list_all is_ascii_hexdigit v"

definition is_zero_object_id :: "string \<Rightarrow> bool" where
  "is_zero_object_id v \<longleftrightarrow> is_git_object_id v \<and> list_all (\<lambda>b. b = CHR ''0'') v"

definition parse_receive_pack_command :: "string \<Rightarrow> (string, ReceivePackUpdate) result" where
  "parse_receive_pack_command payload =
     (if \<not> from_utf8_ok payload then Err ''malformed git-receive-pack request: command is not UTF-8''
      else
        let line = trim_end_matches CHR 0x0A payload;
            command = (case split_once CHR 0x00 line of None \<Rightarrow> line | Some (c, _) \<Rightarrow> c)
        in case split_whitespace command of
             [] \<Rightarrow> Err ''malformed git-receive-pack request: missing old object id''
           | [_] \<Rightarrow> Err ''malformed git-receive-pack request: missing new object id''
           | [_, _] \<Rightarrow> Err ''malformed git-receive-pack request: missing ref name''
           | old_id # new_id # git_ref # _ \<Rightarrow>
               if \<not> is_git_object_id old_id \<or> \<not> is_git_object_id new_id
               then Err ''malformed git-receive-pack request: invalid object id''
               else if \<not> prefix ''refs/'' git_ref
               then Err ''malformed git-receive-pack request: invalid ref name''
               else Ok \<lparr>update_git_ref = git_ref,
                        update_operation = (if is_zero_object_id new_id then ''delete'' else ''write'')\<rparr>)"

text \<open>The pkt-line loop; \<open>usize\<close> is 64 bits wide.\<close>

function receive_pack_loop ::
  "string \<Rightarrow> nat \<Rightarrow> ReceivePackUpdate option \<Rightarrow> (string, ReceivePackUpdate option) result" where
  "receive_pack_loop body pos selected =
     (if pos < length body then
        (if length body - pos < 4 then Err ''malformed git-receive-pack request: truncated pkt-line''
         else if \<not> from_utf8_ok (slice pos (pos + 4) body)
           then Err ''malformed git-receive-pack request: non-UTF-8 pkt-line length''
         else case from_str_radix u64_max 16 (slice pos (pos + 4) body) of
           None \<Rightarrow> Err ''malformed git-receive-pack request: invalid pkt-line length''
         | Some len \<Rightarrow>
             (let pos1 = pos + 4 in
              if len = 0 then Ok selected
              else if len < 4 then Err ''malformed git-receive-pack request: invalid pkt-line length''
              else
                let payload_len = len - 4 in
                if length body - pos1 < payload_len
                then Err ''malformed git-receive-pack request: truncated pkt-line payload''
                else case parse_receive_pack_command (slice pos1 (pos1 + payload_len) body) of
                  Inl e \<Rightarrow> Err e
                | Inr update \<Rightarrow>
                    (if selected \<noteq> None
                     then Err ''unsupported git-receive-pack request: multiple ref update commands''
                     else receive_pack_loop body (pos1 + payload_len) (Some update))))
      else Ok selected)"
  by pat_completeness auto
termination
  by (relation "measure (\<lambda>(body, pos, selected). length body - pos)") auto

declare receive_pack_loop.simps [simp del]

definition parse_receive_pack_update :: "string \<Rightarrow> (string, ReceivePackUpdate) result" where
  "parse_receive_pack_update body =
     and_then (receive_pack_loop body 0 None)
       (ok_or ''malformed git-receive-pack request: no ref update commands'')"

definition insert_github_repo_metadata :: "(string \<rightharpoonup> string) \<Rightarrow> GithubRepo \<Rightarrow> (string \<rightharpoonup> string)" where
  "insert_github_repo_metadata res repo =
     res(''git_provider'' \<mapsto> ''github'', ''git_owner'' \<mapsto> repo_owner repo, ''git_repo'' \<mapsto> repo_name repo)"

definition git_ref_type :: "string \<Rightarrow> string" where
  "git_ref_type git_ref =
     (if prefix ''refs/heads/'' git_ref then ''branch''
      else if prefix ''refs/tags/'' git_ref then ''tag''
      else ''ref'')"

definition git_operation_for_rest_method :: "http_method_token \<Rightarrow> string \<Rightarrow> string" where
  "git_operation_for_rest_method method class =
     (if method = ''DELETE'' \<or> class = ''code.destructive'' then ''delete''
      else if method = ''GET'' then ''read''
      else ''write'')"

definition request_summary :: "RawRequest \<Rightarrow> string" where
  "request_summary request =
     req_method request @ '' '' @ req_path request @ '' (host: '' @ req_host request @ '')''"

definition git_normalization_deny :: "RawRequest \<Rightarrow> string \<Rightarrow> EnforcementDecision" where
  "git_normalization_deny request detail =
     into_deny (NormalizationFailed (detail @ '': '' @ request_summary request)) Normalization"

section \<open>Enrichment and normalisation\<close>

text \<open>The mutable resource map is returned beside the action class.\<close>

definition enrich_github_smart_http_metadata ::
  "RawRequest \<Rightarrow> string \<Rightarrow> (string \<rightharpoonup> string) \<Rightarrow> string
    \<Rightarrow> (EnforcementDecision, (string \<rightharpoonup> string) \<times> string) result" where
  "enrich_github_smart_http_metadata request path res class =
     (case parse_github_git_repo path of
        None \<Rightarrow> Ok (res, class)
      | Some repo \<Rightarrow>
          (let res1 = insert_github_repo_metadata res repo in
           if suffix ''/info/refs'' path then Ok (res1(''git_operation'' \<mapsto> ''read''), class)
           else if suffix ''/git-upload-pack'' path then Ok (res1(''git_operation'' \<mapsto> ''read''), class)
           else if suffix ''/git-receive-pack'' path then
             (case req_body request of
                None \<Rightarrow> Err (git_normalization_deny request
                          ''malformed git-receive-pack request: missing request body'')
              | Some body \<Rightarrow>
                  (case parse_receive_pack_update body of
                     Inl detail \<Rightarrow> Err (git_normalization_deny request detail)
                   | Inr update \<Rightarrow>
                       (let res2 = res1(''git_ref'' \<mapsto> update_git_ref update,
                                        ''git_ref_type'' \<mapsto> git_ref_type (update_git_ref update),
                                        ''git_operation'' \<mapsto> update_operation update)
                        in if update_operation update = ''delete'' then Ok (res2, ''code.destructive'')
                           else Ok (res2, class))))
           else Ok (res1, class)))"

definition enrich_github_rest_ref_metadata ::
  "normalizer_lib \<Rightarrow> RawRequest \<Rightarrow> string \<Rightarrow> (string \<rightharpoonup> string) \<Rightarrow> (string \<rightharpoonup> string) \<Rightarrow> string
    \<Rightarrow> (EnforcementDecision, (string \<rightharpoonup> string) \<times> string) result" where
  "enrich_github_rest_ref_metadata lib request path query res class =
     (case parse_github_rest_ref lib path (req_body request) of
        Inl detail \<Rightarrow> Err (git_normalization_deny request detail)
      | Inr None \<Rightarrow> Ok (res, class)
      | Inr (Some rest_ref) \<Rightarrow>
          (let res1 = insert_github_repo_metadata res (rest_repo rest_ref);
               res2 = (case rest_git_ref rest_ref of
                         Some git_ref \<Rightarrow> res1(''git_ref_type'' \<mapsto> git_ref_type git_ref, ''git_ref'' \<mapsto> git_ref)
                       | None \<Rightarrow> res1);
               res3 = res2(''git_operation'' \<mapsto> git_operation_for_rest_method (req_method request) class);
               res4 = (if query ''service'' = Some ''git-receive-pack''
                       then res3(''git_operation'' \<mapsto> ''read'') else res3)
           in Ok (res4, class)))"

definition enrich_github_git_metadata ::
  "normalizer_lib \<Rightarrow> RawRequest \<Rightarrow> string \<Rightarrow> string \<Rightarrow> (string \<rightharpoonup> string) \<Rightarrow> (string \<rightharpoonup> string) \<Rightarrow> string
    \<Rightarrow> (EnforcementDecision, (string \<rightharpoonup> string) \<times> string) result" where
  "enrich_github_git_metadata lib request host path query res class =
     (if host = ''github.com'' then enrich_github_smart_http_metadata request path res class
      else if host = ''api.github.com'' then enrich_github_rest_ref_metadata lib request path query res class
      else Ok (res, class))"

definition normalize ::
  "normalizer_lib \<Rightarrow> IntentNormalizer \<Rightarrow> datetime \<Rightarrow> RawRequest
    \<Rightarrow> (EnforcementDecision, NormalizedEnvelope) result" where
  "normalize lib self now request =
     (let (path_without_query, query_string) =
            (case split_once CHR ''?'' (req_path request) of
               None \<Rightarrow> (req_path request, []) | Some (p, q) \<Rightarrow> (p, q));
          normalized_path = normalize_path lib path_without_query
      in case normalize_host lib (req_host request) of
           None \<Rightarrow> Err (into_deny (NormalizationFailed (''invalid HTTP host: '' @ request_summary request))
                     Normalization)
         | Some normalized_host \<Rightarrow>
             (let (sanitized_path, query_params) =
                    (if query_string = [] then (normalized_path, Map.empty)
                     else (normalized_path @ ''?'' @ redact_query lib self query_string,
                           parse_query_string query_string))
              in case find_match (mapping_table self) (req_method request) normalized_host normalized_path of
                   Matched rule \<Rightarrow>
                     (let res = [''host'' \<mapsto> normalize_dispatch_host (req_host request) (req_is_https request),
                                 ''path'' \<mapsto> sanitized_path];
                          res' = (case provider_for_host normalized_host of
                                    Some provider \<Rightarrow> res(''provider'' \<mapsto> provider) | None \<Rightarrow> res)
                      in case enrich_github_git_metadata lib request normalized_host normalized_path
                                query_params res' (rule_action_class rule) of
                           Inl d \<Rightarrow> Err d
                         | Inr (resource, class) \<Rightarrow>
                             (case HttpMethod_try_from (req_method request) of
                                Inl _ \<Rightarrow> Err (into_deny (NormalizationFailed
                                          (''unrecognized HTTP method: '' @ request_summary request)) Normalization)
                              | Inr method \<Rightarrow>
                                  Ok \<lparr>norm_intent =
                                       \<lparr>intent_action_class = class,
                                        intent_resource = resource,
                                        intent_params = Http
                                          \<lparr>http_method = method,
                                           http_headers = sanitize_headers (req_headers request),
                                           http_body = req_body request,
                                           http_query = query_params\<rparr>,
                                        intent_raw_transport = (if req_is_https request then ''https'' else ''http''),
                                        intent_raw_action_ref = req_method request @ '' '' @ req_path request\<rparr>,
                                      norm_timestamp = now\<rparr>))
                 | UnclassifiedProtected \<Rightarrow>
                     Err (into_deny (NormalizationFailed
                       (''protected action could not be classified: '' @ request_summary request)) Normalization)))"

section \<open>A concrete request\<close>

text \<open>Plain instances of the third-party functions, adequate for ASCII hosts and unescaped keys.\<close>

definition sample_lib :: normalizer_lib where
  "sample_lib = \<lparr>authority_from_str = Some, form_first = Some, nfc = id, json_from_slice = Inl\<rparr>"

definition sample_request :: RawRequest where
  "sample_request =
     \<lparr>req_method = ''GET'', req_host = ''API.x.com.:443'', req_path = ''/v1/../v1//a?token=s'',
      req_headers = [(''authorization'', ''Bearer s''), (''accept'', ''*/*'')], req_body = None, req_is_https = True\<rparr>"

definition push_rules :: MappingTable where
  "push_rules =
     \<lparr>table_rules =
       [\<lparr>rule_method = Some ''POST'', rule_host_pattern = ''github.com'', rule_path_pattern = Some ''*/git-receive-pack'',
          rule_action_class = ''code.write'', rule_specificity = 117\<rparr>]\<rparr>"

definition push_request :: RawRequest where
  "push_request =
     \<lparr>req_method = ''POST'', req_host = ''GitHub.com'', req_path = ''/o/r.git/git-receive-pack'',
      req_headers = [],
      req_body = Some (''0066'' @ replicate 40 CHR ''1'' @ '' '' @ replicate 40 CHR ''0'' @ '' refs/heads/dev'' @ [CHR 0x00] @ '' '' @ ''0000''),
      req_is_https = True\<rparr>"

section \<open>Canonical paths\<close>

definition segment_ok :: "string \<Rightarrow> bool" where
  "segment_ok x \<longleftrightarrow> x \<noteq> [] \<and> x \<noteq> ''.'' \<and> x \<noteq> ''..'' \<and> CHR ''/'' \<notin> set x"

definition join_segments :: "string list \<Rightarrow> string" where
  "join_segments xs = concat (map (\<lambda>seg. CHR ''/'' # seg) xs)"

lemma join_segments_simps [simp]:
  "join_segments [] = []" "join_segments (x # xs) = CHR ''/'' # x @ join_segments xs"
  by (simp_all add: join_segments_def)

lemma join_segments_Nil_iff [simp]: "join_segments xs = [] \<longleftrightarrow> xs = []"
  by (cases xs) auto

lemma resolve_segments_ok:
  "list_all segment_ok result \<Longrightarrow> list_all (\<lambda>x. CHR ''/'' \<notin> set x) segs \<Longrightarrow>
   list_all segment_ok (resolve_segments result segs)"
proof (induction result segs rule: resolve_segments.induct)
  case (2 result segment rest)
  have "list_all segment_ok (butlast result)" using 2(4) by (auto simp: list_all_iff dest: in_set_butlastD)
  moreover have "segment_ok segment" if "segment \<noteq> []" "segment \<noteq> ''.''" "segment \<noteq> ''..''"
    using 2(5) that by (simp add: segment_ok_def)
  ultimately show ?case using 2 by auto
qed simp

lemma resolve_segments_fix: "list_all segment_ok segs \<Longrightarrow> resolve_segments result segs = result @ segs"
  by (induction result segs rule: resolve_segments.induct) (auto simp: segment_ok_def)

lemma resolve_segments_set: "\<Union> (set ` set (resolve_segments result segs)) \<subseteq> \<Union> (set ` set (result @ segs))"
proof (induction result segs rule: resolve_segments.induct)
  case (2 result segment rest)
  have "set (butlast result) \<subseteq> set result" by (auto dest: in_set_butlastD)
  with 2 show ?case by (auto split: if_split_asm) blast+
qed simp

lemma split_on_join_segments:
  "list_all segment_ok xs \<Longrightarrow> split_on CHR ''/'' (join_segments xs) = [] # xs"
proof (induction xs)
  case (Cons x xs)
  then show ?case
    using split_on_append_free [of "CHR ''/''" x "join_segments xs"] by (simp add: segment_ok_def)
qed simp

lemma collapse_slashes_free:
  "CHR ''/'' \<notin> set x \<Longrightarrow> x \<noteq> [] \<Longrightarrow> collapse_slashes b (x @ y) = x @ collapse_slashes False y"
proof (induction x arbitrary: b)
  case (Cons c x)
  then show ?case by (cases x) auto
qed simp

lemma collapse_slashes_join:
  "list_all segment_ok xs \<Longrightarrow> collapse_slashes False (join_segments xs) = join_segments xs"
  by (induction xs) (auto simp: segment_ok_def collapse_slashes_free)

lemma collapse_slashes_set: "set (collapse_slashes b s) \<subseteq> set s"
  by (induction b s rule: collapse_slashes.induct) auto

text \<open>The shape of every resolved path: the root, or one slash before each proper segment.\<close>

lemma resolve_dot_segments_shape:
  obtains xs where "list_all segment_ok xs" "resolve_dot_segments p = (if xs = [] then ''/'' else join_segments xs)"
    "\<Union> (set ` set xs) \<subseteq> set p"
proof
  let ?xs = "resolve_segments [] (split_on CHR ''/'' p)"
  show "list_all segment_ok ?xs"
    by (rule resolve_segments_ok) (auto simp: list_all_iff dest: split_on_free)
  show "resolve_dot_segments p = (if ?xs = [] then ''/'' else join_segments ?xs)"
    by (simp add: resolve_dot_segments_def flip: join_segments_def)
  show "\<Union> (set ` set ?xs) \<subseteq> set p"
    using resolve_segments_set [of "[]" "split_on CHR ''/'' p"] set_split_on [of _ "CHR ''/''" p] by auto
qed

lemma join_segments_last: "list_all segment_ok xs \<Longrightarrow> xs \<noteq> [] \<Longrightarrow> last (join_segments xs) \<noteq> CHR ''/''"
proof (induction xs)
  case (Cons x xs)
  have "x \<noteq> []" "last x \<noteq> CHR ''/''"
    using Cons.prems(1) last_neq [of "CHR ''/''" x] by (simp_all add: segment_ok_def)
  then show ?case using Cons by (cases "xs = []") simp_all
qed simp

lemma suffix_slash_iff: "suffix ''/'' s \<longleftrightarrow> s \<noteq> [] \<and> last s = CHR ''/''"
  by (cases s rule: rev_cases) (auto simp: suffix_def)

lemma resolve_dot_segments_trim:
  "(if 1 < length (resolve_dot_segments p) \<and> suffix ''/'' (resolve_dot_segments p)
    then take (length (resolve_dot_segments p) - 1) (resolve_dot_segments p)
    else resolve_dot_segments p) = resolve_dot_segments p"
proof -
  obtain xs where "list_all segment_ok xs"
    "resolve_dot_segments p = (if xs = [] then ''/'' else join_segments xs)"
    by (rule resolve_dot_segments_shape)
  then show ?thesis using join_segments_last [of xs] by (simp add: suffix_slash_iff)
qed

lemma hd_split_on: "hd (split_on c s) = takeWhile (\<lambda>x. x \<noteq> c) s"
proof (induction s)
  case (Cons x s)
  then show ?case by (cases "split_on c s") auto
qed simp

definition ascii :: "string \<Rightarrow> bool" where
  "ascii s \<longleftrightarrow> list_all (\<lambda>c. byte_val c < 128) s"

lemma ascii_iff: "ascii s \<longleftrightarrow> \<not> list_ex (\<lambda>c. 127 < byte_val c) s"
  by (auto simp: ascii_def list_all_iff list_ex_iff)

lemma ascii_join_segments: "ascii (join_segments xs) \<longleftrightarrow> list_all ascii xs"
  by (induction xs) (auto simp: ascii_def byte_val_def)

lemma normalize_path_shape:
  assumes "ascii p"
  obtains xs where "list_all segment_ok xs" "list_all ascii xs" "list_all (\<lambda>x. CHR ''#'' \<notin> set x) xs"
    "normalize_path lib p = (if xs = [] then ''/'' else join_segments xs)"
proof -
  let ?q = "collapse_slashes False (hd (split_on CHR ''#'' p))"
  obtain xs where xs: "list_all segment_ok xs"
    and r: "resolve_dot_segments ?q = (if xs = [] then ''/'' else join_segments xs)"
    and sub: "\<Union> (set ` set xs) \<subseteq> set ?q"
    by (rule resolve_dot_segments_shape)
  have q: "set ?q \<subseteq> set p" "CHR ''#'' \<notin> set ?q"
    using collapse_slashes_set [of False "hd (split_on CHR ''#'' p)"] set_takeWhileD [of _ "\<lambda>x. x \<noteq> CHR ''#''" p]
    by (auto simp: hd_split_on)
  have asc: "list_all ascii xs"
    using sub q(1) assms unfolding ascii_def list_all_iff by blast
  have frag: "list_all (\<lambda>x. CHR ''#'' \<notin> set x) xs"
    using sub q(2) unfolding list_all_iff by blast
  have "ascii (resolve_dot_segments ?q)"
    using asc ascii_join_segments [of xs] by (simp add: r) (simp add: ascii_def byte_val_def)
  then have "normalize_path lib p = resolve_dot_segments ?q"
    unfolding normalize_path_def Let_def resolve_dot_segments_trim by (simp add: ascii_iff)
  with xs asc frag r show thesis using that by simp
qed

lemma normalize_path_fix:
  assumes "list_all segment_ok xs" "list_all ascii xs" "list_all (\<lambda>x. CHR ''#'' \<notin> set x) xs" "xs \<noteq> []"
  shows "normalize_path lib (join_segments xs) = join_segments xs"
proof -
  have "CHR ''#'' \<notin> set (join_segments xs)"
    using assms(3) by (induction xs) auto
  then have hd: "hd (split_on CHR ''#'' (join_segments xs)) = join_segments xs"
    by (simp add: split_on_free_single)
  have "resolve_dot_segments (join_segments xs) = join_segments xs"
    using assms(1,4) by (simp add: resolve_dot_segments_def split_on_join_segments resolve_segments_fix
        flip: join_segments_def)
  then show ?thesis
    using assms hd join_segments_last [of xs] ascii_join_segments [of xs]
    by (simp add: normalize_path_def Let_def collapse_slashes_join ascii_iff suffix_slash_iff)
qed

section \<open>What a normalised envelope holds\<close>

lemma normalize_Ok:
  assumes "normalize lib self now request = Ok env"
  obtains host path query res res' rule m cls where
    "normalize_host lib (req_host request) = Some host"
    "path = normalize_path lib (case split_once CHR ''?'' (req_path request) of None \<Rightarrow> req_path request | Some (p, q) \<Rightarrow> p)"
    "find_match (mapping_table self) (req_method request) host path = Matched rule"
    "enrich_github_git_metadata lib request host path query res (rule_action_class rule) = Ok (res', cls)"
    "HttpMethod_try_from (req_method request) = Ok m"
    "intent_action_class (norm_intent env) = cls" "intent_resource (norm_intent env) = res'"
    "intent_params (norm_intent env) =
       Http \<lparr>http_method = m, http_headers = sanitize_headers (req_headers request),
             http_body = req_body request, http_query = query\<rparr>"
    "norm_timestamp env = now" "dom res \<subseteq> {''host'', ''path'', ''provider''}"
proof -
  obtain p q where pq: "(case split_once CHR ''?'' (req_path request) of
      None \<Rightarrow> (req_path request, []) | Some (p, q) \<Rightarrow> (p, q)) = (p, q)" by force
  then have p: "p = (case split_once CHR ''?'' (req_path request) of None \<Rightarrow> req_path request | Some (p, q) \<Rightarrow> p)"
    by (auto split: option.splits)
  from assms show thesis
    unfolding normalize_def Let_def pq prod.case
    by (auto split: option.split_asm prod.split_asm MatchResult.split_asm sum.split_asm if_split_asm
        intro!: that [OF _ _ _ _ _ refl refl] simp: p)
qed

lemma sanitize_headers_clean: "h \<in> set SENSITIVE_HEADERS \<Longrightarrow> \<not> header_contains (sanitize_headers hs) h"
  by (auto simp: sanitize_headers_def header_contains_def)

lemma sanitize_headers_keeps:
  "h \<notin> set SENSITIVE_HEADERS \<Longrightarrow> header_get (sanitize_headers hs) h = header_get hs h"
  by (induction hs) (auto simp: sanitize_headers_def header_get_def)

lemma enrich_class:
  "enrich_github_git_metadata lib request host path query res class = Ok (res', class') \<Longrightarrow>
   class' = class \<or> class' = ''code.destructive''"
  by (auto simp: enrich_github_git_metadata_def enrich_github_smart_http_metadata_def
      enrich_github_rest_ref_metadata_def Let_def
      split: if_split_asm option.split_asm sum.split_asm)

lemma destructive_registered: "registry_contains registry_v0_1 ''code.destructive''"
  by code_simp

lemma find_match_rule: "find_match table m h p = Matched rule \<Longrightarrow> rule \<in> set (table_rules table)"
  using first_match_Matched by (fastforce simp: find_match_def)

section \<open>Properties\<close>

text \<open>
  A normalised ASCII path is canonical: it starts with a slash, none of its segments is empty, a dot
  or a double dot (the root path apart), it carries no fragment, and normalising it again changes nothing.
  So rules, scopes and policies never see a path with unresolved dot segments.
\<close>

theorem normalize_path_canonical:
  assumes "ascii p"
  shows "\<exists>xs. list_all segment_ok xs
      \<and> normalize_path lib p = (if xs = [] then ''/'' else join_segments xs)
      \<and> CHR ''#'' \<notin> set (normalize_path lib p)
      \<and> normalize_path lib (normalize_path lib p) = normalize_path lib p"
proof -
  obtain xs where xs: "list_all segment_ok xs" "list_all ascii xs" "list_all (\<lambda>x. CHR ''#'' \<notin> set x) xs"
    and r: "normalize_path lib p = (if xs = [] then ''/'' else join_segments xs)"
    using normalize_path_shape [OF assms] by metis
  have root: "normalize_path lib ''/'' = ''/''"
    by (simp add: normalize_path_def resolve_dot_segments_def byte_val_def)
  have "CHR ''#'' \<notin> set (join_segments xs)" using xs(3) by (induction xs) auto
  then show ?thesis using xs r root normalize_path_fix [OF xs, of lib] by auto
qed

theorem normalize_path_canonical_witness:
  "\<exists>xs. list_all segment_ok xs
      \<and> normalize_path \<lparr>authority_from_str = Some, form_first = Some, nfc = id, json_from_slice = Inl\<rparr>
          ''/v1//chat/./../admin/#top'' = (if xs = [] then ''/'' else join_segments xs)"
proof -
  have "ascii ''/v1//chat/./../admin/#top''" by code_simp
  from normalize_path_canonical [OF this] show ?thesis by blast
qed



text \<open>
  A GitHub push is classified by its content: if a request to github.com for a receive-pack endpoint
  is accepted, its body was one well-formed ref update, the resource map names that ref and operation,
  and a branch or tag deletion always gets the destructive action class, whatever the mapping rule says.
\<close>

theorem receive_pack_classified:
  assumes "normalize lib self now request = Ok env"
    and "normalize_host lib (req_host request) = Some ''github.com''"
    and "path = normalize_path lib (case split_once CHR ''?'' (req_path request) of None \<Rightarrow> req_path request | Some (p, q) \<Rightarrow> p)"
    and "suffix ''/git-receive-pack'' path" "parse_github_git_repo path = Some repo"
  shows "\<exists>body u. req_body request = Some body \<and> parse_receive_pack_update body = Ok u
    \<and> intent_resource (norm_intent env) ''git_ref'' = Some (update_git_ref u)
    \<and> intent_resource (norm_intent env) ''git_operation'' = Some (update_operation u)
    \<and> (update_operation u = ''delete'' \<longrightarrow> intent_action_class (norm_intent env) = ''code.destructive'')"
  using assms(1)
proof (rule normalize_Ok)
  fix host path' query res res' rule m cls
  assume h: "normalize_host lib (req_host request) = Some host"
    and p: "path' = normalize_path lib (case split_once CHR ''?'' (req_path request) of None \<Rightarrow> req_path request | Some (p, q) \<Rightarrow> p)"
    and e: "enrich_github_git_metadata lib request host path' query res (rule_action_class rule) = Ok (res', cls)"
    and c: "intent_action_class (norm_intent env) = cls" "intent_resource (norm_intent env) = res'"
  have no: "\<not> suffix ''/info/refs'' path" "\<not> suffix ''/git-upload-pack'' path"
    using assms(4) by (auto simp: suffix_def)
  have "enrich_github_smart_http_metadata request path res (rule_action_class rule) = Ok (res', cls)"
    using e h p assms(2,3) by (simp add: enrich_github_git_metadata_def)
  then have "\<exists>body u. req_body request = Some body \<and> parse_receive_pack_update body = Ok u
    \<and> res' ''git_ref'' = Some (update_git_ref u) \<and> res' ''git_operation'' = Some (update_operation u)
    \<and> (update_operation u = ''delete'' \<longrightarrow> cls = ''code.destructive'')"
    using no assms(4,5)
    by (auto simp: enrich_github_smart_http_metadata_def Let_def split: option.split_asm sum.split_asm if_split_asm)
  then show ?thesis by (simp only: c)
qed

theorem receive_pack_classified_witness:
  "\<exists>env. normalize sample_lib (IntentNormalizer_new push_rules) 0 push_request = Ok env
      \<and> intent_resource (norm_intent env) ''git_ref'' = Some ''refs/heads/dev''
      \<and> intent_action_class (norm_intent env) = ''code.destructive''"
proof -
  have "is_ok (normalize sample_lib (IntentNormalizer_new push_rules) 0 push_request)" by code_simp
  then obtain env where env: "normalize sample_lib (IntentNormalizer_new push_rules) 0 push_request = Ok env"
    by (auto simp: is_ok_iff)
  have h: "normalize_host sample_lib (req_host push_request) = Some ''github.com''" by code_simp
  have p: "''/o/r.git/git-receive-pack'' = normalize_path sample_lib (case split_once CHR ''?'' (req_path push_request) of
      None \<Rightarrow> req_path push_request | Some (p, q) \<Rightarrow> p)" by code_simp
  have s: "suffix ''/git-receive-pack'' ''/o/r.git/git-receive-pack''" by code_simp
  have r: "parse_github_git_repo ''/o/r.git/git-receive-pack'' = Some \<lparr>repo_owner = ''o'', repo_name = ''r''\<rparr>"
    by code_simp
  have u: "parse_receive_pack_update (the (req_body push_request)) =
      Ok \<lparr>update_git_ref = ''refs/heads/dev'', update_operation = ''delete''\<rparr>" by code_simp
  show ?thesis using receive_pack_classified [OF env h p s r] env u by auto
qed

section \<open>Percent-encoded dot segments\<close>

text \<open>
  Only literal dots are resolved.  A URL parser that treats a percent-encoded dot pair as a parent
  segment, as the outbound HTTP client's does, sees another path than the one classified here.
\<close>

lemma normalize_path_keeps_encoded_dots:
  "normalize_path lib ''/v1/chat/%2e%2e/admin'' = ''/v1/chat/%2e%2e/admin''"
  by (simp add: normalize_path_def resolve_dot_segments_def byte_val_def Let_def suffix_def)

lemma parse_query_string_keeps_escapes: "parse_query_string ''q=a%20b'' ''q'' = Some ''a%20b''"
  by code_simp

text \<open>Every failure is a denial.\<close>

lemma enrich_Err_deny:
  "enrich_github_git_metadata lib request host path query res cls = Err d \<Longrightarrow> is_deny d"
  unfolding enrich_github_git_metadata_def
  by (auto simp: enrich_github_smart_http_metadata_def enrich_github_rest_ref_metadata_def git_normalization_deny_def
      Let_def split: if_split_asm option.splits sum.splits)

lemma normalize_Err_deny: "normalize lib self now request = Err d \<Longrightarrow> is_deny d"
  unfolding normalize_def
  by (auto simp: Let_def split_beta dest: enrich_Err_deny split: option.splits sum.splits MatchResult.splits)

end
