(* ===== verification/Tokens.thy ===== *)
theory Tokens
  imports Decisions Normalizer
begin

text \<open>
  Capability tokens: resource scopes (\<^verbatim>\<open>firma-core/src/token/mod.rs\<close>) and the PASETO v4 signer and
  verifier (\<^verbatim>\<open>firma-core/src/token/paseto.rs\<close>).

  The pasetors crate, RFC 3339 formatting and the TypeID parsers are parameters, collected in
  \<open>paseto_lib\<close>; what the code relies on is the predicate \<open>paseto_laws\<close>.
\<close>

section \<open>Resource scopes\<close>

definition starts_with_plus_slash :: "string \<Rightarrow> string \<Rightarrow> bool" where
  "starts_with_plus_slash resource scope \<longleftrightarrow>
     length scope < length resource \<and> list_all (\<lambda>(a, b). a = b) (zip resource (scope @ ''/''))"

definition matches_resource_scope :: "string \<Rightarrow> string \<Rightarrow> bool" where
  "matches_resource_scope scope resource =
     (if scope = ''*'' then True
      else case strip_suffix ''/*'' scope of
        Some pre \<Rightarrow> resource = pre \<or> starts_with_plus_slash resource pre
      | None \<Rightarrow> resource = scope \<or> starts_with_plus_slash resource scope)"

section \<open>PASETO tokens\<close>

type_synonym claims_map = "string \<rightharpoonup> json"

record ('sk, 'pk, 'u) paseto_lib =
  claims_new :: "(string, claims_map) result"
  claims_expiration :: "claims_map \<Rightarrow> string \<Rightarrow> (string, claims_map) result"
  claims_issued_at :: "claims_map \<Rightarrow> string \<Rightarrow> (string, claims_map) result"
  claims_add_additional :: "claims_map \<Rightarrow> string \<Rightarrow> json \<Rightarrow> (string, claims_map) result"
  claims_to_string :: "claims_map \<Rightarrow> (string, string) result"
  claims_from_string :: "string \<Rightarrow> (string, claims_map) result"
  public_sign :: "'sk \<Rightarrow> string \<Rightarrow> (string, string) result"
  untrusted_try_from :: "string \<Rightarrow> (string, 'u) result"
  public_verify :: "'pk \<Rightarrow> 'u \<Rightarrow> (string, string) result"
  to_rfc3339 :: "datetime \<Rightarrow> string"
  parse_from_rfc3339 :: "string \<Rightarrow> (string, datetime) result"
  parse_token_id :: "string \<Rightarrow> (string, token_id) result"
  parse_agent_id :: "string \<Rightarrow> (string, agent_id) result"

definition malformed :: "string \<Rightarrow> (string, 'a) result \<Rightarrow> (TokenError, 'a) result" where
  "malformed context r = (case r of Inl e \<Rightarrow> Err (Malformed (context @ '': '' @ e)) | Inr a \<Rightarrow> Ok a)"

text \<open>Serialising a list of strings to a JSON value cannot fail.\<close>

definition build_paseto_claims ::
  "('sk, 'pk, 'u) paseto_lib \<Rightarrow> CapabilityClaims \<Rightarrow> (TokenError, claims_map) result" where
  "build_paseto_claims lib claims =
     and_then (malformed ''claims creation failed'' (claims_new lib)) (\<lambda>pc0.
     and_then (malformed ''set exp'' (claims_expiration lib pc0 (to_rfc3339 lib (claim_expiry claims)))) (\<lambda>pc1.
     and_then (malformed ''set iat'' (claims_issued_at lib pc1 (to_rfc3339 lib (claim_issued_at claims)))) (\<lambda>pc2.
     and_then (malformed ''add token_id''
       (claims_add_additional lib pc2 ''token_id'' (JString (claim_token_id claims)))) (\<lambda>pc3.
     and_then (malformed ''add agent_id''
       (claims_add_additional lib pc3 ''agent_id'' (JString (claim_agent_id claims)))) (\<lambda>pc4.
     and_then (malformed ''add session_id''
       (claims_add_additional lib pc4 ''session_id'' (JString (claim_session_id claims)))) (\<lambda>pc5.
     and_then (malformed ''add context_hash''
       (claims_add_additional lib pc5 ''context_hash'' (JString (claim_context_hash claims)))) (\<lambda>pc6.
     and_then (malformed ''add resource_scope''
       (claims_add_additional lib pc6 ''resource_scope'' (JString (claim_resource_scope claims)))) (\<lambda>pc7.
     malformed ''add action_set''
       (claims_add_additional lib pc7 ''action_set'' (JArray (map JString (claim_action_set claims))))))))))))"

definition PasetoV4Signer_sign ::
  "('sk, 'pk, 'u) paseto_lib \<Rightarrow> 'sk \<Rightarrow> CapabilityClaims \<Rightarrow> (TokenError, string) result" where
  "PasetoV4Signer_sign lib secret_key claims =
     and_then (build_paseto_claims lib claims) (\<lambda>pc.
     and_then (malformed ''claims serialization failed'' (claims_to_string lib pc)) (\<lambda>claims_json.
     malformed ''signing failed'' (public_sign lib secret_key claims_json)))"

definition extract_claim ::
  "(string \<Rightarrow> (string, 'a) result) \<Rightarrow> claims_map \<Rightarrow> string \<Rightarrow> (TokenError, 'a) result" where
  "extract_claim parse claims name =
     and_then (ok_or (Malformed (''missing or invalid claim: '' @ name))
       (Option.bind (claims name) json_as_str)) (\<lambda>s.
     malformed (''invalid '' @ name) (parse s))"

definition json_as_array :: "json \<Rightarrow> json list option" where
  "json_as_array j = (case j of JArray xs \<Rightarrow> Some xs | _ \<Rightarrow> None)"

fun collect_strings :: "string \<Rightarrow> json list \<Rightarrow> (TokenError, string list) result" where
  "collect_strings name [] = Ok []"
| "collect_strings name (v # vs) =
     (case json_as_str v of
        None \<Rightarrow> Err (Malformed (''non-string element in claim: '' @ name))
      | Some s \<Rightarrow> and_then (collect_strings name vs) (\<lambda>ss. Ok (s # ss)))"

definition extract_vec_claim :: "claims_map \<Rightarrow> string \<Rightarrow> (TokenError, string list) result" where
  "extract_vec_claim claims name =
     and_then (ok_or (Malformed (''missing or invalid array claim: '' @ name))
       (Option.bind (claims name) json_as_array)) (collect_strings name)"

definition extract_datetime_claim ::
  "('sk, 'pk, 'u) paseto_lib \<Rightarrow> claims_map \<Rightarrow> string \<Rightarrow> (TokenError, datetime) result" where
  "extract_datetime_claim lib claims name =
     and_then (ok_or (Malformed (''missing or invalid claim: '' @ name))
       (Option.bind (claims name) json_as_str)) (\<lambda>s.
     malformed (''invalid datetime format for '' @ name) (parse_from_rfc3339 lib s))"

primrec InvalidSessionIdError_display :: "InvalidSessionIdError \<Rightarrow> string" where
  "InvalidSessionIdError_display SessionIdEmpty = ''session id must not be empty''"
| "InvalidSessionIdError_display SessionIdInvalidFormat =
     ''session id must be 1'' @ [CHR 0xE2, CHR 0x80, CHR 0x93]
       @ ''128 characters: letters, digits, hyphens, or underscores''"

definition parse_session_id :: "string \<Rightarrow> (string, session_id) result" where
  "parse_session_id s =
     (case session_id_try_from s of Inl e \<Rightarrow> Err (InvalidSessionIdError_display e) | Inr i \<Rightarrow> Ok i)"

text \<open>A plain string parses to itself.\<close>

definition extract_capability_claims ::
  "('sk, 'pk, 'u) paseto_lib \<Rightarrow> claims_map \<Rightarrow> (TokenError, CapabilityClaims) result" where
  "extract_capability_claims lib claims =
     and_then (extract_claim (parse_token_id lib) claims ''token_id'') (\<lambda>token.
     and_then (extract_claim (parse_agent_id lib) claims ''agent_id'') (\<lambda>agent.
     and_then (extract_claim parse_session_id claims ''session_id'') (\<lambda>session.
     and_then (extract_vec_claim claims ''action_set'') (\<lambda>actions.
     and_then (extract_claim Inr claims ''resource_scope'') (\<lambda>scope.
     and_then (extract_datetime_claim lib claims ''iat'') (\<lambda>iat.
     and_then (extract_datetime_claim lib claims ''exp'') (\<lambda>exp.
     and_then (extract_claim Inr claims ''context_hash'') (\<lambda>hash.
     Ok \<lparr>claim_token_id = token, claim_agent_id = agent, claim_session_id = session,
         claim_action_set = actions, claim_resource_scope = scope, claim_issued_at = iat,
         claim_expiry = exp, claim_context_hash = hash\<rparr>))))))))"

record 'pk PasetoV4Verifier =
  verifier_public_key :: 'pk
  verifier_leeway :: int

definition default_leeway :: int where
  "default_leeway = 10 * 1000000000"

definition with_leeway :: "'pk PasetoV4Verifier \<Rightarrow> int \<Rightarrow> 'pk PasetoV4Verifier" where
  "with_leeway self leeway = self\<lparr>verifier_leeway := leeway\<rparr>"

definition PasetoV4Verifier_verify ::
  "('sk, 'pk, 'u) paseto_lib \<Rightarrow> 'pk PasetoV4Verifier \<Rightarrow> datetime \<Rightarrow> string
    \<Rightarrow> (TokenError, CapabilityClaims) result" where
  "PasetoV4Verifier_verify lib self now raw_token =
     and_then (case untrusted_try_from lib raw_token of
                 Inl e \<Rightarrow> Err (ParseFailure (''not a valid PASETO v4 token: '' @ e)) | Inr u \<Rightarrow> Ok u) (\<lambda>untrusted.
     and_then (case public_verify lib (verifier_public_key self) untrusted of
                 Inl e \<Rightarrow> Err (SignatureInvalid (''PASETO signature verification failed: '' @ e))
               | Inr t \<Rightarrow> Ok t) (\<lambda>payload.
     and_then (malformed ''invalid claims payload'' (claims_from_string lib payload)) (\<lambda>claims.
     and_then (extract_capability_claims lib claims) (\<lambda>cc.
     if claim_expiry cc + verifier_leeway self \<le> now then Err (Expired (claim_token_id cc)) else Ok cc))))"

text \<open>
  What the code relies on of its libraries for a token with claims \<open>c\<close>: fresh claims, setting a claim,
  serialising the claims of the token and reading them back, a signature made with one key of a pair
  verifies with the other, and the times of the token print to what they parse from.
\<close>

definition paseto_laws :: "('sk, 'pk, 'u) paseto_lib \<Rightarrow> 'sk \<Rightarrow> 'pk \<Rightarrow> CapabilityClaims \<Rightarrow> bool" where
  "paseto_laws lib sk pk c \<longleftrightarrow>
     (\<exists>c0. claims_new lib = Ok c0)
   \<and> (\<forall>m. claims_expiration lib m (to_rfc3339 lib (claim_expiry c)) =
          Ok (m(''exp'' \<mapsto> JString (to_rfc3339 lib (claim_expiry c)))))
   \<and> (\<forall>m. claims_issued_at lib m (to_rfc3339 lib (claim_issued_at c)) =
          Ok (m(''iat'' \<mapsto> JString (to_rfc3339 lib (claim_issued_at c)))))
   \<and> (\<forall>m k v. k \<notin> {''iss'', ''sub'', ''aud'', ''exp'', ''nbf'', ''iat'', ''jti''} \<longrightarrow>
        claims_add_additional lib m k v = Ok (m(k \<mapsto> v)))
   \<and> (\<forall>pc. build_paseto_claims lib c = Ok pc \<longrightarrow>
        (\<exists>s. claims_to_string lib pc = Ok s \<and> claims_from_string lib s = Ok pc))
   \<and> (\<forall>m. \<exists>tok u. public_sign lib sk m = Ok tok \<and> untrusted_try_from lib tok = Ok u
        \<and> public_verify lib pk u = Ok m)
   \<and> parse_from_rfc3339 lib (to_rfc3339 lib (claim_expiry c)) = Ok (claim_expiry c)
   \<and> parse_from_rfc3339 lib (to_rfc3339 lib (claim_issued_at c)) = Ok (claim_issued_at c)"

section \<open>A concrete token\<close>

text \<open>Libraries that sign by the identity and know one token, enough to run the code.\<close>

definition sample_claims :: CapabilityClaims where
  "sample_claims =
     \<lparr>claim_token_id = ''tok_1'', claim_agent_id = ''agt_1'', claim_session_id = ''ses_1'',
      claim_action_set = [''code.read'', ''document.read''], claim_resource_scope = ''api.x.com/*'',
      claim_issued_at = 0, claim_expiry = 100, claim_context_hash = ''h''\<rparr>"

definition sample_claims_map :: claims_map where
  "sample_claims_map =
     [''exp'' \<mapsto> JString ''100'', ''iat'' \<mapsto> JString ''0'', ''token_id'' \<mapsto> JString ''tok_1'',
      ''agent_id'' \<mapsto> JString ''agt_1'', ''session_id'' \<mapsto> JString ''ses_1'', ''context_hash'' \<mapsto> JString ''h'',
      ''resource_scope'' \<mapsto> JString ''api.x.com/*'',
      ''action_set'' \<mapsto> JArray [JString ''code.read'', JString ''document.read'']]"

definition sample_paseto_lib :: "(unit, unit, string) paseto_lib" where
  "sample_paseto_lib =
     \<lparr>claims_new = Ok Map.empty,
      claims_expiration = (\<lambda>m s. Ok (m(''exp'' \<mapsto> JString s))),
      claims_issued_at = (\<lambda>m s. Ok (m(''iat'' \<mapsto> JString s))),
      claims_add_additional = (\<lambda>m k v. Ok (m(k \<mapsto> v))),
      claims_to_string = (\<lambda>m. Ok ''claims''),
      claims_from_string = (\<lambda>s. Ok sample_claims_map),
      public_sign = (\<lambda>sk m. Ok m),
      untrusted_try_from = Inr,
      public_verify = (\<lambda>pk u. Ok u),
      to_rfc3339 = (\<lambda>t. show_nat (nat t)),
      parse_from_rfc3339 = (\<lambda>s. case parse_uint u64_max s of None \<Rightarrow> Err [] | Some n \<Rightarrow> Ok (int n)),
      parse_token_id = Inr,
      parse_agent_id = Inr\<rparr>"

section \<open>Scopes\<close>

lemma starts_with_plus_slash_iff: "starts_with_plus_slash resource scope \<longleftrightarrow> prefix (scope @ ''/'') resource"
proof (induction scope arbitrary: resource)
  case Nil
  then show ?case by (cases resource) (auto simp: starts_with_plus_slash_def)
next
  case (Cons c scope)
  show ?case
  proof (cases resource)
    case (Cons r rest)
    then show ?thesis using Cons.IH [of rest] by (auto simp: starts_with_plus_slash_def)
  qed (simp add: starts_with_plus_slash_def)
qed

text \<open>The resource prefix a scope other than the wildcard stands for.\<close>

definition scope_base :: "string \<Rightarrow> string" where
  "scope_base scope = unwrap_or scope (strip_suffix ''/*'' scope)"

lemma matches_resource_scope_iff:
  "matches_resource_scope scope resource \<longleftrightarrow>
     scope = ''*'' \<or> resource = scope_base scope \<or> prefix (scope_base scope @ ''/'') resource"
  by (cases "strip_suffix ''/*'' scope")
    (auto simp: matches_resource_scope_def scope_base_def starts_with_plus_slash_iff)

section \<open>Round trip\<close>

lemma malformed_Ok [simp]: "malformed ctx (Inr a) = Inr a"
  by (simp add: malformed_def)

lemma collect_strings_map [simp]: "collect_strings name (map JString ss) = Ok ss"
  by (induction ss) (simp_all add: json_as_str_def)

lemma paseto_laws_parts:
  assumes "paseto_laws lib sk pk c"
  shows "\<exists>c0. claims_new lib = Ok c0"
    "\<forall>m. claims_expiration lib m (to_rfc3339 lib (claim_expiry c)) =
          Ok (m(''exp'' \<mapsto> JString (to_rfc3339 lib (claim_expiry c))))"
    "\<forall>m. claims_issued_at lib m (to_rfc3339 lib (claim_issued_at c)) =
          Ok (m(''iat'' \<mapsto> JString (to_rfc3339 lib (claim_issued_at c))))"
    "\<forall>m k v. k \<notin> {''iss'', ''sub'', ''aud'', ''exp'', ''nbf'', ''iat'', ''jti''} \<longrightarrow>
        claims_add_additional lib m k v = Ok (m(k \<mapsto> v))"
    "\<forall>pc. build_paseto_claims lib c = Ok pc \<longrightarrow>
        (\<exists>s. claims_to_string lib pc = Ok s \<and> claims_from_string lib s = Ok pc)"
    "\<forall>m. \<exists>tok u. public_sign lib sk m = Ok tok \<and> untrusted_try_from lib tok = Ok u
        \<and> public_verify lib pk u = Ok m"
    "parse_from_rfc3339 lib (to_rfc3339 lib (claim_expiry c)) = Ok (claim_expiry c)"
    "parse_from_rfc3339 lib (to_rfc3339 lib (claim_issued_at c)) = Ok (claim_issued_at c)"
  using assms unfolding paseto_laws_def by - (elim conjE, assumption)+

lemma build_extract:
  assumes "paseto_laws lib sk pk c"
    and "parse_token_id lib (claim_token_id c) = Ok (claim_token_id c)"
    and "parse_agent_id lib (claim_agent_id c) = Ok (claim_agent_id c)"
    and "session_id_try_from (claim_session_id c) = Ok (claim_session_id c)"
  shows "\<exists>pc. build_paseto_claims lib c = Ok pc \<and> extract_capability_claims lib pc = Ok c"
proof -
  note laws = paseto_laws_parts [OF assms(1)]
  obtain c0 where new: "claims_new lib = Ok c0" using laws(1) by (elim exE)
  note exp = laws(2) [rule_format] and iat = laws(3) [rule_format] and rfc = laws(7,8)
    and add = laws(4) [rule_format]
  let ?pc = "c0(''exp'' \<mapsto> JString (to_rfc3339 lib (claim_expiry c)),
      ''iat'' \<mapsto> JString (to_rfc3339 lib (claim_issued_at c)),
      ''token_id'' \<mapsto> JString (claim_token_id c), ''agent_id'' \<mapsto> JString (claim_agent_id c),
      ''session_id'' \<mapsto> JString (claim_session_id c), ''context_hash'' \<mapsto> JString (claim_context_hash c),
      ''resource_scope'' \<mapsto> JString (claim_resource_scope c),
      ''action_set'' \<mapsto> JArray (map JString (claim_action_set c)))"
  have "build_paseto_claims lib c = Ok ?pc"
    by (simp add: build_paseto_claims_def new exp iat add)
  moreover have "extract_capability_claims lib ?pc = Ok c"
    by (simp add: extract_capability_claims_def extract_claim_def extract_vec_claim_def
        extract_datetime_claim_def parse_session_id_def json_as_str_def json_as_array_def assms rfc)
  ultimately show ?thesis by blast
qed

lemma sign_verify:
  assumes "paseto_laws lib sk pk c"
    and "parse_token_id lib (claim_token_id c) = Ok (claim_token_id c)"
    and "parse_agent_id lib (claim_agent_id c) = Ok (claim_agent_id c)"
    and "session_id_try_from (claim_session_id c) = Ok (claim_session_id c)"
    and "verifier_public_key self = pk"
  shows "\<exists>tok. PasetoV4Signer_sign lib sk c = Ok tok \<and>
    PasetoV4Verifier_verify lib self now tok =
      (if claim_expiry c + verifier_leeway self \<le> now then Err (Expired (claim_token_id c)) else Ok c)"
proof -
  obtain pc where pc: "build_paseto_claims lib c = Ok pc" "extract_capability_claims lib pc = Ok c"
    using build_extract [OF assms(1-4)] by blast
  obtain s where s: "claims_to_string lib pc = Ok s" "claims_from_string lib s = Ok pc"
    using paseto_laws_parts(5) [OF assms(1)] pc(1) by blast
  obtain tok u where tok: "public_sign lib sk s = Ok tok" "untrusted_try_from lib tok = Ok u"
      "public_verify lib pk u = Ok s"
    using paseto_laws_parts(6) [OF assms(1)] by blast
  show ?thesis
    using pc s tok assms(5) by (simp add: PasetoV4Signer_sign_def PasetoV4Verifier_verify_def)
qed

lemma verify_Ok:
  assumes "PasetoV4Verifier_verify lib self now raw = Ok c"
  shows "now < claim_expiry c + verifier_leeway self"
    "\<exists>u m. untrusted_try_from lib raw = Ok u \<and> public_verify lib (verifier_public_key self) u = Ok m"
proof -
  obtain u where u: "untrusted_try_from lib raw = Ok u"
    using assms by (cases "untrusted_try_from lib raw") (auto simp: PasetoV4Verifier_verify_def)
  obtain m where m: "public_verify lib (verifier_public_key self) u = Ok m"
    using assms u by (cases "public_verify lib (verifier_public_key self) u") (auto simp: PasetoV4Verifier_verify_def)
  show "\<exists>u m. untrusted_try_from lib raw = Ok u \<and> public_verify lib (verifier_public_key self) u = Ok m"
    using u m by blast
  show "now < claim_expiry c + verifier_leeway self"
    using assms u m
    by (cases "claims_from_string lib m"; cases "extract_capability_claims lib (projr (claims_from_string lib m))")
      (auto simp: PasetoV4Verifier_verify_def malformed_def split: if_split_asm)
qed

section \<open>Properties\<close>

text \<open>
  A scope other than the wildcard covers exactly the resource it names and what lies below it at a
  path-segment boundary: a scope for a host never covers a host that merely starts with the same text.
\<close>

theorem scope_covers_segments:
  "matches_resource_scope scope resource \<longleftrightarrow>
     scope = ''*'' \<or> resource = scope_base scope \<or> prefix (scope_base scope @ ''/'') resource"
  by (rule matches_resource_scope_iff)

text \<open>
  Signing and verifying are inverse: for claims whose identifiers are well formed, the signer
  produces a token, and the verifier with the matching key returns exactly the signed claims while the
  expiry plus the leeway lies in the future, and reports the token as expired from then on.
\<close>

theorem sign_verify_roundtrip:
  assumes "paseto_laws lib sk pk c"
    and "parse_token_id lib (claim_token_id c) = Ok (claim_token_id c)"
    and "parse_agent_id lib (claim_agent_id c) = Ok (claim_agent_id c)"
    and "session_id_try_from (claim_session_id c) = Ok (claim_session_id c)"
    and "verifier_public_key self = pk"
  shows "\<exists>tok. PasetoV4Signer_sign lib sk c = Ok tok \<and>
    PasetoV4Verifier_verify lib self now tok =
      (if claim_expiry c + verifier_leeway self \<le> now then Err (Expired (claim_token_id c)) else Ok c)"
  using assms by (rule sign_verify)

lemma sample_paseto_laws: "paseto_laws sample_paseto_lib () () sample_claims"
proof -
  have times: "show_nat 0 = ''0''" "show_nat 100 = ''100''" by code_simp+
  have "build_paseto_claims sample_paseto_lib sample_claims = Ok sample_claims_map"
    by (simp add: build_paseto_claims_def sample_paseto_lib_def sample_claims_def sample_claims_map_def times)
  moreover have "parse_uint u64_max ''100'' = Some 100" "parse_uint u64_max ''0'' = Some 0" by code_simp+
  ultimately show ?thesis
    unfolding paseto_laws_def by (simp add: sample_paseto_lib_def sample_claims_def times)
qed

theorem sign_verify_roundtrip_witness:
  "\<exists>tok. PasetoV4Signer_sign sample_paseto_lib () sample_claims = Ok tok \<and>
     PasetoV4Verifier_verify sample_paseto_lib \<lparr>verifier_public_key = (), verifier_leeway = default_leeway\<rparr> 50 tok =
       Ok sample_claims"
proof -
  have "session_id_try_from (claim_session_id sample_claims) = Ok (claim_session_id sample_claims)" by code_simp
  from sign_verify_roundtrip [OF sample_paseto_laws _ _ this,
      of "\<lparr>verifier_public_key = (), verifier_leeway = default_leeway\<rparr>" 50]
  show ?thesis by (simp add: sample_paseto_lib_def sample_claims_def default_leeway_def)
qed

text \<open>A trailing star without a slash is an ordinary byte of a scope.\<close>

lemma scope_star_suffix_literal: "\<not> matches_resource_scope ''wttr.in*'' ''wttr.in/Rome''"
  by code_simp

end
