(* ===== verification/Constraint_Enforcement.thy ===== *)
theory Constraint_Enforcement
  imports Session_State Tokens
begin

text \<open>
  Stage 2 (\<^verbatim>\<open>firma-sidecar/src/enforcement/constraint_enforcement.rs\<close>): the scope check, the gates on
  the policy bundle, the policy context and the evaluation with and without a time limit. A policy
  engine is a trait object, so it is a record of functions; the JSON encoder and the debug format of
  a list of strings are parameters.
\<close>

datatype PolicyVerdict =
    VerdictAllow
  | VerdictDeny
  | VerdictModify ModificationSpec
  | VerdictStepUp StepUpSpec
  | VerdictDefer nat

text \<open>The methods of \<^verbatim>\<open>PolicyEvaluation\<close>; freshness depends on the clock.\<close>

record PolicyEvaluation =
  policy_evaluate_verdict :: "agent_id \<Rightarrow> string \<Rightarrow> string \<Rightarrow> json \<Rightarrow> (string, PolicyVerdict) result"
  policy_is_fresh :: "datetime \<Rightarrow> bool"
  policy_is_available :: bool
  policy_version :: "string option"

text \<open>The default \<^verbatim>\<open>evaluate_verdict\<close> of an engine that only answers yes or no.\<close>

definition default_evaluate_verdict ::
  "(agent_id \<Rightarrow> string \<Rightarrow> string \<Rightarrow> json \<Rightarrow> (string, bool) result) \<Rightarrow> agent_id \<Rightarrow> string \<Rightarrow> string \<Rightarrow> json
    \<Rightarrow> (string, PolicyVerdict) result" where
  "default_evaluate_verdict evaluate agent action resource context =
     and_then (evaluate agent action resource context) (\<lambda>allowed.
       Ok (if allowed then VerdictAllow else VerdictDeny))"

record enforcer_lib =
  params_to_string :: "ActionParams \<Rightarrow> (string, string) result"
  debug_strings :: "string list \<Rightarrow> string"

section \<open>Scope\<close>

definition quoted :: "string \<Rightarrow> string" where
  "quoted s = CHR 0x27 # s @ [CHR 0x27]"

definition check_scope ::
  "enforcer_lib \<Rightarrow> NormalizedEnvelope \<Rightarrow> CapabilityClaims \<Rightarrow> (EnforcementDecision, unit) result" where
  "check_scope lib envelope claims =
     (let action = intent_action_class (norm_intent envelope);
          resource = policy_resource_display (norm_intent envelope);
          out_of_scope = Deny ScopeViolation (ConstraintEnforcement ScopeCheck)
            (''resource '' @ quoted resource @ '' not in token'' @ CHR 0x27 # ''s scope ''
               @ quoted (claim_resource_scope claims)) (Some envelope) None
      in if ''*'' \<in> set (claim_action_set claims)
         then (if matches_resource_scope (claim_resource_scope claims) resource then Ok () else Err out_of_scope)
         else if action \<in> set (claim_action_set claims)
         then (if matches_resource_scope (claim_resource_scope claims) resource then Ok () else Err out_of_scope)
         else Err (Deny ScopeViolation (ConstraintEnforcement ScopeCheck)
            (''action '' @ quoted action @ '' not in token'' @ CHR 0x27 # ''s allowed set: ''
               @ debug_strings lib (claim_action_set claims)) (Some envelope) None))"

section \<open>The policy context\<close>

type_synonym json_map = "(string \<times> json) list"

definition context_insert :: "json_map \<Rightarrow> string \<Rightarrow> json \<Rightarrow> json_map" where
  "context_insert context k v = filter (\<lambda>e. fst e \<noteq> k) context @ [(k, v)]"

text \<open>Each class once, in the order of its first appearance.\<close>

fun first_seen :: "string list \<Rightarrow> string set \<Rightarrow> string list" where
  "first_seen [] seen = []"
| "first_seen (c # cs) seen =
     (if c \<in> seen then first_seen cs seen else c # first_seen cs (insert c seen))"

definition fail_closed_policy :: "NormalizedEnvelope \<Rightarrow> string \<Rightarrow> EnforcementDecision" where
  "fail_closed_policy envelope detail =
     Deny FailClosed (ConstraintEnforcement PolicyEvaluation) detail (Some envelope) None"

definition invalid_composio_batch :: "NormalizedEnvelope \<Rightarrow> EnforcementDecision" where
  "invalid_composio_batch envelope =
     fail_closed_policy envelope ''invalid Composio batch context; failing closed''"

definition composio_keys :: "string list" where
  "composio_keys =
     [''composio_toolkit'', ''composio_tool_slug'', ''composio_user_id'', ''composio_account'',
      ''composio_session_id'']"

definition nonempty_value :: "(string \<rightharpoonup> string) \<Rightarrow> string \<Rightarrow> string option" where
  "nonempty_value resource key =
     (case resource key of Some value \<Rightarrow> if value \<noteq> [] then Some value else None | None \<Rightarrow> None)"

definition insert_composio_context ::
  "json_map \<Rightarrow> NormalizedEnvelope \<Rightarrow> (EnforcementDecision, json_map) result" where
  "insert_composio_context context envelope =
     (let resource = intent_resource (norm_intent envelope);
          context1 = fold (\<lambda>key c. case nonempty_value resource key of
                             Some value \<Rightarrow> context_insert c key (JString value)
                           | None \<Rightarrow> c) composio_keys context
      in case (resource ''composio_batch_index'', resource ''composio_batch_size'') of
           (None, None) \<Rightarrow> Ok context1
         | (Some index, Some count) \<Rightarrow>
             (case (parse_uint u32_max index, parse_uint u32_max count) of
                (Some i, Some n) \<Rightarrow>
                  if n = 0 \<or> 50 < n \<or> n \<le> i then Err (invalid_composio_batch envelope)
                  else Ok (context_insert (context_insert context1 ''composio_batch_index'' (JInt (int i)))
                             ''composio_batch_size'' (JInt (int n)))
              | _ \<Rightarrow> Err (invalid_composio_batch envelope))
         | _ \<Rightarrow> Err (invalid_composio_batch envelope))"

definition git_context_keys :: "string list" where
  "git_context_keys =
     [''git_provider'', ''git_owner'', ''git_repo'', ''git_ref'', ''git_ref_type'', ''git_operation'']"

text \<open>The entries every request has, in the order they are inserted.\<close>

definition base_context :: "string \<Rightarrow> NormalizedEnvelope \<Rightarrow> CapabilityClaims \<Rightarrow> RuntimeSignals \<Rightarrow> json_map" where
  "base_context params envelope claims sg =
     (let session_duration_s = max 0 (num_seconds (norm_timestamp envelope - claim_issued_at claims));
          timestamp_ms = timestamp_millis (norm_timestamp envelope);
          prior_action_classes = first_seen (map ao_action_class (sig_history sg)) {};
          last_resource = (if sig_history sg = [] then [] else ao_resource (last (sig_history sg)))
      in [(''session_id'', JString (claim_session_id claims)),
          (''timestamp_ms'', JInt timestamp_ms),
          (''params'', JString params),
          (''risk_score'', JInt (risk_score_long sg)),
          (''budget_remaining'', JInt i64_max),
          (''session_duration_s'', JInt session_duration_s),
          (''action_count'', JInt (min i64_max (int (sig_action_count sg)))),
          (''raw_transport'', JString (intent_raw_transport (norm_intent envelope))),
          (''transfer_amount'', JInt 0),
          (''daily_cumulative_amount'', JInt 0),
          (''transfers_last_10m'', JInt 0),
          (''same_payee_count_30m'', JInt 0),
          (''session_transfer_count'', JInt 0),
          (''deny_count'', JInt (min i64_max (int (sig_deny_count sg)))),
          (''prior_action_classes'', JArray (map JString prior_action_classes)),
          (''last_resource'', JString last_resource)])"

definition build_context ::
  "enforcer_lib \<Rightarrow> NormalizedEnvelope \<Rightarrow> CapabilityClaims \<Rightarrow> RuntimeSignals
    \<Rightarrow> (EnforcementDecision, json) result" where
  "build_context lib envelope claims sg =
     (let intent = norm_intent envelope in
      case params_to_string lib (intent_params intent) of
        Inl err \<Rightarrow> Err (fail_closed_policy envelope
                    (''failed to serialize intent params; failing closed: '' @ err))
      | Inr params \<Rightarrow>
          let context = fold (\<lambda>(k, v) c. context_insert c k v) (base_context params envelope claims sg) [];
              context1 = fold (\<lambda>key c. case intent_resource intent key of
                           Some value \<Rightarrow> context_insert c key (JString value) | None \<Rightarrow> c) git_context_keys context
          in and_then (insert_composio_context context1 envelope) (\<lambda>context2. Ok (JObject context2)))"

section \<open>Evaluation\<close>

definition policy_denied :: "NormalizedEnvelope \<Rightarrow> EnforcementDecision" where
  "policy_denied envelope =
     Deny PolicyDenied (ConstraintEnforcement PolicyEvaluation)
       (''policy denied action '' @ quoted (intent_action_class (norm_intent envelope)) @ '' on resource ''
          @ quoted (policy_resource_display (norm_intent envelope))) (Some envelope) None"

text \<open>The end of both evaluations: an engine error or a denial is a denial, everything else the verdict.\<close>

definition finish_verdict ::
  "NormalizedEnvelope \<Rightarrow> (string, PolicyVerdict) result \<Rightarrow> (EnforcementDecision, PolicyVerdict) result" where
  "finish_verdict envelope r =
     (case r of
        Inl err \<Rightarrow> Err (fail_closed_policy envelope (''policy evaluation failed; failing closed: '' @ err))
      | Inr verdict \<Rightarrow> if verdict = VerdictDeny then Err (policy_denied envelope) else Ok verdict)"

definition evaluate ::
  "enforcer_lib \<Rightarrow> PolicyEvaluation \<Rightarrow> datetime \<Rightarrow> NormalizedEnvelope \<Rightarrow> CapabilityClaims \<Rightarrow> RuntimeSignals
    \<Rightarrow> (EnforcementDecision, PolicyVerdict) result" where
  "evaluate lib policy now envelope claims sg =
     and_then (check_scope lib envelope claims) (\<lambda>_.
     if \<not> policy_is_available policy
     then Err (Deny FailClosed (ConstraintEnforcement BundleFreshness)
            ''policy bundle unavailable; failing closed'' (Some envelope) None)
     else if \<not> policy_is_fresh policy now
     then Err (Deny PolicyBundleStale (ConstraintEnforcement BundleFreshness)
            ''policy bundle unavailable or stale'' (Some envelope) None)
     else
       and_then (build_context lib envelope claims sg) (\<lambda>context.
       finish_verdict envelope
         (policy_evaluate_verdict policy (claim_agent_id claims) (intent_action_class (norm_intent envelope))
            (policy_resource_display (norm_intent envelope)) context)))"

text \<open>How the blocking task ends: it returns in time, the timer fires first, or it cannot be joined.\<close>

datatype task_end = TaskReturns | TaskTimesOut | TaskFails string

definition evaluate_with_timeout ::
  "enforcer_lib \<Rightarrow> PolicyEvaluation \<Rightarrow> datetime \<Rightarrow> task_end \<Rightarrow> NormalizedEnvelope \<Rightarrow> CapabilityClaims \<Rightarrow> RuntimeSignals
    \<Rightarrow> nat \<Rightarrow> (EnforcementDecision, PolicyVerdict) result" where
  "evaluate_with_timeout lib policy now task envelope claims sg timeout =
     and_then (check_scope lib envelope claims) (\<lambda>_.
     if \<not> policy_is_available policy
     then Err (Deny FailClosed (ConstraintEnforcement BundleFreshness)
            ''policy bundle unavailable; failing closed'' (Some envelope) None)
     else if \<not> policy_is_fresh policy now
     then Err (Deny PolicyBundleStale (ConstraintEnforcement BundleFreshness)
            ''policy bundle unavailable or stale'' (Some envelope) None)
     else
       and_then (build_context lib envelope claims sg) (\<lambda>context.
       case task of
         TaskTimesOut \<Rightarrow>
           Err (Deny EnforcementTimeout (ConstraintEnforcement PolicyEvaluation)
             (''stage 2 policy evaluation timed out after '' @ show_nat (timeout div 1000000) @ '' ms'')
             (Some envelope) None)
       | TaskFails join_err \<Rightarrow>
           Err (fail_closed_policy envelope (''policy evaluation task failed; failing closed: '' @ join_err))
       | TaskReturns \<Rightarrow>
           finish_verdict envelope
             (policy_evaluate_verdict policy (claim_agent_id claims) (intent_action_class (norm_intent envelope))
                (policy_resource_display (norm_intent envelope)) context)))"

section \<open>Facts\<close>

text \<open>The token covers the request.\<close>

definition in_scope :: "NormalizedEnvelope \<Rightarrow> CapabilityClaims \<Rightarrow> bool" where
  "in_scope envelope claims \<longleftrightarrow>
     (''*'' \<in> set (claim_action_set claims)
       \<or> intent_action_class (norm_intent envelope) \<in> set (claim_action_set claims))
   \<and> matches_resource_scope (claim_resource_scope claims) (policy_resource_display (norm_intent envelope))"

lemma check_scope_Ok: "check_scope lib envelope claims = Ok () \<longleftrightarrow> in_scope envelope claims"
  by (simp add: check_scope_def in_scope_def Let_def)

lemma check_scope_Err: "check_scope lib envelope claims = Err d \<Longrightarrow> is_deny d"
  by (auto simp: check_scope_def Let_def split: if_splits)

lemma build_context_Err: "build_context lib envelope claims sg = Err d \<Longrightarrow> is_deny d"
  by (auto simp: build_context_def insert_composio_context_def invalid_composio_batch_def fail_closed_policy_def
      Let_def and_then_Err split: sum.splits option.splits if_splits prod.splits)

lemma evaluate_with_timeout_returns:
  "evaluate_with_timeout lib policy now TaskReturns envelope claims sg timeout =
     evaluate lib policy now envelope claims sg"
  by (simp add: evaluate_with_timeout_def evaluate_def)

lemma finish_verdict_Ok: "finish_verdict envelope r = Ok v \<longleftrightarrow> r = Ok v \<and> v \<noteq> VerdictDeny"
  by (auto simp: finish_verdict_def split: sum.split)

lemma finish_verdict_Err: "finish_verdict envelope r = Err d \<Longrightarrow> is_deny d"
  by (auto simp: finish_verdict_def fail_closed_policy_def policy_denied_def split: sum.splits if_splits)

lemma evaluate_with_timeout_Err:
  "evaluate_with_timeout lib policy now task envelope claims sg timeout = Err d \<Longrightarrow> is_deny d"
  by (cases task; auto simp: evaluate_with_timeout_def and_then_Err fail_closed_policy_def
      dest: check_scope_Err build_context_Err finish_verdict_Err split: if_split_asm)

lemma evaluate_with_timeout_Ok:
  assumes "evaluate_with_timeout lib policy now task envelope claims sg timeout = Ok verdict"
  obtains ctx where "task = TaskReturns" "in_scope envelope claims" "policy_is_available policy"
    "policy_is_fresh policy now" "verdict \<noteq> VerdictDeny"
    "build_context lib envelope claims sg = Ok ctx"
    "policy_evaluate_verdict policy (claim_agent_id claims) (intent_action_class (norm_intent envelope))
       (policy_resource_display (norm_intent envelope)) ctx = Ok verdict"
  using assms
  by (cases task; auto simp: evaluate_with_timeout_def and_then_Ok check_scope_Ok finish_verdict_Ok split: if_split_asm)

subsection \<open>The context\<close>

lemma context_insert_keys: "set (map fst (context_insert c k v)) = insert k (set (map fst c))"
  by (auto simp: context_insert_def)

lemma context_insert_distinct: "distinct (map fst c) \<Longrightarrow> distinct (map fst (context_insert c k v))"
  by (auto simp: context_insert_def distinct_map filter_map inj_on_def)

lemma map_of_filter_key: "map_of (filter (\<lambda>e. fst e \<noteq> k) c) k' = (if k' = k then None else map_of c k')"
  by (induction c) auto

lemma map_of_context_insert: "map_of (context_insert c k v) k' = (if k' = k then Some v else map_of c k')"
  by (auto simp: context_insert_def map_of_filter_key map_add_def split: option.splits)

text \<open>A run of optional insertions under a fixed list of keys.\<close>

lemma fold_insert_lookup:
  "map_of (fold (\<lambda>key c. case f key of Some v \<Rightarrow> context_insert c key (g v) | None \<Rightarrow> c) keys c) k =
     (if k \<in> set keys \<and> f k \<noteq> None then Some (g (the (f k))) else map_of c k)"
  by (induction keys arbitrary: c) (auto simp: map_of_context_insert split: option.splits)

lemma fold_insert_distinct:
  "distinct (map fst c) \<Longrightarrow>
     distinct (map fst (fold (\<lambda>key c. case f key of Some v \<Rightarrow> context_insert c key (g v) | None \<Rightarrow> c) keys c))"
  by (induction keys arbitrary: c) (auto simp: context_insert_distinct split: option.splits)

lemma first_seen_set: "set (first_seen xs seen) = set xs - seen"
  by (induction xs seen rule: first_seen.induct) auto

lemma first_seen_distinct: "distinct (first_seen xs seen)"
  by (induction xs seen rule: first_seen.induct) (auto simp: first_seen_set)

lemma fold_fresh_inserts:
  "distinct (map fst c @ map fst kvs) \<Longrightarrow> fold (\<lambda>(k, v) c. context_insert c k v) kvs c = c @ kvs"
proof (induction kvs arbitrary: c)
  case (Cons kv kvs)
  obtain k v where kv: "kv = (k, v)" by (cases kv)
  have "\<forall>e \<in> set c. fst e \<noteq> k" using Cons.prems kv by auto
  then have "context_insert c k v = c @ [(k, v)]" by (simp add: context_insert_def filter_id_conv)
  then show ?case using Cons kv by simp
qed simp

lemma base_context_keys:
  "map fst (base_context params envelope claims sg) =
     [''session_id'', ''timestamp_ms'', ''params'', ''risk_score'', ''budget_remaining'', ''session_duration_s'',
      ''action_count'', ''raw_transport'', ''transfer_amount'', ''daily_cumulative_amount'', ''transfers_last_10m'',
      ''same_payee_count_30m'', ''session_transfer_count'', ''deny_count'', ''prior_action_classes'', ''last_resource'']"
  by (simp add: base_context_def Let_def)

lemma base_context_fold:
  "fold (\<lambda>(k, v) c. context_insert c k v) (base_context params envelope claims sg) [] =
     base_context params envelope claims sg"
  using fold_fresh_inserts [of "[]" "base_context params envelope claims sg"]
  by (simp add: base_context_keys)

lemma insert_composio_lookup:
  assumes "insert_composio_context c envelope = Ok c'"
    and "k \<notin> set composio_keys" "k \<noteq> ''composio_batch_index''" "k \<noteq> ''composio_batch_size''"
  shows "map_of c' k = map_of c k"
  using assms
  by (auto simp: insert_composio_context_def Let_def map_of_context_insert fold_insert_lookup
      split: option.splits if_splits)

lemma insert_composio_distinct:
  "insert_composio_context c envelope = Ok c' \<Longrightarrow> distinct (map fst c) \<Longrightarrow> distinct (map fst c')"
  by (auto simp: insert_composio_context_def Let_def fold_insert_distinct
      intro!: context_insert_distinct split: option.splits if_splits)

lemma insert_composio_batch:
  assumes "insert_composio_context c envelope = Ok c'"
    and "map_of c ''composio_batch_index'' = None"
    and "map_of c' ''composio_batch_index'' = Some (JInt i)" and "map_of c' ''composio_batch_size'' = Some (JInt n)"
  shows "0 \<le> i \<and> i < n \<and> n \<le> 50"
proof -
  have "''composio_batch_index'' \<notin> set composio_keys" "''composio_batch_size'' \<notin> set composio_keys"
    by (simp_all add: composio_keys_def)
  then show ?thesis using assms
    by (auto simp: insert_composio_context_def Let_def map_of_context_insert fold_insert_lookup
        split: option.splits if_splits)
qed

lemma build_context_parts:
  assumes "build_context lib envelope claims sg = Ok context"
  obtains params kvs where "params_to_string lib (intent_params (norm_intent envelope)) = Ok params"
    "context = JObject kvs"
    "insert_composio_context (fold (\<lambda>key c. case intent_resource (norm_intent envelope) key of
        Some value \<Rightarrow> context_insert c key (JString value) | None \<Rightarrow> c) git_context_keys
        (base_context params envelope claims sg)) envelope = Ok kvs"
  using assms by (auto simp: build_context_def Let_def base_context_fold and_then_Ok split: sum.splits)

lemma base_context_lookup:
  "map_of (base_context params envelope claims sg) ''session_id'' = Some (JString (claim_session_id claims))"
  "map_of (base_context params envelope claims sg) ''risk_score'' = Some (JInt (risk_score_long sg))"
  "map_of (base_context params envelope claims sg) ''action_count'' = Some (JInt (min i64_max (int (sig_action_count sg))))"
  "map_of (base_context params envelope claims sg) ''deny_count'' = Some (JInt (min i64_max (int (sig_deny_count sg))))"
  "map_of (base_context params envelope claims sg) ''prior_action_classes'' =
     Some (JArray (map JString (first_seen (map ao_action_class (sig_history sg)) {})))"
  by (simp_all add: base_context_def Let_def)

lemma git_keys_fresh:
  "k \<in> set git_context_keys \<Longrightarrow> k \<notin> set composio_keys"
  "k \<in> set git_context_keys \<Longrightarrow> k \<noteq> ''composio_batch_index''"
  "k \<in> set git_context_keys \<Longrightarrow> k \<noteq> ''composio_batch_size''"
  "k \<in> set git_context_keys \<Longrightarrow> k \<notin> fst ` set (base_context params envelope claims sg)"
  unfolding set_map [symmetric] base_context_keys by (auto simp: git_context_keys_def composio_keys_def)

text \<open>
  C29. The policy context says what the state says and nothing the agent supplies can overwrite it: the
  context is an object without duplicate keys whose risk score, counters (clamped to a signed 64-bit
  integer), history and session id are those of the signals and the verified claims; the git attributes
  are exactly those of the normalised resource; a batch position is inside a batch of at most fifty.
\<close>

theorem build_context_faithful:
  assumes "build_context lib envelope claims sg = Ok context"
  shows "\<exists>kvs classes. context = JObject kvs \<and> distinct (map fst kvs)
    \<and> map_of kvs ''session_id'' = Some (JString (claim_session_id claims))
    \<and> map_of kvs ''risk_score'' = Some (JInt (risk_score_long sg))
    \<and> map_of kvs ''action_count'' = Some (JInt (min i64_max (int (sig_action_count sg))))
    \<and> map_of kvs ''deny_count'' = Some (JInt (min i64_max (int (sig_deny_count sg))))
    \<and> map_of kvs ''prior_action_classes'' = Some (JArray (map JString classes))
    \<and> distinct classes \<and> set classes = ao_action_class ` set (sig_history sg)
    \<and> (\<forall>k \<in> set git_context_keys. map_of kvs k = map_option JString (intent_resource (norm_intent envelope) k))
    \<and> (\<forall>i n. map_of kvs ''composio_batch_index'' = Some (JInt i) \<and> map_of kvs ''composio_batch_size'' = Some (JInt n)
          \<longrightarrow> 0 \<le> i \<and> i < n \<and> n \<le> 50)"
proof -
  let ?git = "\<lambda>c. fold (\<lambda>key c. case intent_resource (norm_intent envelope) key of
        Some value \<Rightarrow> context_insert c key (JString value) | None \<Rightarrow> c) git_context_keys c"
  let ?classes = "first_seen (map ao_action_class (sig_history sg)) {}"
  obtain params kvs where k: "context = JObject kvs"
      "insert_composio_context (?git (base_context params envelope claims sg)) envelope = Ok kvs"
    using assms by (elim build_context_parts)
  let ?base = "base_context params envelope claims sg"
  have get: "map_of kvs k = map_of (?git ?base) k"
    if "k \<notin> set composio_keys" "k \<noteq> ''composio_batch_index''" "k \<noteq> ''composio_batch_size''" for k
    using insert_composio_lookup [OF k(2) that] .
  have get_base: "map_of kvs k = map_of ?base k" if "k \<notin> set composio_keys" "k \<noteq> ''composio_batch_index''"
      "k \<noteq> ''composio_batch_size''" "k \<notin> set git_context_keys" for k
    using get [OF that(1-3)] that(4) by (simp add: fold_insert_lookup)
  have lookup: "map_of kvs ''session_id'' = Some (JString (claim_session_id claims))"
    "map_of kvs ''risk_score'' = Some (JInt (risk_score_long sg))"
    "map_of kvs ''action_count'' = Some (JInt (min i64_max (int (sig_action_count sg))))"
    "map_of kvs ''deny_count'' = Some (JInt (min i64_max (int (sig_deny_count sg))))"
    "map_of kvs ''prior_action_classes'' = Some (JArray (map JString ?classes))"
    by (subst get_base; simp add: composio_keys_def git_context_keys_def base_context_lookup)+
  have git: "map_of kvs k = map_option JString (intent_resource (norm_intent envelope) k)"
    if "k \<in> set git_context_keys" for k
  proof -
    have "map_of ?base k = None" using that git_keys_fresh(4) by (simp add: map_of_eq_None_iff)
    then show ?thesis using get [of k] that git_keys_fresh(1-3) [of k] by (cases "intent_resource (norm_intent envelope) k") (simp_all add: fold_insert_lookup)
  qed
  have "''composio_batch_index'' \<notin> set git_context_keys" "map_of ?base ''composio_batch_index'' = None"
    by (simp_all add: git_context_keys_def map_of_eq_None_iff base_context_keys flip: set_map)
  then have "map_of (?git ?base) ''composio_batch_index'' = None" by (simp add: fold_insert_lookup)
  then have batch: "0 \<le> i \<and> i < n \<and> n \<le> 50" if "map_of kvs ''composio_batch_index'' = Some (JInt i)"
      "map_of kvs ''composio_batch_size'' = Some (JInt n)" for i n
    using insert_composio_batch [OF k(2) _ that] by blast
  have "distinct (map fst kvs)"
    by (rule insert_composio_distinct [OF k(2)], rule fold_insert_distinct) (simp add: base_context_keys)
  moreover have "distinct ?classes" "set ?classes = ao_action_class ` set (sig_history sg)"
    by (simp_all add: first_seen_distinct first_seen_set)
  ultimately show ?thesis using k(1) lookup git batch by blast
qed

definition sample_enforcer_lib :: enforcer_lib where
  "sample_enforcer_lib = \<lparr>params_to_string = (\<lambda>p. Ok ''{}''), debug_strings = concat\<rparr>"

definition batch_envelope :: NormalizedEnvelope where
  "batch_envelope =
     \<lparr>norm_intent = \<lparr>intent_action_class = ''code.read'',
        intent_resource = [''host'' \<mapsto> ''api.x.com'', ''git_repo'' \<mapsto> ''r'', ''composio_batch_index'' \<mapsto> ''1'',
          ''composio_batch_size'' \<mapsto> ''3''],
        intent_params = ToolUse \<lparr>tool_name = ''t'', tool_input = Map.empty\<rparr>, intent_raw_transport = ''http'',
        intent_raw_action_ref = ''GET /a''\<rparr>,
      norm_timestamp = 50\<rparr>"

theorem build_context_faithful_witness:
  "\<exists>kvs. build_context sample_enforcer_lib batch_envelope sample_claims RuntimeSignals_default = Ok (JObject kvs)
    \<and> map_of kvs ''git_repo'' = Some (JString ''r'') \<and> map_of kvs ''session_id'' = Some (JString ''ses_1'')"
proof -
  have "is_ok (build_context sample_enforcer_lib batch_envelope sample_claims RuntimeSignals_default)"
    by code_simp
  then obtain ctx where c: "build_context sample_enforcer_lib batch_envelope sample_claims RuntimeSignals_default = Ok ctx"
    by (cases "build_context sample_enforcer_lib batch_envelope sample_claims RuntimeSignals_default") simp_all
  have "''git_repo'' \<in> set git_context_keys" by (simp add: git_context_keys_def)
  then show ?thesis
    using build_context_faithful [OF c] c by (auto simp: batch_envelope_def sample_claims_def)
qed

end
