(* ===== verification/Cedar_Evaluator.thy ===== *)
theory Cedar_Evaluator
  imports Constraint_Enforcement
begin

text \<open>
  The Cedar policy evaluator of Stage 2 (\<^verbatim>\<open>firma-sidecar/src/enforcement/cedar_evaluator.rs\<close>), the
  entity construction and bundle validation it shares with the Authority
  (\<^verbatim>\<open>firma-core/src/cedar.rs\<close>) and the bundle (\<^verbatim>\<open>firma-core/src/policy.rs\<close>). The Cedar crate is a
  parameter: a record of the operations the code calls.
\<close>

record PolicyBundle =
  bundle_version :: string
  bundle_policies :: string
  bundle_entity_schema :: string
  bundle_ttl_seconds :: nat

definition PolicyBundle_new :: "string \<Rightarrow> string \<Rightarrow> string \<Rightarrow> nat \<Rightarrow> PolicyBundle" where
  "PolicyBundle_new version policies entity_schema ttl_seconds =
     \<lparr>bundle_version = version, bundle_policies = policies, bundle_entity_schema = entity_schema,
      bundle_ttl_seconds = ttl_seconds\<rparr>"

section \<open>The Cedar crate\<close>

datatype Effect = Permit | Forbid

record CedarPolicy =
  cp_id :: string
  cp_effect :: Effect
  cp_annotation :: "string \<rightharpoonup> string"

text \<open>An entity uid is its type name and its opaque id; an entity has string attributes.\<close>

type_synonym EntityUid = "string \<times> string"
type_synonym Entity = "EntityUid \<times> (string \<rightharpoonup> string)"

record 'cx CedarRequest =
  creq_principal :: EntityUid
  creq_action :: EntityUid
  creq_resource :: EntityUid
  creq_context :: 'cx

text \<open>The decision and the ids of the policies that determined it.\<close>

record CedarResponse =
  resp_allow :: bool
  resp_reason :: "string list"

record ('ps, 'sc, 'cx) cedar_lib =
  parse_policy_set :: "string \<Rightarrow> (string, 'ps) result"
  set_policies :: "'ps \<Rightarrow> CedarPolicy list"
  parse_schema :: "string \<Rightarrow> (string, 'sc) result"
  parse_type_name :: "string \<Rightarrow> (string, string) result"
  entity_new :: "EntityUid \<Rightarrow> (string \<rightharpoonup> string) \<Rightarrow> (string, Entity) result"
  context_from_json :: "json \<Rightarrow> 'sc \<Rightarrow> EntityUid \<Rightarrow> (string, 'cx) result"
  request_new :: "EntityUid \<Rightarrow> EntityUid \<Rightarrow> EntityUid \<Rightarrow> 'cx \<Rightarrow> 'sc \<Rightarrow> (string, 'cx CedarRequest) result"
  entities_from :: "Entity \<Rightarrow> (string, Entity list) result"
  is_authorized :: "'cx CedarRequest \<Rightarrow> 'ps \<Rightarrow> Entity list \<Rightarrow> CedarResponse"
  header_name_parse :: "string \<Rightarrow> (string, string) result"
  utf8_error :: "string \<Rightarrow> string"
  debug_string :: "string \<Rightarrow> string"

section \<open>Entities\<close>

datatype FirmaEntityUid = AgentUid agent_id | ActionUid string | ResourceUid string

definition entity_uid :: "('ps, 'sc, 'cx) cedar_lib \<Rightarrow> FirmaEntityUid \<Rightarrow> (string, EntityUid) result" where
  "entity_uid lib uid =
     (case (case uid of
              AgentUid i \<Rightarrow> (''Firma::Agent'', i)
            | ActionUid i \<Rightarrow> (''Firma::Action'', i)
            | ResourceUid i \<Rightarrow> (''Firma::Resource'', i)) of
        (type_name_str, id_string) \<Rightarrow>
          and_then (parse_type_name lib type_name_str) (\<lambda>entity_type. Ok (entity_type, id_string)))"

datatype ResourceEntityError = EntityUidError string | EntityAttrError string

primrec ResourceEntityError_display :: "ResourceEntityError \<Rightarrow> string" where
  "ResourceEntityError_display (EntityUidError e) = ''invalid resource entity uid: '' @ e"
| "ResourceEntityError_display (EntityAttrError e) = ''invalid resource entity attributes: '' @ e"

definition resource_attrs :: "string \<Rightarrow> (string \<rightharpoonup> string)" where
  "resource_attrs resource =
     (let parts = resource_map_from resource in
      fold (\<lambda>key attrs. case nonempty_value parts key of Some v \<Rightarrow> attrs(key \<mapsto> v) | None \<Rightarrow> attrs)
        [''host'', ''path''] [''id'' \<mapsto> resource])"

definition resource_entity :: "('ps, 'sc, 'cx) cedar_lib \<Rightarrow> string \<Rightarrow> (ResourceEntityError, Entity) result" where
  "resource_entity lib resource =
     and_then (map_err EntityUidError (entity_uid lib (ResourceUid resource))) (\<lambda>uid.
     map_err EntityAttrError (entity_new lib uid (resource_attrs resource)))"

section \<open>Errors\<close>

datatype CedarEvaluatorError =
    InvalidUtf8 string
  | EmptyPolicies
  | MissingSchema
  | PolicyParse string
  | SchemaParse string
  | EntityUidParse string
  | ResourceEntityFailed ResourceEntityError
  | EntityStore string
  | ContextBuild string
  | RequestBuild string
  | MalformedAnnotation string string string string
  | ConflictingAnnotations string string
  | AnnotationOnPermit string string

primrec CedarEvaluatorError_display :: "CedarEvaluatorError \<Rightarrow> string" where
  "CedarEvaluatorError_display (InvalidUtf8 e) = ''policy bytes are not valid UTF-8: '' @ e"
| "CedarEvaluatorError_display EmptyPolicies = ''policy bundle contains no policy statements''"
| "CedarEvaluatorError_display MissingSchema = ''policy bundle contains no entity schema; schema is required''"
| "CedarEvaluatorError_display (PolicyParse e) = ''failed to parse Cedar policies: '' @ e"
| "CedarEvaluatorError_display (SchemaParse e) = ''failed to parse Cedar schema: '' @ e"
| "CedarEvaluatorError_display (EntityUidParse e) = ''invalid entity UID: '' @ e"
| "CedarEvaluatorError_display (ResourceEntityFailed e) =
     ''failed to build resource entity: '' @ ResourceEntityError_display e"
| "CedarEvaluatorError_display (EntityStore e) = ''failed to build Cedar entity store: '' @ e"
| "CedarEvaluatorError_display (ContextBuild e) = ''failed to build Cedar context: '' @ e"
| "CedarEvaluatorError_display (RequestBuild e) = ''failed to build Cedar request: '' @ e"
| "CedarEvaluatorError_display (MalformedAnnotation policy_id annotation raw_value reason) =
     ''malformed @'' @ annotation @ '' annotation on policy `'' @ policy_id @ ''`: '' @ reason @ '' (raw: ''
       @ raw_value @ '')''"
| "CedarEvaluatorError_display (ConflictingAnnotations policy_id annotations) =
     ''policy `'' @ policy_id @ ''` carries multiple remediation annotations: '' @ annotations"
| "CedarEvaluatorError_display (AnnotationOnPermit policy_id annotations) =
     ''policy `'' @ policy_id @ ''` (permit) carries remediation annotation(s) that only apply to forbid policies: ''
       @ annotations"

section \<open>Remediation annotations\<close>

datatype Remediation = RemModify ModificationSpec | RemStepUp StepUpSpec | RemDefer DeferDuration

definition ANNOTATION_MODIFY :: string where "ANNOTATION_MODIFY = ''modify''"
definition ANNOTATION_STEP_UP :: string where "ANNOTATION_STEP_UP = ''step_up''"
definition ANNOTATION_DEFER :: string where "ANNOTATION_DEFER = ''defer''"

definition ModificationError_display :: "(string \<Rightarrow> string) \<Rightarrow> ModificationError \<Rightarrow> string" where
  "ModificationError_display debug e =
     (case e of
        EmptyValue \<Rightarrow> ''modify annotation value must not be empty''
      | EmptyHeaderName \<Rightarrow> ''redact_header: header name must not be empty''
      | InvalidHeaderName raw source \<Rightarrow> ''invalid header name `'' @ raw @ ''`: '' @ source
      | UnknownKind value \<Rightarrow> ''unknown @modify kind; expected `redact_header:<name>`, got: '' @ debug value
      | UnsupportedModificationTarget \<Rightarrow> ''modification targets HTTP headers but the action is not HTTP'')"

text \<open>Why the digits do not parse: the first character that is no digit, or the first overflow.\<close>

fun digit_error :: "nat \<Rightarrow> nat \<Rightarrow> string \<Rightarrow> string" where
  "digit_error mx acc [] = []"
| "digit_error mx acc (c # cs) =
     (if \<not> is_ascii_digit c then ''invalid digit found in string''
      else if mx < acc * 10 + (byte_val c - 48) then ''number too large to fit in target type''
      else digit_error mx (acc * 10 + (byte_val c - 48)) cs)"

definition parse_int_error :: "nat \<Rightarrow> string \<Rightarrow> string" where
  "parse_int_error mx s =
     (case s of
        [] \<Rightarrow> ''cannot parse integer from empty string''
      | c # cs \<Rightarrow>
          if c = CHR ''+'' then (if cs = [] then ''invalid digit found in string'' else digit_error mx 0 cs)
          else digit_error mx 0 s)"

fun comma_join :: "string list \<Rightarrow> string" where
  "comma_join [] = []"
| "comma_join [s] = s"
| "comma_join (s # t # ss) = s @ '', '' @ comma_join (t # ss)"

definition policy_remediation ::
  "('ps, 'sc, 'cx) cedar_lib \<Rightarrow> CedarPolicy \<Rightarrow> (CedarEvaluatorError, Remediation option) result" where
  "policy_remediation lib policy =
     (let i = cp_id policy;
          modify = cp_annotation policy ANNOTATION_MODIFY;
          step_up = cp_annotation policy ANNOTATION_STEP_UP;
          defer = cp_annotation policy ANNOTATION_DEFER;
          present = (case modify of Some _ \<Rightarrow> [ANNOTATION_MODIFY] | None \<Rightarrow> [])
            @ (case step_up of Some _ \<Rightarrow> [ANNOTATION_STEP_UP] | None \<Rightarrow> [])
            @ (case defer of Some _ \<Rightarrow> [ANNOTATION_DEFER] | None \<Rightarrow> [])
      in if present = [] then Ok None
         else if cp_effect policy \<noteq> Forbid then Err (AnnotationOnPermit i (comma_join present))
         else if 1 < length present then Err (ConflictingAnnotations i (comma_join present))
         else case modify of
           Some value \<Rightarrow>
             (case ModificationSpec_parse (header_name_parse lib) value of
                Inl err \<Rightarrow> Err (MalformedAnnotation i ANNOTATION_MODIFY value (ModificationError_display (debug_string lib) err))
              | Inr spec \<Rightarrow> Ok (Some (RemModify spec)))
         | None \<Rightarrow>
             (case step_up of
                Some value \<Rightarrow>
                  (case StepUpSpec_new value of
                     Inl err \<Rightarrow> Err (MalformedAnnotation i ANNOTATION_STEP_UP value (ModificationError_display (debug_string lib) err))
                   | Inr spec \<Rightarrow> Ok (Some (RemStepUp spec)))
              | None \<Rightarrow>
                  (case defer of
                     Some value \<Rightarrow>
                       (case parse_uint u64_max value of
                          Some ms \<Rightarrow>
                            if ms = 0
                            then Err (MalformedAnnotation i ANNOTATION_DEFER value ''defer duration must be > 0'')
                            else (case DeferDuration_new (ms * 1000000) of
                                    Inr d \<Rightarrow> Ok (Some (RemDefer d))
                                  | Inl err \<Rightarrow> Err (MalformedAnnotation i ANNOTATION_DEFER value
                                      (ModificationError_display (debug_string lib) err)))
                        | None \<Rightarrow> Err (MalformedAnnotation i ANNOTATION_DEFER value (parse_int_error u64_max value)))
                   | None \<Rightarrow> Ok None)))"

fun build_remediation_from ::
  "('ps, 'sc, 'cx) cedar_lib \<Rightarrow> CedarPolicy list \<Rightarrow> (string \<rightharpoonup> Remediation)
    \<Rightarrow> (CedarEvaluatorError, string \<rightharpoonup> Remediation) result" where
  "build_remediation_from lib [] m = Ok m"
| "build_remediation_from lib (policy # policies) m =
     and_then (policy_remediation lib policy) (\<lambda>r.
       build_remediation_from lib policies
         (case r of Some rem \<Rightarrow> m(cp_id policy \<mapsto> rem) | None \<Rightarrow> m))"

definition build_remediation_map ::
  "('ps, 'sc, 'cx) cedar_lib \<Rightarrow> 'ps \<Rightarrow> (CedarEvaluatorError, string \<rightharpoonup> Remediation) result" where
  "build_remediation_map lib policy_set = build_remediation_from lib (set_policies lib policy_set) Map.empty"

primrec remediation_rank :: "Remediation \<Rightarrow> nat" where
  "remediation_rank (RemStepUp _) = 3"
| "remediation_rank (RemDefer _) = 2"
| "remediation_rank (RemModify _) = 1"

text \<open>\<^verbatim>\<open>max_by_key\<close> returns the last of several maxima.\<close>

fun max_by_key :: "('a \<Rightarrow> nat) \<Rightarrow> 'a list \<Rightarrow> 'a option" where
  "max_by_key f [] = None"
| "max_by_key f (x # xs) =
     (case max_by_key f xs of None \<Rightarrow> Some x | Some y \<Rightarrow> if f x \<le> f y then Some y else Some x)"

definition pick_remediation :: "Remediation list \<Rightarrow> Remediation option" where
  "pick_remediation candidates = max_by_key remediation_rank candidates"

section \<open>The evaluator\<close>

record ('ps, 'sc) CedarPolicyEvaluator =
  ev_policy_set :: 'ps
  ev_schema :: 'sc
  ev_version :: string
  ev_received_at :: datetime
  ev_ttl_secs :: nat
  ev_remediation :: "string \<rightharpoonup> Remediation"

definition from_utf8 :: "('ps, 'sc, 'cx) cedar_lib \<Rightarrow> string \<Rightarrow> (CedarEvaluatorError, string) result" where
  "from_utf8 lib bytes = (if from_utf8_ok bytes then Ok bytes else Err (InvalidUtf8 (utf8_error lib bytes)))"

definition from_bundle ::
  "('ps, 'sc, 'cx) cedar_lib \<Rightarrow> datetime \<Rightarrow> PolicyBundle \<Rightarrow> (CedarEvaluatorError, ('ps, 'sc) CedarPolicyEvaluator) result" where
  "from_bundle lib now bundle =
     and_then (from_utf8 lib (bundle_policies bundle)) (\<lambda>src.
     if trim src = [] then Err EmptyPolicies
     else
       and_then (map_err PolicyParse (parse_policy_set lib src)) (\<lambda>policy_set.
       if bundle_entity_schema bundle = [] then Err MissingSchema
       else
         and_then (from_utf8 lib (bundle_entity_schema bundle)) (\<lambda>schema_src.
         and_then (map_err SchemaParse (parse_schema lib schema_src)) (\<lambda>schema.
         and_then (build_remediation_map lib policy_set) (\<lambda>remediation.
         Ok \<lparr>ev_policy_set = policy_set, ev_schema = schema, ev_version = bundle_version bundle,
             ev_received_at = now, ev_ttl_secs = bundle_ttl_seconds bundle,
             ev_remediation = remediation\<rparr>)))))"

definition evaluate_response ::
  "('ps, 'sc, 'cx) cedar_lib \<Rightarrow> ('ps, 'sc) CedarPolicyEvaluator \<Rightarrow> agent_id \<Rightarrow> string \<Rightarrow> string \<Rightarrow> json
    \<Rightarrow> (CedarEvaluatorError, CedarResponse) result" where
  "evaluate_response lib self agent action resource context =
     and_then (map_err EntityUidParse (entity_uid lib (AgentUid agent))) (\<lambda>principal_uid.
     and_then (map_err EntityUidParse (entity_uid lib (ActionUid action))) (\<lambda>action_uid.
     and_then (map_err ResourceEntityFailed (resource_entity lib resource)) (\<lambda>entity.
     and_then (map_err ContextBuild (context_from_json lib context (ev_schema self) action_uid)) (\<lambda>cedar_context.
     and_then (map_err RequestBuild
       (request_new lib principal_uid action_uid (fst entity) cedar_context (ev_schema self))) (\<lambda>request.
     and_then (map_err EntityStore (entities_from lib entity)) (\<lambda>entities.
     Ok (is_authorized lib request (ev_policy_set self) entities)))))))"

definition cedar_evaluate ::
  "('ps, 'sc, 'cx) cedar_lib \<Rightarrow> ('ps, 'sc) CedarPolicyEvaluator \<Rightarrow> agent_id \<Rightarrow> string \<Rightarrow> string \<Rightarrow> json
    \<Rightarrow> (string, bool) result" where
  "cedar_evaluate lib self agent action resource context =
     and_then (map_err CedarEvaluatorError_display (evaluate_response lib self agent action resource context))
       (\<lambda>response. Ok (resp_allow response))"

definition lift_response :: "(string \<rightharpoonup> Remediation) \<Rightarrow> CedarResponse \<Rightarrow> PolicyVerdict" where
  "lift_response remediation response =
     (if resp_allow response then VerdictAllow
      else case pick_remediation (List.map_filter remediation (resp_reason response)) of
             Some (RemModify spec) \<Rightarrow> VerdictModify spec
           | Some (RemStepUp spec) \<Rightarrow> VerdictStepUp spec
           | Some (RemDefer spec) \<Rightarrow> VerdictDefer (DeferDuration_duration spec)
           | None \<Rightarrow> VerdictDeny)"

definition cedar_evaluate_verdict ::
  "('ps, 'sc, 'cx) cedar_lib \<Rightarrow> ('ps, 'sc) CedarPolicyEvaluator \<Rightarrow> agent_id \<Rightarrow> string \<Rightarrow> string \<Rightarrow> json
    \<Rightarrow> (string, PolicyVerdict) result" where
  "cedar_evaluate_verdict lib self agent action resource context =
     and_then (map_err CedarEvaluatorError_display (evaluate_response lib self agent action resource context))
       (\<lambda>response. Ok (lift_response (ev_remediation self) response))"

text \<open>\<^verbatim>\<open>elapsed().as_secs()\<close>: whole seconds, and never negative.\<close>

definition cedar_is_fresh :: "('ps, 'sc) CedarPolicyEvaluator \<Rightarrow> datetime \<Rightarrow> bool" where
  "cedar_is_fresh self now = (nat (now - ev_received_at self) div 1000000000 < ev_ttl_secs self)"

definition cedar_policy :: "('ps, 'sc, 'cx) cedar_lib \<Rightarrow> ('ps, 'sc) CedarPolicyEvaluator \<Rightarrow> PolicyEvaluation" where
  "cedar_policy lib self =
     \<lparr>policy_evaluate_verdict = cedar_evaluate_verdict lib self,
      policy_is_fresh = cedar_is_fresh self,
      policy_is_available = True,
      policy_version = Some (ev_version self)\<rparr>"

section \<open>Bundle validation with file locations\<close>

type_synonym PolicyFiles = "(string \<times> string) list"

definition PolicyFiles_push :: "PolicyFiles \<Rightarrow> string \<Rightarrow> string \<Rightarrow> PolicyFiles" where
  "PolicyFiles_push self path content = self @ [(path, content)]"

definition PolicyFiles_concat :: "PolicyFiles \<Rightarrow> string" where
  "PolicyFiles_concat self =
     concat (map (\<lambda>(index, content). (if 0 < index then [CHR 0x0A] else []) @ content)
       (enumerate 0 (map snd self)))"

fun line_col :: "string \<Rightarrow> nat \<times> nat \<Rightarrow> nat \<times> nat" where
  "line_col [] pos = pos"
| "line_col (b # bytes) (line, col) = line_col bytes (if b = CHR 0x0A then (line + 1, 1) else (line, col + 1))"

fun location_from :: "PolicyFiles \<Rightarrow> nat \<Rightarrow> nat \<Rightarrow> (string \<times> nat \<times> nat) option" where
  "location_from [] cur range_start = None"
| "location_from ((path, content) # files) cur range_start =
     (if cur \<le> range_start \<and> range_start \<le> cur + length content
      then Some (path, line_col (take (range_start - cur) content) (1, 1))
      else location_from files (cur + length content + 1) range_start)"

text \<open>A diagnostic has a message and perhaps the offset of its first label.\<close>

record diagnostic =
  diag_message :: string
  diag_offset :: "nat option"

definition PolicyError_location :: "PolicyFiles option \<Rightarrow> diagnostic \<Rightarrow> (string \<times> nat \<times> nat) option" where
  "PolicyError_location files err =
     Option.bind files (\<lambda>fs. Option.bind (diag_offset err) (\<lambda>range_start. location_from fs 0 range_start))"

definition PolicyError_display :: "PolicyFiles option \<Rightarrow> diagnostic \<Rightarrow> string" where
  "PolicyError_display files err =
     (case PolicyError_location files err of
        Some (path, line, col) \<Rightarrow>
          ''validation error on '' @ path @ '':'' @ show_nat line @ '':'' @ show_nat col @ '': '' @ diag_message err
      | None \<Rightarrow> ''validation error: '' @ diag_message err)"

definition ValidationError_display :: "(PolicyFiles option \<times> diagnostic) list \<Rightarrow> string" where
  "ValidationError_display errors =
     ''policy bundle failed schema validation:''
       @ concat (map (\<lambda>(files, err). [CHR 0x0A] @ PolicyError_display files err) errors)"

text \<open>The outcome of Cedar's strict validator; a warning may be an invalid action application.\<close>

record validation_result =
  val_passed :: bool
  val_errors :: "diagnostic list"
  val_warnings :: "(bool \<times> diagnostic) list"

definition validate_policies ::
  "validation_result \<Rightarrow> PolicyFiles option \<Rightarrow> ((PolicyFiles option \<times> diagnostic) list, string list) result" where
  "validate_policies res policy_files =
     (let rejected = map snd (filter fst (val_warnings res));
          warnings = map snd (filter (\<lambda>w. \<not> fst w) (val_warnings res))
      in if val_passed res \<and> rejected = [] then Ok (map diag_message warnings)
         else Err (map (\<lambda>err. (policy_files, err)) (val_errors res @ rejected)))"

section \<open>Verdicts\<close>

lemma max_by_key_None: "max_by_key f xs = None \<longleftrightarrow> xs = []"
  by (cases xs) (auto split: option.splits)

lemma max_by_key_Some: "max_by_key f xs = Some y \<Longrightarrow> y \<in> set xs \<and> (\<forall>x \<in> set xs. f x \<le> f y)"
proof (induction xs arbitrary: y)
  case (Cons x xs)
  then show ?case
    by (cases "max_by_key f xs") (auto simp: max_by_key_None split: if_split_asm)
qed simp

text \<open>The remediation directives of the policies that fired.\<close>

definition fired :: "(string \<rightharpoonup> Remediation) \<Rightarrow> CedarResponse \<Rightarrow> Remediation set" where
  "fired remediation response = {r. \<exists>i \<in> set (resp_reason response). remediation i = Some r}"

lemma fired_candidates: "set (List.map_filter remediation (resp_reason response)) = fired remediation response"
  by (auto simp: fired_def List.map_filter_def image_iff) (metis option.sel option.distinct(1))



text \<open>
  A fired \<^verbatim>\<open>forbid\<close> without annotation does not survive next to an annotated one: the answer is the
  annotated policy's remediation, so a \<open>Modify\<close> lets the request through.
\<close>

lemma hard_forbid_overridden:
  assumes "\<not> resp_allow response" and "hard \<in> set (resp_reason response)" and "remediation hard = None"
    and "soft \<in> set (resp_reason response)" and "remediation soft = Some (RemModify spec)"
    and "\<forall>i \<in> set (resp_reason response). i \<noteq> soft \<longrightarrow> remediation i = None"
  shows "lift_response remediation response = VerdictModify spec"
proof -
  have "RemModify spec \<in> fired remediation response" using assms by (auto simp: fired_def)
  moreover have "fired remediation response \<subseteq> {RemModify spec}" using assms by (auto simp: fired_def)
  ultimately have f: "set (List.map_filter remediation (resp_reason response)) = {RemModify spec}"
    by (simp add: fired_candidates subset_antisym)
  obtain r where r: "max_by_key remediation_rank (List.map_filter remediation (resp_reason response)) = Some r"
    using f max_by_key_None [of remediation_rank "List.map_filter remediation (resp_reason response)"] by fastforce
  with max_by_key_Some [OF r] f have "r = RemModify spec" by simp
  then show ?thesis using r assms(1) by (simp add: lift_response_def pick_remediation_def)
qed

section \<open>Remediation maps\<close>

definition directive_ok :: "Remediation \<Rightarrow> bool" where
  "directive_ok r =
     (case r of
        RemModify spec \<Rightarrow> True
      | RemStepUp spec \<Rightarrow> trim (StepUpSpec_as_str spec) \<noteq> []
      | RemDefer d \<Rightarrow> 0 < DeferDuration_duration d)"

lemma policy_remediation_Some:
  assumes "policy_remediation lib policy = Ok (Some r)"
  shows "cp_effect policy = Forbid \<and> directive_ok r
    \<and> card {k \<in> {ANNOTATION_MODIFY, ANNOTATION_STEP_UP, ANNOTATION_DEFER}. cp_annotation policy k \<noteq> None} = 1"
proof -
  have keys: "{k \<in> {ANNOTATION_MODIFY, ANNOTATION_STEP_UP, ANNOTATION_DEFER}. cp_annotation policy k \<noteq> None} =
      (if cp_annotation policy ANNOTATION_MODIFY \<noteq> None then {ANNOTATION_MODIFY} else {})
      \<union> (if cp_annotation policy ANNOTATION_STEP_UP \<noteq> None then {ANNOTATION_STEP_UP} else {})
      \<union> (if cp_annotation policy ANNOTATION_DEFER \<noteq> None then {ANNOTATION_DEFER} else {})"
    by auto
  show ?thesis
    using assms unfolding keys
    by (cases "cp_annotation policy ANNOTATION_MODIFY"; cases "cp_annotation policy ANNOTATION_STEP_UP";
        cases "cp_annotation policy ANNOTATION_DEFER";
        auto simp: policy_remediation_def Let_def directive_ok_def StepUpSpec_new_def DeferDuration_new_def
          split: if_split_asm sum.splits option.splits)
qed

lemma build_remediation_from_sound:
  "build_remediation_from lib policies m = Ok m' \<Longrightarrow> m' i = Some r \<Longrightarrow>
     m i = Some r \<or> (\<exists>policy \<in> set policies. cp_id policy = i \<and> policy_remediation lib policy = Ok (Some r))"
proof (induction policies arbitrary: m)
  case (Cons policy policies)
  then obtain q where q: "policy_remediation lib policy = Ok q"
      "build_remediation_from lib policies (case q of Some rem \<Rightarrow> m(cp_id policy \<mapsto> rem) | None \<Rightarrow> m) = Ok m'"
    by (auto simp: and_then_Ok)
  from Cons.IH [OF q(2) Cons.prems(2)] show ?case using q(1) by (auto split: option.splits if_split_asm)
qed simp


text \<open>
  Cedar over policies whose conditions all hold: a fired \<^verbatim>\<open>forbid\<close> denies and is the reason, otherwise a
  \<^verbatim>\<open>permit\<close> allows.
\<close>

definition modify_policy :: CedarPolicy where
  "modify_policy =
     \<lparr>cp_id = ''policy0'', cp_effect = Forbid, cp_annotation = [''modify'' \<mapsto> ''redact_header:authorization'']\<rparr>"

definition sample_cedar_lib :: "CedarPolicy list \<Rightarrow> (CedarPolicy list, unit, json) cedar_lib" where
  "sample_cedar_lib policies =
     \<lparr>parse_policy_set = (\<lambda>s. Ok policies), set_policies = (\<lambda>ps. ps), parse_schema = (\<lambda>s. Ok ()),
      parse_type_name = Inr, entity_new = (\<lambda>uid attrs. Ok (uid, attrs)),
      context_from_json = (\<lambda>j sc a. Ok j),
      request_new = (\<lambda>p a r c sc. Ok \<lparr>creq_principal = p, creq_action = a, creq_resource = r, creq_context = c\<rparr>),
      entities_from = (\<lambda>e. Ok [e]),
      is_authorized = (\<lambda>req ps ents.
        let forbids = filter (\<lambda>p. cp_effect p = Forbid) ps; permits = filter (\<lambda>p. cp_effect p = Permit) ps
        in if forbids \<noteq> [] then \<lparr>resp_allow = False, resp_reason = map cp_id forbids\<rparr>
           else \<lparr>resp_allow = permits \<noteq> [], resp_reason = map cp_id permits\<rparr>),
      header_name_parse = Inr, utf8_error = (\<lambda>s. []), debug_string = (\<lambda>s. s)\<rparr>"

definition sample_bundle :: PolicyBundle where
  "sample_bundle = PolicyBundle_new ''v1'' ''policies'' ''schema'' 60"

definition sample_evaluator :: "CedarPolicy list \<Rightarrow> (string \<rightharpoonup> Remediation) \<Rightarrow> (CedarPolicy list, unit) CedarPolicyEvaluator" where
  "sample_evaluator policies remediation =
     \<lparr>ev_policy_set = policies, ev_schema = (), ev_version = ''v1'', ev_received_at = 0, ev_ttl_secs = 60,
      ev_remediation = remediation\<rparr>"

lemma sample_sources: "from_utf8_ok ''policies''" "trim ''policies'' \<noteq> []" "from_utf8_ok ''schema''"
  by code_simp+

lemma modify_policy_remediation:
  "policy_remediation (sample_cedar_lib ps) modify_policy = Ok (Some (RemModify (RedactHeader ''authorization'')))"
proof -
  have "ModificationSpec_parse Inr ''redact_header:authorization'' = Ok (RedactHeader ''authorization'')"
    by code_simp
  then show ?thesis
    by (simp add: policy_remediation_def modify_policy_def ANNOTATION_MODIFY_def ANNOTATION_STEP_UP_def
        ANNOTATION_DEFER_def sample_cedar_lib_def)
qed

lemma sample_from_bundle:
  "from_bundle (sample_cedar_lib [modify_policy]) 0 sample_bundle =
     Ok (sample_evaluator [modify_policy] [''policy0'' \<mapsto> RemModify (RedactHeader ''authorization'')])"
proof -
  have lib: "parse_policy_set (sample_cedar_lib [modify_policy]) = (\<lambda>s. Ok [modify_policy])"
      "set_policies (sample_cedar_lib [modify_policy]) = (\<lambda>ps. ps)"
      "parse_schema (sample_cedar_lib [modify_policy]) = (\<lambda>s. Ok ())" "cp_id modify_policy = ''policy0''"
    by (simp_all add: sample_cedar_lib_def modify_policy_def)
  show ?thesis
    by (simp add: from_bundle_def from_utf8_def sample_bundle_def PolicyBundle_new_def sample_sources map_err_def
        build_remediation_map_def modify_policy_remediation lib sample_evaluator_def)
qed


text \<open>
  With no \<^verbatim>\<open>permit\<close> at all the bundle answers \<open>Modify\<close>: adding an annotated \<^verbatim>\<open>forbid\<close> to an empty policy
  lets a request through that Cedar's default denies.
\<close>

lemma modify_without_permit:
  "cedar_evaluate_verdict (sample_cedar_lib [modify_policy])
     (sample_evaluator [modify_policy] [''policy0'' \<mapsto> RemModify (RedactHeader ''authorization'')])
     ''agt_1'' ''code.read'' ''api.x.com/a'' (JObject []) = Ok (VerdictModify (RedactHeader ''authorization''))"
  by (simp add: cedar_evaluate_verdict_def evaluate_response_def entity_uid_def resource_entity_def map_err_def
      sample_cedar_lib_def sample_evaluator_def lift_response_def pick_remediation_def modify_policy_def
      List.map_filter_def)

section \<open>Locations\<close>

lemma line_col_append: "line_col (xs @ ys) pos = line_col ys (line_col xs pos)"
  by (induction xs pos rule: line_col.induct) simp_all

lemma line_col_plain: "CHR 0x0A \<notin> set xs \<Longrightarrow> line_col xs (l, c) = (l, c + length xs)"
  by (induction xs arbitrary: c) auto

text \<open>Lines are counted by newlines, columns by the bytes after the last one.\<close>

lemma line_col_eq:
  "line_col xs (1, 1) =
     (Suc (length (filter (\<lambda>b. b = CHR 0x0A) xs)), Suc (length (takeWhile (\<lambda>b. b \<noteq> CHR 0x0A) (rev xs))))"
proof (induction xs rule: rev_induct)
  case (snoc x xs)
  then show ?case by (simp add: line_col_append)
qed simp

definition file_start :: "PolicyFiles \<Rightarrow> nat \<Rightarrow> nat" where
  "file_start fs i = sum_list (map (\<lambda>f. length (snd f) + 1) (take i fs))"

lemma location_from_file:
  assumes "i < length fs" and "k \<le> length (snd (fs ! i))"
  shows "location_from fs cur (cur + file_start fs i + k) =
    Some (fst (fs ! i), line_col (take k (snd (fs ! i))) (1, 1))"
  using assms
proof (induction fs arbitrary: cur i)
  case (Cons f fs)
  obtain path content where f: "f = (path, content)" by (cases f)
  show ?case
  proof (cases i)
    case 0
    then show ?thesis using Cons.prems f by (simp add: file_start_def)
  next
    case (Suc j)
    have start: "file_start (f # fs) (Suc j) = length content + 1 + file_start fs j"
      by (simp add: file_start_def f)
    have "location_from fs (cur + length content + 1) (cur + length content + 1 + file_start fs j + k) =
        Some (fst (fs ! j), line_col (take k (snd (fs ! j))) (1, 1))"
      using Cons.IH [of j "cur + length content + 1"] Cons.prems Suc by simp
    then show ?thesis using Suc f start by (simp add: ac_simps)
  qed
qed simp

text \<open>Where the bytes of a file lie in the concatenation.\<close>

lemma enumerate_tail:
  "concat (map (\<lambda>(index, content). (if 0 < index then [CHR 0x0A] else []) @ content) (enumerate (Suc n) xs)) =
     concat (map (\<lambda>x. CHR 0x0A # x) xs)"
  by (induction xs arbitrary: n) simp_all

lemma concat_tail_nth:
  "i < length xs \<Longrightarrow> k < length (xs ! i) \<Longrightarrow>
     concat (map (\<lambda>x. CHR 0x0A # x) xs) ! (sum_list (map (\<lambda>x. length x + 1) (take i xs)) + 1 + k) = xs ! i ! k"
proof (induction xs arbitrary: i)
  case (Cons x xs)
  then show ?case by (cases i) (simp_all add: nth_append)
qed simp

lemma concat_nth:
  assumes "i < length fs" and "k < length (snd (fs ! i))"
  shows "PolicyFiles_concat fs ! (file_start fs i + k) = snd (fs ! i) ! k"
proof (cases fs)
  case (Cons f gs)
  have "PolicyFiles_concat fs = snd f @ concat (map (\<lambda>x. CHR 0x0A # x) (map snd gs))"
    using enumerate_tail [of 0 "map snd gs"] by (simp add: PolicyFiles_concat_def Cons)
  moreover have "sum_list (map (\<lambda>x. length x + 1) (take j (map snd gs))) = file_start gs j" for j
    by (simp add: file_start_def take_map comp_def)
  ultimately show ?thesis
    using assms concat_tail_nth [of "i - 1" "map snd gs" k] Cons
    by (cases i) (simp_all add: nth_append file_start_def)
qed (use assms in simp)

text \<open>
  A diagnostic is located in the right file: a label that points at a byte of the concatenated policy
  source that came from file \<open>i\<close> is reported with the path of that file, the line given by the newlines
  before the byte in that file, and the column given by the bytes since the last of them.
\<close>

theorem location_exact:
  assumes "i < length fs" and "k < length (snd (fs ! i))" and "diag_offset err = Some (file_start fs i + k)"
  shows "PolicyFiles_concat fs ! (file_start fs i + k) = snd (fs ! i) ! k
    \<and> PolicyError_location (Some fs) err =
        Some (fst (fs ! i),
          Suc (length (filter (\<lambda>b. b = CHR 0x0A) (take k (snd (fs ! i))))),
          Suc (length (takeWhile (\<lambda>b. b \<noteq> CHR 0x0A) (rev (take k (snd (fs ! i)))))))"
  using assms location_from_file [of i fs k 0] concat_nth [of i fs k]
  by (simp add: PolicyError_location_def line_col_eq [simplified])

definition sample_files :: PolicyFiles where
  "sample_files = PolicyFiles_push (PolicyFiles_push [] ''a.cedar'' ''permit'') ''b.cedar'' (''x'' @ [CHR 0x0A] @ ''yz'')"

theorem location_exact_witness:
  "PolicyError_location (Some sample_files) \<lparr>diag_message = ''m'', diag_offset = Some 10\<rparr> = Some (''b.cedar'', 2, 2)"
  using location_exact [of 1 sample_files 3 "\<lparr>diag_message = ''m'', diag_offset = Some 10\<rparr>"]
  by (simp add: sample_files_def PolicyFiles_push_def file_start_def)

end
