(* ===== verification/Revocation.thy ===== *)
theory Revocation
  imports Lru_Cache Decisions "HOL-Library.Word"
begin

unbundle bit_operations_syntax

text \<open>
  The revocation store (\<^verbatim>\<open>firma-sidecar/src/enforcement/revocation\<close>): the atomic bloom filter on
  64-bit words, the set of confirmed revocations kept in the least-recently-used cache, the counters,
  and the two operations of the store. The 128-bit hash \<^verbatim>\<open>xxh3_128\<close> and the cache are parameters.
  The contract of a revocation store is a locale; its client lemma says that a revoked token is
  reported as revoked for ever.
\<close>

section \<open>The bloom filter\<close>

record AtomicBloom =
  bloom_bits :: "64 word list"
  bloom_bit_count :: "64 word"
  bloom_hash_count :: "32 word"

definition div_ceil :: "64 word \<Rightarrow> 64 word \<Rightarrow> 64 word" where
  "div_ceil a b = (if a mod b = 0 then a div b else a div b + 1)"

text \<open>
  \<open>bits\<close> and \<open>hashes\<close> are the two floating-point sizes, rounded up and cast to \<^verbatim>\<open>u64\<close> and \<^verbatim>\<open>u32\<close>.
\<close>

definition AtomicBloom_new :: "64 word \<Rightarrow> 32 word \<Rightarrow> AtomicBloom" where
  "AtomicBloom_new bits hashes =
     (let bit_count = max bits 64;
          word_count = unat (div_ceil bit_count 64)
      in \<lparr>bloom_bits = replicate word_count 0, bloom_bit_count = bit_count,
          bloom_hash_count = max hashes 1\<rparr>)"

definition hashes :: "(string \<Rightarrow> 128 word) \<Rightarrow> string \<Rightarrow> 64 word \<times> 64 word" where
  "hashes xxh3 key =
     (let hash = xxh3 key
      in (ucast (hash AND 0xFFFFFFFFFFFFFFFF), ucast (drop_bit 64 hash)))"

definition bloom_bit :: "(string \<Rightarrow> 128 word) \<Rightarrow> AtomicBloom \<Rightarrow> string \<Rightarrow> nat \<Rightarrow> 64 word" where
  "bloom_bit xxh3 self key i =
     (case hashes xxh3 key of (first, second) \<Rightarrow> (first + of_nat i * second) mod bloom_bit_count self)"

text \<open>The word index and the mask of each probe, in loop order.\<close>

definition probes :: "(string \<Rightarrow> 128 word) \<Rightarrow> AtomicBloom \<Rightarrow> string \<Rightarrow> (nat \<times> 64 word) list" where
  "probes xxh3 self key =
     map (\<lambda>i. let bit = bloom_bit xxh3 self key i
               in (unat (bit div 64), push_bit (unat (bit mod 64)) 1))
         [0..<unat (bloom_hash_count self)]"

definition fetch_or :: "nat \<times> 64 word \<Rightarrow> AtomicBloom \<Rightarrow> AtomicBloom" where
  "fetch_or p self =
     self\<lparr>bloom_bits := (bloom_bits self)[fst p := bloom_bits self ! fst p OR snd p]\<rparr>"

definition bloom_insert :: "(string \<Rightarrow> 128 word) \<Rightarrow> AtomicBloom \<Rightarrow> string \<Rightarrow> AtomicBloom" where
  "bloom_insert xxh3 self key = fold fetch_or (probes xxh3 self key) self"

definition bloom_contains :: "(string \<Rightarrow> 128 word) \<Rightarrow> AtomicBloom \<Rightarrow> string \<Rightarrow> bool" where
  "bloom_contains xxh3 self key =
     list_all (\<lambda>p. bloom_bits self ! fst p AND snd p \<noteq> 0) (probes xxh3 self key)"

section \<open>The set of confirmed revocations\<close>

text \<open>A poisoned mutex refuses the lock.\<close>

record 'c LruSet =
  set_poisoned :: bool
  set_inner :: 'c

definition LruSet_new :: "('c, unit) lru_lib \<Rightarrow> nat \<Rightarrow> 'c LruSet" where
  "LruSet_new lru capacity = \<lparr>set_poisoned = False, set_inner = lru_new lru capacity\<rparr>"

definition LruSet_insert :: "('c, unit) lru_lib \<Rightarrow> 'c LruSet \<Rightarrow> string \<Rightarrow> 'c LruSet" where
  "LruSet_insert lru self key =
     (if set_poisoned self then self else self\<lparr>set_inner := lru_put lru (set_inner self) key ()\<rparr>)"

definition LruSet_contains :: "('c, unit) lru_lib \<Rightarrow> 'c LruSet \<Rightarrow> string \<Rightarrow> bool \<times> 'c LruSet" where
  "LruSet_contains lru self key =
     (if set_poisoned self then (False, self)
      else case lru_get lru (set_inner self) key of (found, inner) \<Rightarrow>
        (found \<noteq> None, self\<lparr>set_inner := inner\<rparr>))"

section \<open>Counters\<close>

record RevocationMetrics =
  bloom_hits :: "64 word"
  lru_hits :: "64 word"
  bloom_positive_lru_miss :: "64 word"
  revocations_total :: "64 word"

definition RevocationMetrics_default :: RevocationMetrics where
  "RevocationMetrics_default =
     \<lparr>bloom_hits = 0, lru_hits = 0, bloom_positive_lru_miss = 0, revocations_total = 0\<rparr>"

definition record_bloom_hit :: "RevocationMetrics \<Rightarrow> RevocationMetrics" where
  "record_bloom_hit m = m\<lparr>bloom_hits := bloom_hits m + 1\<rparr>"

definition record_lru_hit :: "RevocationMetrics \<Rightarrow> RevocationMetrics" where
  "record_lru_hit m = m\<lparr>lru_hits := lru_hits m + 1\<rparr>"

definition record_lru_miss :: "RevocationMetrics \<Rightarrow> RevocationMetrics" where
  "record_lru_miss m = m\<lparr>bloom_positive_lru_miss := bloom_positive_lru_miss m + 1\<rparr>"

definition record_revocation :: "RevocationMetrics \<Rightarrow> RevocationMetrics" where
  "record_revocation m = m\<lparr>revocations_total := revocations_total m + 1\<rparr>"

section \<open>The store\<close>

definition FalsePositiveRate_new :: "f64 \<Rightarrow> f64 option" where
  "FalsePositiveRate_new rate =
     (case rate of Fin r \<Rightarrow> if 0 < r \<and> r < 1 then Some rate else None | _ \<Rightarrow> None)"

record RevocationConfig =
  rev_capacity :: nat
  rev_fpr :: f64
  rev_lru_capacity :: nat

record 'c BloomLruRevocationStore =
  store_bloom :: AtomicBloom
  store_lru :: "'c LruSet"
  store_metrics :: RevocationMetrics

definition BloomLruRevocationStore_new ::
  "(nat \<Rightarrow> f64 \<Rightarrow> 64 word \<times> 32 word) \<Rightarrow> ('c, unit) lru_lib \<Rightarrow> RevocationConfig \<Rightarrow> 'c BloomLruRevocationStore" where
  "BloomLruRevocationStore_new sizing lru cfg =
     (case sizing (rev_capacity cfg) (rev_fpr cfg) of (bits, hash_count) \<Rightarrow>
        \<lparr>store_bloom = AtomicBloom_new bits hash_count,
         store_lru = LruSet_new lru (rev_lru_capacity cfg),
         store_metrics = RevocationMetrics_default\<rparr>)"

definition is_revoked ::
  "(string \<Rightarrow> 128 word) \<Rightarrow> ('c, unit) lru_lib \<Rightarrow> 'c BloomLruRevocationStore \<Rightarrow> token_id
    \<Rightarrow> (TokenError, bool) result \<times> 'c BloomLruRevocationStore" where
  "is_revoked xxh3 lru self key =
     (if \<not> bloom_contains xxh3 (store_bloom self) key then (Ok False, self)
      else
        let m = record_bloom_hit (store_metrics self)
        in case LruSet_contains lru (store_lru self) key of (found, lru') \<Rightarrow>
          (Ok True, self\<lparr>store_lru := lru',
             store_metrics := (if found then record_lru_hit m else record_lru_miss m)\<rparr>))"

definition add_revocation ::
  "(string \<Rightarrow> 128 word) \<Rightarrow> ('c, unit) lru_lib \<Rightarrow> 'c BloomLruRevocationStore \<Rightarrow> token_id
    \<Rightarrow> (TokenError, unit) result \<times> 'c BloomLruRevocationStore" where
  "add_revocation xxh3 lru self key =
     (Ok (), self\<lparr>store_bloom := bloom_insert xxh3 (store_bloom self) key,
        store_lru := LruSet_insert lru (store_lru self) key,
        store_metrics := record_revocation (store_metrics self)\<rparr>)"

section \<open>Well-formed filters\<close>

definition bloom_wf :: "AtomicBloom \<Rightarrow> bool" where
  "bloom_wf self \<longleftrightarrow>
     64 \<le> bloom_bit_count self
   \<and> length (bloom_bits self) = unat (div_ceil (bloom_bit_count self) 64)
   \<and> 1 \<le> bloom_hash_count self"

lemma nat_div_ceil_64: "(n + 63) div 64 = (if n mod 64 = 0 then n div 64 else n div 64 + 1)" for n :: nat
proof -
  have "(n + 63) div 64 = ((n mod 64 + 63) + 64 * (n div 64)) div 64"
    by (simp add: algebra_simps)
  also have "\<dots> = n div 64 + (n mod 64 + 63) div 64"
    by (rule div_mult_self2) simp
  also have "(n mod 64 + 63) div 64 = (if n mod 64 = 0 then 0 else 1)"
    by (auto intro!: div_nat_eqI)
  finally show ?thesis by simp
qed

lemma unat_div_ceil_64: "unat (div_ceil a 64) = (unat a + 63) div 64"
proof -
  have d: "unat (a div 64) = unat a div 64" "unat (a mod 64) = unat a mod 64"
    by (simp_all add: unat_div unat_mod)
  have "unat a < 2 ^ 64" using unsigned_less [of a, where 'a = nat] by simp
  then have "unat (a div 64) + unat (1 :: 64 word) < 2 ^ LENGTH(64)" using d(1) by simp
  then have "unat (a div 64 + 1) = unat (a div 64) + unat (1 :: 64 word)"
    by (rule iffD1 [OF unat_add_lem])
  then have "unat (a div 64 + 1) = unat a div 64 + 1" using d(1) by simp
  moreover have "a mod 64 = 0 \<longleftrightarrow> unat a mod 64 = 0"
    using d(2) unat_eq_zero [of "a mod 64"] by simp
  ultimately show ?thesis using d(1) by (simp add: div_ceil_def nat_div_ceil_64)
qed

lemma AtomicBloom_new_wf: "bloom_wf (AtomicBloom_new bits hs)"
  by (simp add: bloom_wf_def AtomicBloom_new_def Let_def)

lemma bloom_bit_less:
  assumes "bloom_wf self"
  shows "unat (bloom_bit xxh3 self key i) < unat (bloom_bit_count self)"
proof -
  have "0 < unat (bloom_bit_count self)"
    using assms by (auto simp: bloom_wf_def word_le_nat_alt)
  then show ?thesis by (simp add: bloom_bit_def unat_mod split: prod.split)
qed

lemma word_index_less: "m < n \<Longrightarrow> m div 64 < (n + 63) div (64 :: nat)"
  using div_le_mono [of "m + 64" "n + 63" 64] by simp

text \<open>Every probe stays inside the vector, and selects one bit.\<close>

lemma probes_bound:
  assumes "bloom_wf self" and "p \<in> set (probes xxh3 self key)"
  shows "fst p < length (bloom_bits self)" and "\<exists>n < 64. snd p = push_bit n 1"
proof -
  from assms(2) obtain i where p: "p = (unat (bloom_bit xxh3 self key i div 64),
      push_bit (unat (bloom_bit xxh3 self key i mod 64)) 1)"
    by (auto simp: probes_def Let_def)
  have "unat (bloom_bit xxh3 self key i) div 64 < (unat (bloom_bit_count self) + 63) div 64"
    using bloom_bit_less [OF assms(1), of xxh3 key i] by (rule word_index_less)
  then show "fst p < length (bloom_bits self)"
    using assms(1) p by (simp add: bloom_wf_def unat_div_ceil_64 unat_div)
  show "\<exists>n < 64. snd p = push_bit n 1"
    using p by (intro exI [of _ "unat (bloom_bit xxh3 self key i mod 64)"]) (simp add: unat_mod)
qed

lemma fetch_or_frame [simp]:
  "bloom_bit_count (fetch_or p self) = bloom_bit_count self"
  "bloom_hash_count (fetch_or p self) = bloom_hash_count self"
  "length (bloom_bits (fetch_or p self)) = length (bloom_bits self)"
  by (simp_all add: fetch_or_def)

lemma fold_fetch_or_frame [simp]:
  "bloom_bit_count (fold fetch_or ps self) = bloom_bit_count self"
  "bloom_hash_count (fold fetch_or ps self) = bloom_hash_count self"
  "length (bloom_bits (fold fetch_or ps self)) = length (bloom_bits self)"
  by (induction ps arbitrary: self) simp_all

lemma fold_fetch_or_wf [simp]: "bloom_wf (fold fetch_or ps self) \<longleftrightarrow> bloom_wf self"
  by (simp add: bloom_wf_def)

lemma probes_fold [simp]: "probes xxh3 (fold fetch_or ps self) key = probes xxh3 self key"
  by (simp add: probes_def bloom_bit_def)

lemma bloom_insert_wf [simp]: "bloom_wf (bloom_insert xxh3 self key) \<longleftrightarrow> bloom_wf self"
  by (simp add: bloom_insert_def)

section \<open>Bits are only ever set\<close>

lemma fetch_or_bit:
  "i < length (bloom_bits self) \<Longrightarrow>
     bit (bloom_bits (fetch_or p self) ! i) n \<longleftrightarrow>
       bit (bloom_bits self ! i) n \<or> i = fst p \<and> bit (snd p) n"
  by (cases "i = fst p") (simp_all add: fetch_or_def bit_or_iff)

lemma fold_fetch_or_bit:
  "i < length (bloom_bits self) \<Longrightarrow>
     bit (bloom_bits (fold fetch_or ps self) ! i) n \<longleftrightarrow>
       bit (bloom_bits self ! i) n \<or> (\<exists>p \<in> set ps. i = fst p \<and> bit (snd p) n)"
  by (induction ps arbitrary: self) (auto simp: fetch_or_bit)

lemma and_mask_nonzero: "n < 64 \<Longrightarrow> (w :: 64 word) AND push_bit n 1 \<noteq> 0 \<longleftrightarrow> bit w n"
  by (simp add: and_exp_eq_0_iff_not_bit)

lemma bloom_contains_bits:
  assumes "bloom_wf self"
  shows "bloom_contains xxh3 self key \<longleftrightarrow>
    (\<forall>p \<in> set (probes xxh3 self key). \<forall>n. bit (snd p) n \<longrightarrow> bit (bloom_bits self ! fst p) n)"
proof -
  have "(bloom_bits self ! fst p AND snd p \<noteq> 0) \<longleftrightarrow> (\<forall>n. bit (snd p) n \<longrightarrow> bit (bloom_bits self ! fst p) n)"
    if p: "p \<in> set (probes xxh3 self key)" for p
  proof -
    obtain m where m: "m < 64" "snd p = push_bit m 1" using probes_bound(2) [OF assms p] by blast
    then show ?thesis
      by (simp only: m(2) and_mask_nonzero [OF m(1)]) (simp add: bit_exp_iff)
  qed
  then show ?thesis by (simp add: bloom_contains_def list_all_iff)
qed

text \<open>
  Any interleaving of atomic updates that includes the probes of a key leaves the key in the filter,
  and no update takes a key out.
\<close>

lemma bloom_interleaved:
  assumes "bloom_wf self" and "set (probes xxh3 self key) \<subseteq> set trace"
  shows "bloom_contains xxh3 (fold fetch_or trace self) key"
proof -
  have "bit (bloom_bits (fold fetch_or trace self) ! fst p) n"
    if p: "p \<in> set (probes xxh3 self key)" and n: "bit (snd p) n" for p n
    using p n assms(2) probes_bound(1) [OF assms(1) p] by (auto simp: fold_fetch_or_bit)
  then show ?thesis using assms(1) by (simp add: bloom_contains_bits)
qed

lemma bloom_contains_mono:
  assumes "bloom_wf self" and "bloom_contains xxh3 self key"
  shows "bloom_contains xxh3 (fold fetch_or trace self) key"
  using assms probes_bound(1) [OF assms(1)] by (auto simp: bloom_contains_bits fold_fetch_or_bit)

lemma bloom_contains_insert: "bloom_wf self \<Longrightarrow> bloom_contains xxh3 (bloom_insert xxh3 self key) key"
  by (simp add: bloom_insert_def bloom_interleaved)

lemma bloom_contains_new: "\<not> bloom_contains xxh3 (AtomicBloom_new bits hs) key"
proof -
  have wf: "bloom_wf (AtomicBloom_new bits hs)" by (rule AtomicBloom_new_wf)
  let ?b = "AtomicBloom_new bits hs"
  have "0 < unat (bloom_hash_count ?b)" using wf by (simp add: bloom_wf_def word_le_nat_alt)
  then have "probes xxh3 ?b key \<noteq> []" by (simp add: probes_def)
  then obtain p where p: "p \<in> set (probes xxh3 ?b key)" using hd_in_set by blast
  have "bloom_bits ?b ! fst p = 0"
    using probes_bound(1) [OF wf p] by (simp add: AtomicBloom_new_def Let_def)
  then have "bloom_bits ?b ! fst p AND snd p = 0" by simp
  then show ?thesis using p by (auto simp: bloom_contains_def list_all_iff)
qed

section \<open>The contract of a revocation store\<close>

text \<open>The calls a client makes, and the state after a sequence of them.\<close>

datatype revocation_call = AddRevocation token_id | IsRevoked token_id

fun revocation_run ::
  "('s \<Rightarrow> token_id \<Rightarrow> (TokenError, unit) result \<times> 's) \<Rightarrow> ('s \<Rightarrow> token_id \<Rightarrow> (TokenError, bool) result \<times> 's)
    \<Rightarrow> 's \<Rightarrow> revocation_call list \<Rightarrow> 's" where
  "revocation_run add check s [] = s"
| "revocation_run add check s (AddRevocation t # calls) = revocation_run add check (snd (add s t)) calls"
| "revocation_run add check s (IsRevoked t # calls) = revocation_run add check (snd (check s t)) calls"

locale revocation_store =
  fixes inv :: "'s \<Rightarrow> bool"
    and add :: "'s \<Rightarrow> token_id \<Rightarrow> (TokenError, unit) result \<times> 's"
    and check :: "'s \<Rightarrow> token_id \<Rightarrow> (TokenError, bool) result \<times> 's"
  assumes inv_add: "inv s \<Longrightarrow> inv (snd (add s t))"
    and inv_check: "inv s \<Longrightarrow> inv (snd (check s t))"
    and add_reported: "inv s \<Longrightarrow> fst (check (snd (add s t)) t) = Ok True"
    and add_keeps: "inv s \<Longrightarrow> fst (check s t) = Ok True \<Longrightarrow> fst (check (snd (add s u)) t) = Ok True"
    and check_keeps: "inv s \<Longrightarrow> fst (check (snd (check s u)) t) = fst (check s t)"
begin

lemma run_inv: "inv s \<Longrightarrow> inv (revocation_run add check s calls)"
proof (induction calls arbitrary: s)
  case (Cons c calls)
  then show ?case by (cases c) (simp_all add: inv_add inv_check)
qed simp

lemma run_keeps: "inv s \<Longrightarrow> fst (check s t) = Ok True \<Longrightarrow> fst (check (revocation_run add check s calls) t) = Ok True"
proof (induction calls arbitrary: s)
  case (Cons c calls)
  then show ?case by (cases c) (simp_all add: inv_add inv_check add_keeps check_keeps)
qed simp

lemma run_reported:
  "inv s \<Longrightarrow> AddRevocation t \<in> set calls \<Longrightarrow> fst (check (revocation_run add check s calls) t) = Ok True"
proof (induction calls arbitrary: s)
  case (Cons c calls)
  show ?case
  proof (cases "c = AddRevocation t")
    case True
    then show ?thesis using Cons.prems by (simp add: run_keeps inv_add add_reported)
  next
    case False
    then show ?thesis using Cons by (cases c) (simp_all add: inv_add inv_check)
  qed
qed simp

end

section \<open>The store keeps the contract\<close>

lemma is_revoked_bloom: "store_bloom (snd (is_revoked xxh3 lru s t)) = store_bloom s"
  by (simp add: is_revoked_def Let_def split: prod.split)

lemma is_revoked_result: "fst (is_revoked xxh3 lru s t) = Ok (bloom_contains xxh3 (store_bloom s) t)"
  by (simp add: is_revoked_def Let_def split: prod.split)

lemma add_revocation_bloom:
  "store_bloom (snd (add_revocation xxh3 lru s t)) = bloom_insert xxh3 (store_bloom s) t"
  by (simp add: add_revocation_def)

interpretation bloom_store: revocation_store "\<lambda>s. bloom_wf (store_bloom s)"
  "add_revocation xxh3 lru" "is_revoked xxh3 lru" for xxh3 lru
  by unfold_locales
    (simp_all add: is_revoked_bloom is_revoked_result add_revocation_bloom bloom_contains_insert,
     simp add: bloom_insert_def bloom_contains_mono)

text \<open>
  A revoked token is reported as revoked for ever: from a store built by \<^verbatim>\<open>new\<close>, after any sequence
  of calls that adds the revocation at some point, \<^verbatim>\<open>is_revoked\<close> answers \<open>Ok True\<close>, whatever was evicted
  from the cache of confirmed revocations and even when its lock is poisoned; on the fresh store it
  answers \<open>Ok False\<close>. This needs nothing of the hash function.
\<close>

theorem revoked_is_terminal:
  fixes store :: "'c BloomLruRevocationStore"
  assumes "store = BloomLruRevocationStore_new sizing lru cfg"
    and "AddRevocation t \<in> set calls"
  shows "fst (is_revoked xxh3 lru (revocation_run (add_revocation xxh3 lru) (is_revoked xxh3 lru) store calls) t) = Ok True
    \<and> fst (is_revoked xxh3 lru store t) = Ok False"
proof -
  have new: "store_bloom store = AtomicBloom_new (fst (sizing (rev_capacity cfg) (rev_fpr cfg)))
      (snd (sizing (rev_capacity cfg) (rev_fpr cfg)))"
    using assms(1) by (simp add: BloomLruRevocationStore_new_def split: prod.split)
  then have "bloom_wf (store_bloom store)" by (simp add: AtomicBloom_new_wf)
  then have "fst (is_revoked xxh3 lru (revocation_run (add_revocation xxh3 lru) (is_revoked xxh3 lru) store calls) t) = Ok True"
    using assms(2) by (rule bloom_store.run_reported)
  then show ?thesis using new by (simp add: is_revoked_result bloom_contains_new)
qed

definition sample_xxh3 :: "string \<Rightarrow> 128 word" where
  "sample_xxh3 key = of_nat (length key) * 0x10000000000000003"

theorem revoked_is_terminal_witness:
  "fst (is_revoked sample_xxh3 assoc_lru
      (revocation_run (add_revocation sample_xxh3 assoc_lru) (is_revoked sample_xxh3 assoc_lru)
        (BloomLruRevocationStore_new (\<lambda>n r. (100, 3)) assoc_lru
          \<lparr>rev_capacity = 4, rev_fpr = Fin (1 / 10), rev_lru_capacity = 1\<rparr>)
        [AddRevocation ''tok_1'', AddRevocation ''token_22'', IsRevoked ''tok_1'']) ''tok_1'') = Ok True
   \<and> AddRevocation ''tok_1'' \<in> set [AddRevocation ''tok_1'', AddRevocation ''token_22'', IsRevoked ''tok_1'']"
  using revoked_is_terminal [OF refl, of "''tok_1''"
      "[AddRevocation ''tok_1'', AddRevocation ''token_22'', IsRevoked ''tok_1'']" sample_xxh3 assoc_lru]
  by simp

text \<open>
  C21. The bloom filter is safe under concurrent use: whatever interleaving of atomic word updates the
  threads produce, once the updates of one insertion are all in it the key is found, a key found
  earlier stays found, and no probe of any key ever leaves the vector of words (an out-of-range
  index would panic).
\<close>

theorem bloom_concurrent:
  assumes "bloom_wf self"
  shows "(set (probes xxh3 self key) \<subseteq> set trace \<or> bloom_contains xxh3 self key \<longrightarrow>
      bloom_contains xxh3 (fold fetch_or trace self) key)
    \<and> (\<forall>p \<in> set (probes xxh3 (fold fetch_or trace self) key). fst p < length (bloom_bits (fold fetch_or trace self)))"
  using assms bloom_interleaved [OF assms] bloom_contains_mono [OF assms] probes_bound(1) [OF assms]
  by auto

lemma set_splice_eq: "set (splice xs ys) = set xs \<union> set ys"
  by (induction xs ys rule: splice.induct) auto

theorem bloom_concurrent_witness:
  "bloom_contains sample_xxh3
     (fold fetch_or (splice (probes sample_xxh3 (AtomicBloom_new 100 3) ''token_22'')
        (probes sample_xxh3 (AtomicBloom_new 100 3) ''tok_1'')) (AtomicBloom_new 100 3)) ''tok_1''"
  using bloom_concurrent [OF AtomicBloom_new_wf, of sample_xxh3 100 3 "''tok_1''"
      "splice (probes sample_xxh3 (AtomicBloom_new 100 3) ''token_22'') (probes sample_xxh3 (AtomicBloom_new 100 3) ''tok_1'')"]
  by (simp add: set_splice_eq)

end
