(* ===== verification/Authority_Client.thy ===== *)
theory Authority_Client
  imports Cedar_Evaluator Revocation
begin

text \<open>
  The Authority client of the sidecar (\<^verbatim>\<open>firma-sidecar/src/authority_client\<close>): readiness, the published
  enforcement generation, admission of policy bundles with their mapping snapshot, the revocation
  stream, run rejection and reconnect backoff. The stream tasks are an inductive step relation over
  one state; its invariants are proved by rule induction.
\<close>

section \<open>Readiness\<close>

record ReadinessState =
  policy_bundle_ready :: bool
  policy_bundle_fresh :: bool
  revocation_ready :: bool
  run_rejected :: bool

definition ReadinessState_default :: ReadinessState where
  "ReadinessState_default =
     \<lparr>policy_bundle_ready = False, policy_bundle_fresh = False, revocation_ready = False, run_rejected = False\<rparr>"

definition fully_ready :: "ReadinessState \<Rightarrow> bool" where
  "fully_ready self = (\<not> run_rejected self \<and> policy_bundle_ready self \<and> revocation_ready self)"

definition serving :: "ReadinessState \<Rightarrow> bool" where
  "serving self = (fully_ready self \<and> policy_bundle_fresh self)"

definition mark_policy_bundle_swapped :: "ReadinessState \<Rightarrow> ReadinessState" where
  "mark_policy_bundle_swapped state =
     (if run_rejected state then state
      else state\<lparr>policy_bundle_ready := True, policy_bundle_fresh := True\<rparr>)"

definition reject_run :: "ReadinessState \<Rightarrow> ReadinessState" where
  "reject_run state = state\<lparr>run_rejected := True, policy_bundle_ready := False, policy_bundle_fresh := False\<rparr>"

definition refresh_policy_bundle_freshness :: "bool \<Rightarrow> ReadinessState \<Rightarrow> bool option \<times> ReadinessState" where
  "refresh_policy_bundle_freshness is_fresh state =
     (let fresh = \<not> run_rejected state \<and> is_fresh in
      if policy_bundle_fresh state = fresh then (None, state)
      else (Some fresh, state\<lparr>policy_bundle_fresh := fresh\<rparr>))"

definition set_revocation_ready :: "bool \<Rightarrow> ReadinessState \<Rightarrow> ReadinessState" where
  "set_revocation_ready ready state = state\<lparr>revocation_ready := ready\<rparr>"

definition all_ready :: ReadinessState where
  "all_ready =
     ReadinessState_default\<lparr>policy_bundle_ready := True, policy_bundle_fresh := True, revocation_ready := True\<rparr>"

section \<open>The published generation\<close>

record RuntimeSnapshot =
  rs_policy :: PolicyEvaluation
  rs_normalizer :: IntentNormalizer
  rs_ttl_seconds :: nat
  rs_version :: "string option"

definition RuntimeSnapshot_new :: "IntentNormalizer \<Rightarrow> PolicyEvaluation \<Rightarrow> nat \<Rightarrow> string option \<Rightarrow> RuntimeSnapshot" where
  "RuntimeSnapshot_new normalizer policy ttl_seconds version =
     \<lparr>rs_policy = policy, rs_normalizer = normalizer, rs_ttl_seconds = ttl_seconds, rs_version = version\<rparr>"

record PublishedSnapshot =
  ps_policy :: PolicyEvaluation
  ps_normalizer :: IntentNormalizer
  ps_deadline :: datetime
  ps_ttl_seconds :: nat
  ps_version :: "string option"

definition snapshot_deadline :: "datetime \<Rightarrow> nat \<Rightarrow> datetime" where
  "snapshot_deadline now ttl_seconds = now + int ttl_seconds * 1000000000"

definition into_published :: "datetime \<Rightarrow> RuntimeSnapshot \<Rightarrow> PublishedSnapshot" where
  "into_published now self =
     \<lparr>ps_policy = rs_policy self, ps_normalizer = rs_normalizer self,
      ps_deadline = snapshot_deadline now (rs_ttl_seconds self),
      ps_ttl_seconds = rs_ttl_seconds self, ps_version = rs_version self\<rparr>"

text \<open>A published generation as a policy engine.\<close>

definition published_policy :: "PublishedSnapshot \<Rightarrow> PolicyEvaluation" where
  "published_policy self =
     \<lparr>policy_evaluate_verdict = policy_evaluate_verdict (ps_policy self),
      policy_is_fresh = (\<lambda>now. now < ps_deadline self),
      policy_is_available = policy_is_available (ps_policy self),
      policy_version = ps_version self\<rparr>"

definition deny_all_policy :: PolicyEvaluation where
  "deny_all_policy =
     \<lparr>policy_evaluate_verdict = default_evaluate_verdict (\<lambda>agent action resource context. Ok False),
      policy_is_fresh = (\<lambda>now. False), policy_is_available = True, policy_version = None\<rparr>"

section \<open>Admission of a bundle\<close>

text \<open>The protobuf messages.\<close>

record MappingRuleMsg =
  msg_method :: "string option"
  msg_host :: string
  msg_path :: "string option"
  msg_action_class :: string

record ActionMappingSnapshot =
  snap_format_version :: nat
  snap_default_protected :: bool
  snap_rules :: "MappingRuleMsg list"

record BundleMsg =
  msg_version :: string
  msg_policies :: string
  msg_entity_schema :: string
  msg_ttl_seconds :: nat
  msg_mappings :: "ActionMappingSnapshot option"

definition MAX_SNAPSHOT_RULES :: nat where "MAX_SNAPSHOT_RULES = 10000"

definition MAX_VERSION_BYTES :: nat where "MAX_VERSION_BYTES = 256"

definition describe :: "MappingTableError \<Rightarrow> string" where
  "describe err =
     (case err of
        InvalidRulesFile detail \<Rightarrow> ''mapping '' @ detail
      | DuplicateRule index _ \<Rightarrow> ''mapping rule '' @ show_nat index @ '': duplicate matcher''
      | NonExistingActionClass index _ \<Rightarrow> ''mapping rule '' @ show_nat index @ '': unknown action class'')"

text \<open>\<open>parse_method\<close> is \<^verbatim>\<open>http::Method::from_str\<close>.\<close>

fun convert_rules ::
  "(string \<Rightarrow> http_method_token option) \<Rightarrow> nat \<Rightarrow> MappingRuleMsg list \<Rightarrow> (string, MappingRuleConfig list) result" where
  "convert_rules parse_method index [] = Ok []"
| "convert_rules parse_method index (rule # rules) =
     and_then (case msg_method rule of
                 None \<Rightarrow> Ok None
               | Some m \<Rightarrow> (case parse_method m of
                     Some token \<Rightarrow> Ok (Some token)
                   | None \<Rightarrow> Err (''mapping rule '' @ show_nat index @ '': invalid method''))) (\<lambda>m.
     and_then (convert_rules parse_method (index + 1) rules) (\<lambda>configs.
     Ok (\<lparr>cfg_method = m, cfg_host = msg_host rule, cfg_path = msg_path rule,
          cfg_action_class = msg_action_class rule\<rparr> # configs)))"

definition compile_mappings ::
  "(string \<Rightarrow> http_method_token option) \<Rightarrow> ActionMappingSnapshot option \<Rightarrow> (string, MappingTable) result" where
  "compile_mappings parse_method snapshot =
     (case snapshot of
        None \<Rightarrow> Err ''managed policy bundle requires an action mapping snapshot''
      | Some snapshot \<Rightarrow>
          if snap_format_version snapshot \<noteq> 1 \<or> \<not> snap_default_protected snapshot
          then Err ''mapping snapshot requires format version 1 and default_protected=true''
          else if MAX_SNAPSHOT_RULES < length (snap_rules snapshot) then Err ''mapping snapshot exceeds 10000 rules''
          else if snap_rules snapshot = [] then Ok empty_protected
          else and_then (convert_rules parse_method 0 (snap_rules snapshot)) (\<lambda>rules.
                 map_err describe (from_managed_rules rules)))"

definition is_valid_version :: "string \<Rightarrow> bool" where
  "is_valid_version version =
     (version \<noteq> [] \<and> length version \<le> MAX_VERSION_BYTES \<and> list_all is_ascii_graphic version)"

text \<open>\<^verbatim>\<open>CedarBundleParser\<close>.\<close>

definition cedar_parse ::
  "('ps, 'sc, 'cx) cedar_lib \<Rightarrow> datetime \<Rightarrow> string \<Rightarrow> string \<Rightarrow> nat \<Rightarrow> string \<Rightarrow> (string, PolicyEvaluation) result" where
  "cedar_parse lib now policies entity_schema ttl_seconds version =
     and_then (map_err CedarEvaluatorError_display
       (from_bundle lib now (PolicyBundle_new version policies entity_schema ttl_seconds)))
       (\<lambda>evaluator. Ok (cedar_policy lib evaluator))"

definition compile_bundle ::
  "('ps, 'sc, 'cx) cedar_lib \<Rightarrow> (string \<Rightarrow> http_method_token option) \<Rightarrow> datetime \<Rightarrow> PublishedSnapshot \<Rightarrow> BundleMsg
    \<Rightarrow> (string, RuntimeSnapshot) result" where
  "compile_bundle lib parse_method now published bundle =
     (if msg_ttl_seconds bundle = 0 \<or> \<not> is_valid_version (msg_version bundle)
      then Err ''bundle requires a positive TTL and printable-ASCII nonempty version''
      else
        and_then (compile_mappings parse_method (msg_mappings bundle)) (\<lambda>table.
        and_then (cedar_parse lib now (msg_policies bundle) (msg_entity_schema bundle) (msg_ttl_seconds bundle)
          (msg_version bundle)) (\<lambda>policy.
        Ok (RuntimeSnapshot_new (with_mapping_table (ps_normalizer published) table) policy
              (msg_ttl_seconds bundle) (Some (msg_version bundle))))))"

text \<open>The bundle is published before readiness is marked; \<open>now\<close> is the publication time.\<close>

definition apply_bundle ::
  "('ps, 'sc, 'cx) cedar_lib \<Rightarrow> (string \<Rightarrow> http_method_token option) \<Rightarrow> datetime \<Rightarrow> BundleMsg option
    \<Rightarrow> PublishedSnapshot \<times> ReadinessState \<Rightarrow> PublishedSnapshot \<times> ReadinessState" where
  "apply_bundle lib parse_method now bundle st =
     (case st of (published, readiness) \<Rightarrow>
        case bundle of
          None \<Rightarrow> (published, readiness)
        | Some bundle \<Rightarrow>
            (case compile_bundle lib parse_method now published bundle of
               Inl err \<Rightarrow> (published, readiness)
             | Inr snapshot \<Rightarrow> (into_published now snapshot, mark_policy_bundle_swapped readiness)))"

text \<open>\<^verbatim>\<open>FreshnessWatcher::refresh\<close>.\<close>

definition watcher_refresh :: "datetime \<Rightarrow> PublishedSnapshot \<Rightarrow> ReadinessState \<Rightarrow> ReadinessState" where
  "watcher_refresh now published readiness =
     snd (refresh_policy_bundle_freshness (policy_is_fresh (published_policy published) now) readiness)"

section \<open>Rejection and the revocation stream\<close>

datatype SidecarCredential = PreShared string | Runtime string

datatype status_code = Unauthenticated | PermissionDenied | OtherStatus nat

definition rejects_run :: "status_code \<Rightarrow> SidecarCredential option \<Rightarrow> bool" where
  "rejects_run code credentials =
     (code = Unauthenticated \<and> (case credentials of Some (Runtime _) \<Rightarrow> True | _ \<Rightarrow> False))"

text \<open>\<open>parse_token\<close> parses a token id and \<open>add\<close> is the store's \<^verbatim>\<open>add_revocation\<close>.\<close>

definition token_id_from_event :: "(string \<Rightarrow> (string, token_id) result) \<Rightarrow> string \<Rightarrow> (string, token_id) result" where
  "token_id_from_event parse_token event =
     map_err (\<lambda>e. ''invalid token id in revocation event: '' @ e) (parse_token event)"

fun apply_set ::
  "(string \<Rightarrow> (string, token_id) result) \<Rightarrow> ('r \<Rightarrow> token_id \<Rightarrow> (TokenError, unit) result \<times> 'r) \<Rightarrow> 'r \<Rightarrow> string list
    \<Rightarrow> (string, unit) result \<times> 'r" where
  "apply_set parse_token add store [] = (Ok (), store)"
| "apply_set parse_token add store (event # events) =
     (case token_id_from_event parse_token event of
        Inl e \<Rightarrow> (Err e, store)
      | Inr t \<Rightarrow>
          (case add store t of
             (Inl e, store') \<Rightarrow> (Err (TokenError_display e), store')
           | (Inr _, store') \<Rightarrow> apply_set parse_token add store' events))"

section \<open>Backoff\<close>

record ExponentialBackoff =
  bo_min :: nat
  bo_max :: nat
  bo_current :: nat

definition ExponentialBackoff_new :: "nat \<Rightarrow> nat \<Rightarrow> ExponentialBackoff" where
  "ExponentialBackoff_new mn mx = \<lparr>bo_min = mn, bo_max = max mx mn, bo_current = mn\<rparr>"

definition duration_max :: nat where
  "duration_max = 18446744073709551615 * 1000000000 + 999999999"

text \<open>\<open>jitter\<close> maps the base to the base times the random factor (\<^verbatim>\<open>Duration::mul_f64\<close>).\<close>

definition backoff_next :: "(nat \<Rightarrow> nat) \<Rightarrow> ExponentialBackoff \<Rightarrow> nat \<times> ExponentialBackoff" where
  "backoff_next jitter self =
     (let base = min (bo_current self) (bo_max self);
          delay = min (jitter base) (bo_max self)
      in (delay, self\<lparr>bo_current := min (min duration_max (base * 2)) (bo_max self)\<rparr>))"

definition backoff_reset :: "ExponentialBackoff \<Rightarrow> ExponentialBackoff" where
  "backoff_reset self = self\<lparr>bo_current := bo_min self\<rparr>"

section \<open>The stream tasks as a step relation\<close>

text \<open>
  The state the tasks share. \<open>cl_conn_ready\<close> is the local flag of the current revocation connection,
  \<open>cl_stopped\<close> the exit token.
\<close>

record 'c client =
  cl_published :: PublishedSnapshot
  cl_readiness :: ReadinessState
  cl_revocation :: "'c BloomLruRevocationStore"
  cl_conn_ready :: bool
  cl_applied_a_set :: bool
  cl_stopped :: bool

definition client_init :: "IntentNormalizer \<Rightarrow> datetime \<Rightarrow> 'c BloomLruRevocationStore \<Rightarrow> 'c client" where
  "client_init normalizer now store =
     \<lparr>cl_published = into_published now (RuntimeSnapshot_new normalizer deny_all_policy 0 None),
      cl_readiness = ReadinessState_default, cl_revocation = store,
      cl_conn_ready = False, cl_applied_a_set = False, cl_stopped = False\<rparr>"

definition on_disconnect :: "bool \<Rightarrow> ReadinessState \<Rightarrow> ReadinessState" where
  "on_disconnect fail_closed readiness = (if fail_closed then set_revocation_ready False readiness else readiness)"

inductive client_step ::
  "('ps, 'sc, 'cx) cedar_lib \<Rightarrow> (string \<Rightarrow> http_method_token option) \<Rightarrow> (string \<Rightarrow> (string, token_id) result)
    \<Rightarrow> (string \<Rightarrow> 128 word) \<Rightarrow> ('c, unit) lru_lib \<Rightarrow> bool \<Rightarrow> SidecarCredential option \<Rightarrow> 'c client \<Rightarrow> 'c client \<Rightarrow> bool"
  for lib parse_method parse_token xxh3 lru fail_closed credentials where
  bundle_received: "apply_bundle lib parse_method now msg (cl_published s, cl_readiness s) = (published, readiness) \<Longrightarrow>
     client_step lib parse_method parse_token xxh3 lru fail_closed credentials s
       (s\<lparr>cl_published := published, cl_readiness := readiness\<rparr>)"
| freshness: "client_step lib parse_method parse_token xxh3 lru fail_closed credentials s
     (s\<lparr>cl_readiness := watcher_refresh now (cl_published s) (cl_readiness s)\<rparr>)"
| connect: "client_step lib parse_method parse_token xxh3 lru fail_closed credentials s (s\<lparr>cl_conn_ready := False\<rparr>)"
| set_applied: "apply_set parse_token (add_revocation xxh3 lru) (cl_revocation s) events = (Ok (), store) \<Longrightarrow>
     client_step lib parse_method parse_token xxh3 lru fail_closed credentials s
       (s\<lparr>cl_revocation := store, cl_applied_a_set := True, cl_conn_ready := True,
          cl_readiness := (if cl_conn_ready s then cl_readiness s else set_revocation_ready True (cl_readiness s))\<rparr>)"
| set_failed: "apply_set parse_token (add_revocation xxh3 lru) (cl_revocation s) events = (Err e, store) \<Longrightarrow>
     client_step lib parse_method parse_token xxh3 lru fail_closed credentials s
       (s\<lparr>cl_revocation := store, cl_readiness := on_disconnect fail_closed (cl_readiness s)\<rparr>)"
| disconnect: "\<not> rejects_run code credentials \<Longrightarrow>
     client_step lib parse_method parse_token xxh3 lru fail_closed credentials s
       (s\<lparr>cl_readiness := on_disconnect fail_closed (cl_readiness s)\<rparr>)"
| rejected: "rejects_run code credentials \<Longrightarrow>
     client_step lib parse_method parse_token xxh3 lru fail_closed credentials s
       (s\<lparr>cl_readiness := reject_run (cl_readiness s), cl_stopped := True\<rparr>)"

lemmas readiness_defs =
  mark_policy_bundle_swapped_def reject_run_def refresh_policy_bundle_freshness_def set_revocation_ready_def
  on_disconnect_def watcher_refresh_def

text \<open>What holds in every reachable state.\<close>

definition client_inv :: "'c client \<Rightarrow> bool" where
  "client_inv s \<longleftrightarrow>
     (run_rejected (cl_readiness s) \<longrightarrow>
        \<not> policy_bundle_ready (cl_readiness s) \<and> \<not> policy_bundle_fresh (cl_readiness s) \<and> cl_stopped s)
   \<and> (policy_bundle_ready (cl_readiness s) \<longrightarrow>
        (\<exists>v. ps_version (cl_published s) = Some v \<and> is_valid_version v) \<and> 0 < ps_ttl_seconds (cl_published s))
   \<and> (revocation_ready (cl_readiness s) \<longrightarrow> cl_applied_a_set s)
   \<and> bloom_wf (store_bloom (cl_revocation s))"

lemma apply_bundle_cases:
  assumes "apply_bundle lib parse_method now msg (p, r) = (p', r')"
  obtains "p' = p" "r' = r"
  | b snapshot where "msg = Some b" "compile_bundle lib parse_method now p b = Ok snapshot"
      "p' = into_published now snapshot" "r' = mark_policy_bundle_swapped r"
  using assms by (auto simp: apply_bundle_def split: option.splits sum.splits)

lemma compile_bundle_Ok:
  assumes "compile_bundle lib parse_method now p bundle = Ok snapshot"
  shows "0 < msg_ttl_seconds bundle" "is_valid_version (msg_version bundle)"
    "rs_version snapshot = Some (msg_version bundle)" "rs_ttl_seconds snapshot = msg_ttl_seconds bundle"
    "compile_mappings parse_method (msg_mappings bundle) = Ok (mapping_table (rs_normalizer snapshot))"
    "cedar_parse lib now (msg_policies bundle) (msg_entity_schema bundle) (msg_ttl_seconds bundle) (msg_version bundle)
       = Ok (rs_policy snapshot)"
    "sensitive_query_params (rs_normalizer snapshot) = sensitive_query_params (ps_normalizer p)"
  using assms
  by (auto simp: compile_bundle_def RuntimeSnapshot_new_def and_then_Ok with_mapping_table_def split: if_split_asm)

lemma add_revocation_Ok: "fst (add_revocation xxh3 lru store t) = Ok ()"
  by (simp add: add_revocation_def)

lemma add_revocation_wf:
  "bloom_wf (store_bloom store) \<Longrightarrow> bloom_wf (store_bloom (snd (add_revocation xxh3 lru store t)))"
  by (simp add: add_revocation_bloom)

lemma apply_set_wf:
  "bloom_wf (store_bloom store) \<Longrightarrow> bloom_wf (store_bloom (snd (apply_set parse_token (add_revocation xxh3 lru) store events)))"
  by (induction events arbitrary: store) (auto simp: add_revocation_def split: sum.split)

lemma apply_set_keeps:
  "bloom_wf (store_bloom store) \<Longrightarrow> fst (is_revoked xxh3 lru store t) = Ok True \<Longrightarrow>
     fst (is_revoked xxh3 lru (snd (apply_set parse_token (add_revocation xxh3 lru) store events)) t) = Ok True"
proof (induction events arbitrary: store)
  case (Cons event events)
  show ?case
  proof (cases "token_id_from_event parse_token event")
    case (Inl e)
    then show ?thesis using Cons.prems by simp
  next
    case (Inr u)
    let ?store = "snd (add_revocation xxh3 lru store u)"
    have "bloom_wf (store_bloom ?store)" "fst (is_revoked xxh3 lru ?store t) = Ok True"
      using Cons.prems bloom_store.inv_add bloom_store.add_keeps by blast+
    from Cons.IH [OF this] show ?thesis using Inr by (simp add: add_revocation_def)
  qed
qed simp

lemma apply_set_reported:
  assumes "apply_set parse_token (add_revocation xxh3 lru) store events = (Ok (), store')"
    and "bloom_wf (store_bloom store)" and "event \<in> set events" and "parse_token event = Ok t"
  shows "fst (is_revoked xxh3 lru store' t) = Ok True"
  using assms(1-3)
proof (induction events arbitrary: store)
  case (Cons e events)
  obtain u where u: "token_id_from_event parse_token e = Ok u"
    using Cons.prems(1) by (auto split: sum.splits)
  let ?store = "snd (add_revocation xxh3 lru store u)"
  have rest: "apply_set parse_token (add_revocation xxh3 lru) ?store events = (Ok (), store')"
    using Cons.prems(1) u add_revocation_Ok [of xxh3 lru store u] by (auto split: prod.splits sum.splits)
  have wf: "bloom_wf (store_bloom ?store)" using Cons.prems(2) by (rule add_revocation_wf)
  show ?case
  proof (cases "e = event")
    case True
    then have "u = t" using u assms(4) by (simp add: token_id_from_event_def map_err_def)
    then have "fst (is_revoked xxh3 lru ?store t) = Ok True" using bloom_store.add_reported [OF Cons.prems(2)] by simp
    from apply_set_keeps [OF wf this, of parse_token events] show ?thesis using rest by simp
  next
    case False
    then show ?thesis using Cons.IH [OF rest wf] Cons.prems(3) by simp
  qed
qed simp

lemma watcher_refresh_eq:
  "watcher_refresh now p r = r\<lparr>policy_bundle_fresh := (\<not> run_rejected r \<and> now < ps_deadline p)\<rparr>"
  by (simp add: watcher_refresh_def refresh_policy_bundle_freshness_def published_policy_def Let_def)

lemma client_step_inv:
  assumes "client_step lib parse_method parse_token xxh3 lru fail_closed credentials s s'" and "client_inv s"
  shows "client_inv s'"
  using assms
proof (cases rule: client_step.cases)
  case (bundle_received now msg published readiness)
  from bundle_received(2) show ?thesis
  proof (cases rule: apply_bundle_cases)
    case 1
    then show ?thesis using bundle_received(1) assms(2) by (simp add: client_inv_def)
  next
    case (2 b snapshot)
    note ok = compile_bundle_Ok [OF 2(2)]
    show ?thesis using bundle_received(1) 2 ok assms(2)
      by (auto simp: client_inv_def into_published_def mark_policy_bundle_swapped_def)
  qed
next
  case (set_applied events store)
  then show ?thesis
    using assms(2) apply_set_wf [of "cl_revocation s" parse_token xxh3 lru events]
    by (auto simp: client_inv_def set_revocation_ready_def)
next
  case (set_failed events e store)
  then show ?thesis
    using assms(2) apply_set_wf [of "cl_revocation s" parse_token xxh3 lru events]
    by (auto simp: client_inv_def set_revocation_ready_def on_disconnect_def)
qed (auto simp: client_inv_def readiness_defs [unfolded watcher_refresh_def] watcher_refresh_eq)

lemma client_reach_inv:
  "(client_step lib parse_method parse_token xxh3 lru fail_closed credentials)\<^sup>*\<^sup>* s s' \<Longrightarrow> client_inv s \<Longrightarrow> client_inv s'"
  by (induction rule: rtranclp_induct) (auto intro: client_step_inv)

lemma client_init_inv: "bloom_wf (store_bloom store) \<Longrightarrow> client_inv (client_init normalizer now store)"
  by (simp add: client_init_def client_inv_def ReadinessState_default_def)

lemma client_step_rejected:
  "client_step lib parse_method parse_token xxh3 lru fail_closed credentials s s' \<Longrightarrow>
     run_rejected (cl_readiness s) \<Longrightarrow> run_rejected (cl_readiness s')"
  by (cases rule: client_step.cases, assumption)
    (auto simp: set_revocation_ready_def on_disconnect_def reject_run_def watcher_refresh_eq
      mark_policy_bundle_swapped_def elim!: apply_bundle_cases)

lemma client_reach_rejected:
  "(client_step lib parse_method parse_token xxh3 lru fail_closed credentials)\<^sup>*\<^sup>* s s' \<Longrightarrow>
     run_rejected (cl_readiness s) \<Longrightarrow> run_rejected (cl_readiness s')"
  by (induction rule: rtranclp_induct) (auto intro: client_step_rejected)

lemma client_step_revoked:
  assumes "client_step lib parse_method parse_token xxh3 lru fail_closed credentials s s'" and "client_inv s"
    and "fst (is_revoked xxh3 lru (cl_revocation s) t) = Ok True"
  shows "fst (is_revoked xxh3 lru (cl_revocation s') t) = Ok True"
  using assms(1)
proof (cases rule: client_step.cases)
  case (set_applied events store)
  then show ?thesis
    using apply_set_keeps [OF _ assms(3), of parse_token events] assms(2) by (simp add: client_inv_def)
next
  case (set_failed events e store)
  then show ?thesis
    using apply_set_keeps [OF _ assms(3), of parse_token events] assms(2) by (simp add: client_inv_def)
qed (use assms(3) in simp_all)

lemma client_reach_revoked:
  assumes "(client_step lib parse_method parse_token xxh3 lru fail_closed credentials)\<^sup>*\<^sup>* s s'" and "client_inv s"
    and "fst (is_revoked xxh3 lru (cl_revocation s) t) = Ok True"
  shows "fst (is_revoked xxh3 lru (cl_revocation s') t) = Ok True"
  using assms(1)
proof (induction rule: rtranclp_induct)
  case (step y z)
  then show ?case using client_step_revoked client_reach_inv [OF step(1) assms(2)] by blast
qed (rule assms(3))

section \<open>Serving, rejection and revocation over every run\<close>

text \<open>
  C9. In every state the stream tasks can reach from start-up, the sidecar reports itself serving only
  if its run was not rejected, the generation it enforces was published from an admitted bundle, so
  its version is valid and its time to live positive, and some complete revocation set was applied.
\<close>

theorem serving_sound:
  assumes "bloom_wf (store_bloom store)"
    and "(client_step lib parse_method parse_token xxh3 lru fail_closed credentials)\<^sup>*\<^sup>* (client_init normalizer now store) s"
    and "serving (cl_readiness s)"
  shows "\<not> run_rejected (cl_readiness s) \<and> cl_applied_a_set s \<and> 0 < ps_ttl_seconds (cl_published s)
     \<and> (\<exists>v. ps_version (cl_published s) = Some v \<and> is_valid_version v)"
  using client_reach_inv [OF assms(2) client_init_inv [OF assms(1)]] assms(3)
  by (auto simp: client_inv_def serving_def fully_ready_def)

text \<open>
  C10. Rejection of the run is terminal: from the step on which the Authority rejects a
  runtime-attested run, no sequence of bundles, freshness ticks, revocation sets or reconnects brings
  the sidecar back to serving, ready or fresh.
\<close>

theorem rejection_terminal:
  assumes "bloom_wf (store_bloom store)"
    and "(client_step lib parse_method parse_token xxh3 lru fail_closed credentials)\<^sup>*\<^sup>* (client_init normalizer now store) s"
    and "rejects_run code credentials"
    and "(client_step lib parse_method parse_token xxh3 lru fail_closed credentials)\<^sup>*\<^sup>*
           (s\<lparr>cl_readiness := reject_run (cl_readiness s), cl_stopped := True\<rparr>) s'"
  shows "\<not> serving (cl_readiness s') \<and> \<not> policy_bundle_ready (cl_readiness s') \<and> \<not> policy_bundle_fresh (cl_readiness s')"
proof -
  let ?s = "s\<lparr>cl_readiness := reject_run (cl_readiness s), cl_stopped := True\<rparr>"
  have "client_inv ?s"
    using client_reach_inv [OF assms(2) client_init_inv [OF assms(1)]] assms(3)
    by (blast intro: client_step_inv client_step.rejected)
  then have "client_inv s'" using client_reach_inv [OF assms(4)] by blast
  moreover have "run_rejected (cl_readiness s')"
    using client_reach_rejected [OF assms(4)] by (simp add: reject_run_def)
  ultimately show ?thesis by (simp add: client_inv_def serving_def fully_ready_def)
qed

text \<open>
  Once a revocation set has been applied, every token it names is reported revoked in every later
  state of the client, whatever bundles, sets and disconnects come in between.
\<close>

theorem applied_set_stays_revoked:
  assumes "bloom_wf (store_bloom store)"
    and "(client_step lib parse_method parse_token xxh3 lru fail_closed credentials)\<^sup>*\<^sup>* (client_init normalizer now store) s"
    and "apply_set parse_token (add_revocation xxh3 lru) (cl_revocation s) events = (Ok (), store')"
    and "event \<in> set events" and "parse_token event = Ok t"
    and "(client_step lib parse_method parse_token xxh3 lru fail_closed credentials)\<^sup>*\<^sup>*
           (s\<lparr>cl_revocation := store', cl_applied_a_set := True, cl_conn_ready := True,
              cl_readiness := (if cl_conn_ready s then cl_readiness s else set_revocation_ready True (cl_readiness s))\<rparr>) s'"
  shows "fst (is_revoked xxh3 lru (cl_revocation s') t) = Ok True"
proof -
  have inv: "client_inv s" using client_reach_inv [OF assms(2) client_init_inv [OF assms(1)]] .
  show ?thesis
  proof (rule client_reach_revoked [OF assms(6) client_step_inv [OF client_step.set_applied [OF assms(3)] inv]])
    show "fst (is_revoked xxh3 lru (cl_revocation (s\<lparr>cl_revocation := store', cl_applied_a_set := True, cl_conn_ready := True,
        cl_readiness := (if cl_conn_ready s then cl_readiness s else set_revocation_ready True (cl_readiness s))\<rparr>)) t) = Ok True"
      using apply_set_reported [OF assms(3) _ assms(4,5)] inv by (simp add: client_inv_def)
  qed
qed

text \<open>
  C11. Admission of a bundle is all or nothing. Either nothing changes, or the bundle had a valid
  version, a positive time to live, a mapping snapshot that compiles under the managed rules and
  policies and schema that parse, and then exactly these are published together, with the deadline
  counted from publication, the query redaction list kept, and readiness marked unless the run was
  rejected.
\<close>

theorem apply_bundle_atomic:
  assumes "apply_bundle lib parse_method now msg (p, r) = (p', r')"
  shows "(p', r') = (p, r) \<or>
    (\<exists>b. msg = Some b \<and> is_valid_version (msg_version b) \<and> 0 < msg_ttl_seconds b
       \<and> compile_mappings parse_method (msg_mappings b) = Ok (mapping_table (ps_normalizer p'))
       \<and> cedar_parse lib now (msg_policies b) (msg_entity_schema b) (msg_ttl_seconds b) (msg_version b) = Ok (ps_policy p')
       \<and> sensitive_query_params (ps_normalizer p') = sensitive_query_params (ps_normalizer p)
       \<and> ps_version p' = Some (msg_version b)
       \<and> (\<forall>t. policy_is_fresh (published_policy p') t \<longleftrightarrow> t < now + int (msg_ttl_seconds b) * 1000000000)
       \<and> (run_rejected r \<longrightarrow> r' = r)
       \<and> (\<not> run_rejected r \<longrightarrow> policy_bundle_ready r' \<and> policy_bundle_fresh r' \<and> \<not> run_rejected r'
            \<and> revocation_ready r' = revocation_ready r))"
  using assms
proof (cases rule: apply_bundle_cases)
  case (2 b snapshot)
  note ok = compile_bundle_Ok [OF 2(2)]
  show ?thesis
    using 2 ok
    by (intro disjI2 exI [of _ b])
      (simp add: into_published_def published_policy_def snapshot_deadline_def mark_policy_bundle_swapped_def)
qed simp

fun backoff_iter :: "(nat \<Rightarrow> nat \<Rightarrow> nat) \<Rightarrow> nat \<Rightarrow> ExponentialBackoff \<Rightarrow> ExponentialBackoff" where
  "backoff_iter jitter 0 self = self"
| "backoff_iter jitter (Suc n) self = snd (backoff_next (jitter n) (backoff_iter jitter n self))"

lemma backoff_iter_fields:
  "bo_min (backoff_iter jitter n (ExponentialBackoff_new mn mx)) = mn"
  "bo_max (backoff_iter jitter n (ExponentialBackoff_new mn mx)) = max mx mn"
  by (induction n) (simp_all add: backoff_next_def Let_def ExponentialBackoff_new_def)

lemma double_capped: "(m::nat) \<le> d \<Longrightarrow> min (min d (min (min m x) m * 2)) m = min m (x * 2)"
  by (simp add: min_def)

lemma backoff_iter_current:
  "max mx mn \<le> duration_max \<Longrightarrow>
     bo_current (backoff_iter jitter n (ExponentialBackoff_new mn mx)) = min (max mx mn) (mn * 2 ^ n)"
proof (induction n)
  case (Suc n)
  let ?b = "backoff_iter jitter n (ExponentialBackoff_new mn mx)"
  have "bo_current (backoff_iter jitter (Suc n) (ExponentialBackoff_new mn mx)) =
      min (min duration_max (min (bo_current ?b) (bo_max ?b) * 2)) (bo_max ?b)"
    by (simp add: backoff_next_def Let_def)
  also have "\<dots> = min (max mx mn) (mn * 2 ^ n * 2)"
    using Suc by (simp only: backoff_iter_fields double_capped)
  finally show ?case by (simp add: mult.assoc mult.commute [of 2])
qed (simp add: ExponentialBackoff_new_def)

text \<open>
  The reconnect backoff doubles from its minimum and never exceeds its maximum: after n attempts
  the base delay is the minimum times two to the n, capped, every delay handed out is at most the
  maximum whatever the jitter, and a reset starts again from the minimum.
\<close>

theorem backoff_schedule:
  assumes "mn \<le> mx" and "mx \<le> duration_max"
  shows "bo_current (backoff_iter jitter n (ExponentialBackoff_new mn mx)) = min mx (mn * 2 ^ n)
     \<and> fst (backoff_next (jitter n) (backoff_iter jitter n (ExponentialBackoff_new mn mx))) \<le> mx
     \<and> (jitter n = id \<longrightarrow> fst (backoff_next (jitter n) (backoff_iter jitter n (ExponentialBackoff_new mn mx))) = min mx (mn * 2 ^ n))
     \<and> backoff_reset (backoff_iter jitter n (ExponentialBackoff_new mn mx)) = ExponentialBackoff_new mn mx"
proof -
  let ?b = "backoff_iter jitter n (ExponentialBackoff_new mn mx)"
  have "bo_current ?b = min mx (mn * 2 ^ n)" "bo_max ?b = mx" "bo_min ?b = mn"
    using backoff_iter_current [of mx mn jitter n] assms by (simp_all add: backoff_iter_fields max_absorb1)
  then show ?thesis
    using assms by (simp add: backoff_next_def Let_def backoff_reset_def ExponentialBackoff_new_def max_absorb1)
qed

theorem backoff_schedule_witness:
  "bo_current (backoff_iter (\<lambda>_ b. b + b div 10) 3 (ExponentialBackoff_new 1 5)) = 5
   \<and> fst (backoff_next (\<lambda>b. b + b div 10) (backoff_iter (\<lambda>_ b. b + b div 10) 3 (ExponentialBackoff_new 1 5))) \<le> 5"
  using backoff_schedule [of 1 5 "\<lambda>_ b. b + b div 10" 3] by (simp add: duration_max_def)

section \<open>A concrete run\<close>

definition sample_msg :: BundleMsg where
  "sample_msg =
     \<lparr>msg_version = ''v1'', msg_policies = ''policies'', msg_entity_schema = ''schema'', msg_ttl_seconds = 60,
      msg_mappings = Some \<lparr>snap_format_version = 1, snap_default_protected = True, snap_rules = []\<rparr>\<rparr>"

definition sample_normalizer :: IntentNormalizer where
  "sample_normalizer = IntentNormalizer_new empty_protected"

definition sample_revocations :: "unit assoc_cache BloomLruRevocationStore" where
  "sample_revocations =
     BloomLruRevocationStore_new (\<lambda>n r. (100, 3)) assoc_lru
       \<lparr>rev_capacity = 4, rev_fpr = Fin (1 / 10), rev_lru_capacity = 1\<rparr>"

abbreviation sample_steps :: "unit assoc_cache client \<Rightarrow> unit assoc_cache client \<Rightarrow> bool" where
  "sample_steps \<equiv> client_step (sample_cedar_lib [modify_policy]) Some Inr sample_xxh3 assoc_lru True (Some (Runtime ''run''))"

abbreviation sample_client :: "unit assoc_cache client" where
  "sample_client \<equiv> client_init sample_normalizer 0 sample_revocations"

lemma sample_revocations_wf: "bloom_wf (store_bloom sample_revocations)"
  by (simp add: sample_revocations_def BloomLruRevocationStore_new_def AtomicBloom_new_wf)

lemma sample_msg_version: "Some sample_msg = Some b \<Longrightarrow> msg_version b = ''v1''"
  by (auto simp: sample_msg_def)

lemma sample_compile:
  "\<exists>snapshot. compile_bundle (sample_cedar_lib [modify_policy]) Some 0 (cl_published sample_client) sample_msg = Ok snapshot"
proof -
  have "is_valid_version ''v1''" by code_simp
  then show ?thesis
    using sample_from_bundle
    by (simp add: compile_bundle_def sample_msg_def compile_mappings_def cedar_parse_def sample_bundle_def
        MAX_SNAPSHOT_RULES_def map_err_def)
qed

definition sample_ready :: "unit assoc_cache client" where
  "sample_ready =
     (let (published, readiness) = apply_bundle (sample_cedar_lib [modify_policy]) Some 0 (Some sample_msg)
            (cl_published sample_client, cl_readiness sample_client)
      in sample_client\<lparr>cl_published := published, cl_readiness := readiness\<rparr>)"

lemma sample_ready_step: "sample_steps sample_client sample_ready"
  by (simp add: sample_ready_def client_step.bundle_received split: prod.split)

lemma sample_ready_reach: "sample_steps\<^sup>*\<^sup>* sample_client sample_ready"
  using sample_ready_step by (rule r_into_rtranclp [of sample_steps])

lemma sample_ready_readiness:
  "cl_readiness sample_ready = mark_policy_bundle_swapped ReadinessState_default"
  "cl_conn_ready sample_ready = False" "cl_revocation sample_ready = sample_revocations"
  using sample_compile
  by (auto simp: sample_ready_def apply_bundle_def client_init_def)

lemma sample_apply:
  "apply_set Inr (add_revocation sample_xxh3 assoc_lru) (cl_revocation sample_ready) [''tok_1''] =
     (Ok (), snd (apply_set Inr (add_revocation sample_xxh3 assoc_lru) sample_revocations [''tok_1'']))"
  by (simp add: sample_ready_readiness token_id_from_event_def map_err_def add_revocation_def)

lemma sample_set_step:
  "sample_steps sample_ready
     (sample_ready\<lparr>cl_revocation := snd (apply_set Inr (add_revocation sample_xxh3 assoc_lru) sample_revocations [''tok_1'']),
       cl_applied_a_set := True, cl_conn_ready := True,
       cl_readiness := (if cl_conn_ready sample_ready then cl_readiness sample_ready
         else set_revocation_ready True (cl_readiness sample_ready))\<rparr>)"
  using sample_apply by (rule client_step.set_applied)

theorem serving_sound_witness:
  "\<exists>s. sample_steps\<^sup>*\<^sup>* sample_client s \<and> serving (cl_readiness s)
     \<and> (\<exists>v. ps_version (cl_published s) = Some v \<and> is_valid_version v)"
proof -
  let ?s = "sample_ready\<lparr>cl_revocation := snd (apply_set Inr (add_revocation sample_xxh3 assoc_lru) sample_revocations [''tok_1'']),
       cl_applied_a_set := True, cl_conn_ready := True,
       cl_readiness := (if cl_conn_ready sample_ready then cl_readiness sample_ready
         else set_revocation_ready True (cl_readiness sample_ready))\<rparr>"
  have reach: "sample_steps\<^sup>*\<^sup>* sample_client ?s"
    using sample_ready_reach sample_set_step by (rule rtranclp.rtrancl_into_rtrancl [of sample_steps])
  moreover have "serving (cl_readiness ?s)"
    by (simp add: sample_ready_readiness serving_def fully_ready_def readiness_defs ReadinessState_default_def)
  ultimately show ?thesis using serving_sound [OF sample_revocations_wf reach] by blast
qed

theorem rejection_terminal_witness:
  "serving (cl_readiness sample_ready) = False
   \<and> \<not> serving (cl_readiness (sample_ready\<lparr>cl_readiness := reject_run (cl_readiness sample_ready), cl_stopped := True\<rparr>))"
  using rejection_terminal [OF sample_revocations_wf sample_ready_reach _ rtranclp.rtrancl_refl, of Unauthenticated]
  by (simp add: rejects_run_def sample_ready_readiness serving_def fully_ready_def readiness_defs ReadinessState_default_def)

theorem applied_set_stays_revoked_witness:
  "fst (is_revoked sample_xxh3 assoc_lru
     (snd (apply_set Inr (add_revocation sample_xxh3 assoc_lru) sample_revocations [''tok_1''])) ''tok_1'') = Ok True"
  using applied_set_stays_revoked [OF sample_revocations_wf sample_ready_reach sample_apply _ _ rtranclp.rtrancl_refl,
      of "''tok_1''" "''tok_1''"]
  by simp

theorem apply_bundle_atomic_witness:
  "\<exists>p r. apply_bundle (sample_cedar_lib [modify_policy]) Some 0 (Some sample_msg)
        (cl_published sample_client, ReadinessState_default) = (p, r)
     \<and> ps_version p = Some ''v1'' \<and> policy_bundle_ready r"
proof -
  let ?p = "cl_published sample_client" and ?lib = "sample_cedar_lib [modify_policy]"
  obtain snapshot where "compile_bundle ?lib Some 0 ?p sample_msg = Ok snapshot" using sample_compile ..
  then have pr: "apply_bundle ?lib Some 0 (Some sample_msg) (?p, ReadinessState_default) =
      (into_published 0 snapshot, mark_policy_bundle_swapped ReadinessState_default)"
    by (simp add: apply_bundle_def)
  have "ReadinessState_default \<noteq> mark_policy_bundle_swapped ReadinessState_default"
    by (simp add: mark_policy_bundle_swapped_def ReadinessState_default_def)
  with apply_bundle_atomic [OF pr] have "ps_version (into_published 0 snapshot) = Some ''v1''"
    by (elim disjE exE conjE) (simp, drule sample_msg_version, simp)
  moreover have "policy_bundle_ready (mark_policy_bundle_swapped ReadinessState_default)"
    by (simp add: mark_policy_bundle_swapped_def ReadinessState_default_def)
  ultimately show ?thesis using pr by blast
qed

end
