(* ===== verification/Capability_Map.thy ===== *)
theory Capability_Map
  imports Tokens
begin

text \<open>
  Capability selection (\<^verbatim>\<open>firma-sidecar/src/enforcement/capability_map.rs\<close>): the action-class index
  built at construction, the score of an entry, the tie-break, and \<^verbatim>\<open>select\<close>, proved to return a
  best entry of the session over all entries although it only looks at the indexed ones.
\<close>

record CapabilityEntry =
  entry_raw_token :: string
  entry_claims :: CapabilityClaims

record CapabilityMap =
  map_entries :: "CapabilityEntry list"
  map_by_action :: "string \<rightharpoonup> nat list"
  map_wildcard_indices :: "nat list"

section \<open>Construction\<close>

type_synonym action_index = "(string \<rightharpoonup> nat list) \<times> nat list"

fun index_actions :: "nat \<Rightarrow> string list \<Rightarrow> action_index \<Rightarrow> action_index" where
  "index_actions idx [] acc = acc"
| "index_actions idx (action # actions) (by_action, wild) =
     index_actions idx actions
       (if action = ''*'' then (by_action, wild @ [idx])
        else (by_action(action \<mapsto> unwrap_or [] (by_action action) @ [idx]), wild))"

fun index_entries :: "nat \<Rightarrow> CapabilityEntry list \<Rightarrow> action_index \<Rightarrow> action_index" where
  "index_entries idx [] acc = acc"
| "index_entries idx (entry # entries) acc =
     index_entries (idx + 1) entries (index_actions idx (claim_action_set (entry_claims entry)) acc)"

definition CapabilityMap_new :: "CapabilityEntry list \<Rightarrow> CapabilityMap" where
  "CapabilityMap_new entries =
     (case index_entries 0 entries (Map.empty, []) of (by_action, wild) \<Rightarrow>
        \<lparr>map_entries = entries, map_by_action = by_action, map_wildcard_indices = wild\<rparr>)"

section \<open>Scoring\<close>

definition match_score :: "CapabilityClaims \<Rightarrow> string \<Rightarrow> string \<Rightarrow> nat" where
  "match_score claims class resource =
     (let has_wildcard_action = ''*'' \<in> set (claim_action_set claims);
          has_exact_action = class \<in> set (claim_action_set claims)
      in if \<not> has_exact_action \<and> \<not> has_wildcard_action then 0
         else let score = (if has_exact_action then 100 else 10) in
           if claim_resource_scope claims = ''*'' then score + 1
           else if matches_resource_scope (claim_resource_scope claims) resource then score + 50
           else if claim_resource_scope claims \<noteq> [] then 0
           else score)"

definition is_better_than :: "CapabilityClaims \<Rightarrow> CapabilityClaims \<Rightarrow> bool" where
  "is_better_than candidate current =
     (if length (claim_action_set candidate) < length (claim_action_set current) then True
      else if length (claim_action_set current) < length (claim_action_set candidate) then False
      else
        let cand_specific = claim_resource_scope candidate \<noteq> ''*'';
            curr_specific = claim_resource_scope current \<noteq> ''*''
        in if cand_specific \<and> \<not> curr_specific then True
           else if \<not> cand_specific \<and> curr_specific then False
           else claim_issued_at current < claim_issued_at candidate)"

definition should_replace :: "nat \<Rightarrow> CapabilityEntry \<Rightarrow> (nat \<times> CapabilityEntry) option \<Rightarrow> bool" where
  "should_replace score entry best_match =
     (if score = 0 then False
      else case best_match of
        None \<Rightarrow> True
      | Some (best_score, best_entry) \<Rightarrow>
          best_score < score
        \<or> score = best_score \<and> is_better_than (entry_claims entry) (entry_claims best_entry))"

section \<open>Selection\<close>

text \<open>The loop over a list of entry indices.\<close>

fun select_loop ::
  "CapabilityEntry list \<Rightarrow> string \<Rightarrow> string \<Rightarrow> string \<Rightarrow> nat list \<Rightarrow> (nat \<times> CapabilityEntry) option
    \<Rightarrow> (nat \<times> CapabilityEntry) option" where
  "select_loop entries session class resource [] best = best"
| "select_loop entries session class resource (idx # rest) best =
     (let entry = entries ! idx in
      if claim_session_id (entry_claims entry) \<noteq> session
      then select_loop entries session class resource rest best
      else
        let score = match_score (entry_claims entry) class resource in
        select_loop entries session class resource rest
          (if should_replace score entry best then Some (score, entry) else best))"

definition select :: "CapabilityMap \<Rightarrow> string \<Rightarrow> string \<Rightarrow> string \<Rightarrow> (EnforcementDecision, CapabilityEntry) result" where
  "select self session class resource =
     (let best1 = (case map_by_action self class of
                     Some indices \<Rightarrow> select_loop (map_entries self) session class resource indices None
                   | None \<Rightarrow> None);
          best2 = select_loop (map_entries self) session class resource (map_wildcard_indices self) best1
      in case best2 of
           Some (_, entry) \<Rightarrow> Ok entry
         | None \<Rightarrow>
             Err (into_deny (NoMatchingToken
               (''no capability token covers action '' @ CHR 0x27 # class @ CHR 0x27 # '' on resource ''
                 @ CHR 0x27 # resource @ [CHR 0x27]))
               (CapabilityValidation TokenSelection)))"

section \<open>The index\<close>

lemma index_actions_wild:
  "set (snd (index_actions idx actions acc)) =
     set (snd acc) \<union> (if ''*'' \<in> set actions then {idx} else {})"
  by (induction idx actions acc rule: index_actions.induct) auto

lemma index_actions_by:
  "a \<noteq> ''*'' \<Longrightarrow> set (unwrap_or [] (fst (index_actions idx actions acc) a)) =
     set (unwrap_or [] (fst acc a)) \<union> (if a \<in> set actions then {idx} else {})"
  by (induction idx actions acc rule: index_actions.induct) auto

lemma index_actions_star: "fst acc ''*'' = None \<Longrightarrow> fst (index_actions idx actions acc) ''*'' = None"
  by (induction idx actions acc rule: index_actions.induct) auto

lemma index_entries_star: "fst acc ''*'' = None \<Longrightarrow> fst (index_entries idx entries acc) ''*'' = None"
  by (induction idx entries acc rule: index_entries.induct) (auto simp: index_actions_star)

lemma index_entries_wild:
  "set (snd (index_entries idx entries acc)) =
     set (snd acc) \<union> {idx + i | i. i < length entries \<and> ''*'' \<in> set (claim_action_set (entry_claims (entries ! i)))}"
proof (induction idx entries acc rule: index_entries.induct)
  case (2 idx entry entries acc)
  have "{idx + i | i. i < length (entry # entries) \<and> ''*'' \<in> set (claim_action_set (entry_claims ((entry # entries) ! i)))}
      = (if ''*'' \<in> set (claim_action_set (entry_claims entry)) then {idx} else {})
      \<union> {idx + 1 + i | i. i < length entries \<and> ''*'' \<in> set (claim_action_set (entry_claims (entries ! i)))}"
    by (auto simp: less_Suc_eq_0_disj)
  with 2 show ?case by (simp add: index_actions_wild Un_assoc)
qed simp

lemma index_entries_by:
  "a \<noteq> ''*'' \<Longrightarrow> set (unwrap_or [] (fst (index_entries idx entries acc) a)) =
     set (unwrap_or [] (fst acc a))
     \<union> {idx + i | i. i < length entries \<and> a \<in> set (claim_action_set (entry_claims (entries ! i)))}"
proof (induction idx entries acc rule: index_entries.induct)
  case (2 idx entry entries acc)
  have "{idx + i | i. i < length (entry # entries) \<and> a \<in> set (claim_action_set (entry_claims ((entry # entries) ! i)))}
      = (if a \<in> set (claim_action_set (entry_claims entry)) then {idx} else {})
      \<union> {idx + 1 + i | i. i < length entries \<and> a \<in> set (claim_action_set (entry_claims (entries ! i)))}"
    by (auto simp: less_Suc_eq_0_disj)
  with 2 show ?case by (simp add: index_actions_by Un_assoc)
qed simp

text \<open>The entries the two loops visit, in order.\<close>

definition candidates :: "CapabilityMap \<Rightarrow> string \<Rightarrow> nat list" where
  "candidates self class = unwrap_or [] (map_by_action self class) @ map_wildcard_indices self"

definition grants :: "CapabilityEntry list \<Rightarrow> string \<Rightarrow> nat set" where
  "grants entries a = {i. i < length entries \<and> a \<in> set (claim_action_set (entry_claims (entries ! i)))}"

lemma map_wildcard_indices_new: "set (map_wildcard_indices (CapabilityMap_new entries)) = grants entries ''*''"
  using index_entries_wild [of 0 entries "(Map.empty, [])"]
  by (simp add: CapabilityMap_new_def grants_def case_prod_beta)

lemma map_by_action_new:
  "set (unwrap_or [] (map_by_action (CapabilityMap_new entries) a)) =
     (if a = ''*'' then {} else grants entries a)"
  using index_entries_by [of a 0 entries "(Map.empty, [])"] index_entries_star [of "(Map.empty, [])" 0 entries]
  by (simp add: CapabilityMap_new_def grants_def case_prod_beta)

lemma candidates_new:
  "set (candidates (CapabilityMap_new entries) class) = grants entries class \<union> grants entries ''*''"
  by (simp add: candidates_def map_by_action_new map_wildcard_indices_new)

section \<open>Optimality\<close>

definition better :: "nat \<times> CapabilityEntry \<Rightarrow> nat \<times> CapabilityEntry \<Rightarrow> bool" where
  "better x y \<longleftrightarrow> fst y < fst x \<or> fst x = fst y \<and> is_better_than (entry_claims (snd x)) (entry_claims (snd y))"

lemma is_better_than_lex:
  "is_better_than a b \<longleftrightarrow>
     (let wild = (\<lambda>c. of_bool (claim_resource_scope c = ''*'') :: nat);
          len = (\<lambda>c. length (claim_action_set c)) in
      len a < len b \<or> len a = len b \<and>
        (wild a < wild b \<or> wild a = wild b \<and> claim_issued_at b < claim_issued_at a))"
  by (auto simp: is_better_than_def Let_def)

lemma is_better_negtrans: "is_better_than a c \<Longrightarrow> is_better_than a b \<or> is_better_than b c"
  unfolding is_better_than_lex Let_def by linarith

lemma better_negtrans: "better x z \<Longrightarrow> better x y \<or> better y z"
  using is_better_negtrans [of "entry_claims (snd x)" "entry_claims (snd z)" "entry_claims (snd y)"]
  unfolding better_def by linarith

lemma is_better_irrefl: "\<not> is_better_than a a"
  by (simp add: is_better_than_def)

lemma better_irrefl: "\<not> better x x"
  by (simp add: better_def is_better_irrefl)

lemma better_asym: "better x y \<Longrightarrow> \<not> better y x"
  by (auto simp: better_def is_better_than_lex Let_def)

lemma should_replace_iff:
  "should_replace score entry best \<longleftrightarrow>
     0 < score \<and> (case best of None \<Rightarrow> True | Some b \<Rightarrow> better (score, entry) b)"
  by (auto simp: should_replace_def better_def split: option.splits)

lemma nxt_best:
  assumes "0 < s" and "(if should_replace s e best then Some (s, e) else best) = Some b"
  shows "\<not> better (s, e) b \<and> (\<forall>c. best = Some c \<longrightarrow> \<not> better c b) \<and> (b = (s, e) \<or> best = Some b)"
proof (cases "should_replace s e best")
  case True
  then have "b = (s, e)" using assms(2) by simp
  moreover have "\<not> better c (s, e)" if "best = Some c" for c
    using True that better_asym by (simp add: should_replace_iff)
  ultimately show ?thesis by (simp add: better_irrefl)
next
  case False
  then have "best = Some b" using assms(2) by simp
  then show ?thesis using False assms(1) by (simp add: should_replace_iff better_irrefl)
qed

text \<open>The entries of the session that score, as score and entry.\<close>

definition scored :: "CapabilityEntry list \<Rightarrow> string \<Rightarrow> string \<Rightarrow> string \<Rightarrow> nat list \<Rightarrow> (nat \<times> CapabilityEntry) set" where
  "scored entries session class resource idxs =
     {(match_score (entry_claims (entries ! i)) class resource, entries ! i) | i.
        i \<in> set idxs \<and> claim_session_id (entry_claims (entries ! i)) = session
      \<and> 0 < match_score (entry_claims (entries ! i)) class resource}"

lemma select_loop_best:
  "(case select_loop entries session class resource idxs best of
      None \<Rightarrow> best = None \<and> scored entries session class resource idxs = {}
    | Some r \<Rightarrow> (best = Some r \<or> r \<in> scored entries session class resource idxs)
        \<and> (\<forall>x \<in> scored entries session class resource idxs. \<not> better x r)
        \<and> (\<forall>b. best = Some b \<longrightarrow> \<not> better b r))"
proof (induction idxs arbitrary: best)
  case Nil
  then show ?case by (auto simp: scored_def better_irrefl split: option.splits)
next
  case (Cons idx rest)
  let ?e = "entries ! idx"
  let ?s = "match_score (entry_claims ?e) class resource"
  let ?sel = "\<lambda>b. select_loop entries session class resource rest b"
  let ?sc = "scored entries session class resource rest"
  show ?case
  proof (cases "claim_session_id (entry_claims ?e) = session \<and> 0 < ?s")
    case False
    then have sc: "scored entries session class resource (idx # rest) = ?sc"
      by (auto simp: scored_def)
    from False have step: "select_loop entries session class resource (idx # rest) best = ?sel best"
      by (auto simp: Let_def should_replace_iff)
    show ?thesis unfolding sc step by (rule Cons.IH)
  next
    case True
    then have sc: "scored entries session class resource (idx # rest) = insert (?s, ?e) ?sc"
      by (auto simp: scored_def)
    define nxt where "nxt = (if should_replace ?s ?e best then Some (?s, ?e) else best)"
    have step: "select_loop entries session class resource (idx # rest) best = ?sel nxt"
      using True by (simp add: Let_def nxt_def)
    have "nxt \<noteq> None"
      using True by (simp add: nxt_def should_replace_iff split: option.split)
    then obtain b where b: "nxt = Some b" by blast
    have old: "\<not> better (?s, ?e) b" "\<forall>c. best = Some c \<longrightarrow> \<not> better c b"
        "b = (?s, ?e) \<or> best = Some b"
      using nxt_best [OF conjunct2 [OF True] b [unfolded nxt_def]] by - (elim conjE, assumption)+
    show ?thesis
    proof (cases "?sel nxt")
      case None
      then show ?thesis using Cons.IH [of nxt] b by simp
    next
      case (Some r)
      then have r: "nxt = Some r \<or> r \<in> ?sc" "\<forall>x \<in> ?sc. \<not> better x r" "\<not> better b r"
        using Cons.IH [of nxt] b by simp_all
      have "\<not> better (?s, ?e) r" "\<forall>c. best = Some c \<longrightarrow> \<not> better c r"
        using old r(3) better_negtrans by blast+
      moreover have "best = Some r \<or> r \<in> insert (?s, ?e) ?sc"
        using r(1) b old(3) by blast
      ultimately show ?thesis unfolding step sc Some using r(2) by simp
    qed
  qed
qed


lemma select_loop_append:
  "select_loop entries session class resource (xs @ ys) best =
     select_loop entries session class resource ys (select_loop entries session class resource xs best)"
  by (induction xs arbitrary: best) (simp_all add: Let_def)

lemma select_candidates:
  "select self session class resource =
     (case select_loop (map_entries self) session class resource (candidates self class) None of
        Some (_, entry) \<Rightarrow> Ok entry
      | None \<Rightarrow>
          Err (into_deny (NoMatchingToken
            (''no capability token covers action '' @ CHR 0x27 # class @ CHR 0x27 # '' on resource ''
              @ CHR 0x27 # resource @ [CHR 0x27]))
            (CapabilityValidation TokenSelection)))"
  by (simp add: select_def candidates_def select_loop_append Let_def split: option.split)

lemma match_score_pos_action:
  "0 < match_score claims class resource \<Longrightarrow>
     class \<in> set (claim_action_set claims) \<or> ''*'' \<in> set (claim_action_set claims)"
  by (auto simp: match_score_def Let_def split: if_splits)

lemma map_entries_new [simp]: "map_entries (CapabilityMap_new entries) = entries"
  by (simp add: CapabilityMap_new_def split: prod.split)

text \<open>Every scoring entry of the session is a candidate, so the index loses nothing.\<close>

lemma scored_new:
  "scored entries session class resource (candidates (CapabilityMap_new entries) class) =
     {(match_score (entry_claims e) class resource, e) | e.
        e \<in> set entries \<and> claim_session_id (entry_claims e) = session
      \<and> 0 < match_score (entry_claims e) class resource}" (is "?l = ?r")
proof
  have "entries ! i \<in> set entries" if "i \<in> set (candidates (CapabilityMap_new entries) class)" for i
    using that by (auto simp: candidates_new grants_def)
  then show "?l \<subseteq> ?r" unfolding scored_def by blast
  show "?r \<subseteq> ?l"
  proof
    fix x assume "x \<in> ?r"
    then obtain e where e: "x = (match_score (entry_claims e) class resource, e)" "e \<in> set entries"
        "claim_session_id (entry_claims e) = session" "0 < match_score (entry_claims e) class resource"
      by blast
    from e(2) obtain i where i: "i < length entries" "e = entries ! i" by (auto simp: in_set_conv_nth)
    have "i \<in> set (candidates (CapabilityMap_new entries) class)"
      using i match_score_pos_action [OF e(4)] by (simp add: candidates_new grants_def)
    then show "x \<in> ?l" using e i by (auto simp: scored_def)
  qed
qed

lemma select_Ok:
  assumes "select (CapabilityMap_new entries) session class resource = Ok e"
  shows "e \<in> set entries \<and> claim_session_id (entry_claims e) = session
    \<and> 0 < match_score (entry_claims e) class resource
    \<and> (\<forall>e' \<in> set entries. claim_session_id (entry_claims e') = session \<longrightarrow>
          \<not> better (match_score (entry_claims e') class resource, e') (match_score (entry_claims e) class resource, e))"
proof -
  let ?sc = "scored entries session class resource (candidates (CapabilityMap_new entries) class)"
  obtain sc where r: "select_loop entries session class resource
      (candidates (CapabilityMap_new entries) class) None = Some (sc, e)"
    using assms by (auto simp: select_candidates split: option.splits)
  note best = select_loop_best [of None entries session "class" resource "candidates (CapabilityMap_new entries) class", unfolded r, simplified]
  from best have e: "sc = match_score (entry_claims e) class resource" "e \<in> set entries"
      "claim_session_id (entry_claims e) = session" "0 < match_score (entry_claims e) class resource"
    unfolding scored_new by simp_all
  have "\<not> better (match_score (entry_claims e') class resource, e') (sc, e)"
    if "e' \<in> set entries" "claim_session_id (entry_claims e') = session" for e'
  proof (cases "0 < match_score (entry_claims e') class resource")
    case True
    then show ?thesis using best that unfolding scored_new by blast
  next
    case False
    then show ?thesis using e by (simp add: better_def)
  qed
  then show ?thesis using e by simp
qed

lemma select_Err:
  assumes "select (CapabilityMap_new entries) session class resource = Err d"
    and "e \<in> set entries" "claim_session_id (entry_claims e) = session"
  shows "match_score (entry_claims e) class resource = 0"
proof -
  have r: "select_loop entries session class resource
      (candidates (CapabilityMap_new entries) class) None = None"
    using assms(1) by (auto simp: select_candidates split: option.splits)
  have "scored entries session class resource (candidates (CapabilityMap_new entries) class) = {}"
    using select_loop_best [of None entries session "class" resource "candidates (CapabilityMap_new entries) class", unfolded r] by simp
  then show ?thesis using assms(2,3) unfolding scored_new by auto
qed

text \<open>
  C19. Capability selection is optimal and complete. The entry \<^verbatim>\<open>select\<close> returns belongs to the
  session, scores for the action and resource, and no entry of the session beats it by score and then
  by the tie-break, although only the indexed entries are visited; it fails only when no entry of the
  session scores at all.
\<close>

theorem select_best:
  "case select (CapabilityMap_new entries) session class resource of
     Ok e \<Rightarrow>
       e \<in> set entries \<and> claim_session_id (entry_claims e) = session
     \<and> 0 < match_score (entry_claims e) class resource
     \<and> (\<forall>e' \<in> set entries. claim_session_id (entry_claims e') = session \<longrightarrow>
          \<not> better (match_score (entry_claims e') class resource, e')
                   (match_score (entry_claims e) class resource, e))
   | Err d \<Rightarrow>
       \<forall>e \<in> set entries. claim_session_id (entry_claims e) = session \<longrightarrow>
          match_score (entry_claims e) class resource = 0"
  using select_Ok [of entries session "class" resource] select_Err [of entries session "class" resource]
  by (cases "select (CapabilityMap_new entries) session class resource") simp_all

definition sample_entries :: "CapabilityEntry list" where
  "sample_entries =
     [\<lparr>entry_raw_token = ''wild'', entry_claims = sample_claims\<lparr>claim_action_set := [''*''], claim_resource_scope := ''*''\<rparr>\<rparr>,
      \<lparr>entry_raw_token = ''exact'', entry_claims = sample_claims\<rparr>]"

theorem select_best_witness:
  "\<exists>e. select (CapabilityMap_new sample_entries) ''ses_1'' ''code.read'' ''api.x.com/a'' = Ok e
   \<and> entry_raw_token e = ''exact''
   \<and> (\<forall>e' \<in> set sample_entries. claim_session_id (entry_claims e') = ''ses_1'' \<longrightarrow>
        \<not> better (match_score (entry_claims e') ''code.read'' ''api.x.com/a'', e')
                 (match_score (entry_claims e) ''code.read'' ''api.x.com/a'', e))"
proof -
  have "case select (CapabilityMap_new sample_entries) ''ses_1'' ''code.read'' ''api.x.com/a'' of
      Ok e \<Rightarrow> entry_raw_token e = ''exact'' | Err d \<Rightarrow> False"
    by code_simp
  then show ?thesis
    using select_best [of sample_entries "''ses_1''" "''code.read''" "''api.x.com/a''"]
    by (simp split: sum.splits)
qed

text \<open>
  An exact action with an empty scope outranks a wildcard action whose scope covers the resource,
  although an empty scope covers no resource.
\<close>

lemma empty_scope_outranks:
  "match_score (sample_claims\<lparr>claim_action_set := [''code.read''], claim_resource_scope := []\<rparr>) ''code.read'' ''api.x.com/a'' = 100
   \<and> match_score (sample_claims\<lparr>claim_action_set := [''*'']\<rparr>) ''code.read'' ''api.x.com/a'' = 60
   \<and> \<not> matches_resource_scope [] ''api.x.com/a''"
  by code_simp

end
