(* ===== verification/Capability_Validation.thy ===== *)
theory Capability_Validation
  imports Capability_Map Revocation
begin

text \<open>
  Stage 1 (\<^verbatim>\<open>firma-sidecar/src/enforcement/capability_validation.rs\<close>): select a token, verify it, check
  expiry and revocation, and bind the process to the first agent it admits. The verifier and the
  revocation store are trait objects, so they are arguments; \<open>stage1\<close> is the composition the sidecar
  starts, with the PASETO verifier and the bloom-filter store.
\<close>

record ValidatedCapability =
  vc_raw_token :: string
  vc_claims :: CapabilityClaims

text \<open>The verifier and the store are called through these types.\<close>

type_synonym token_verifier = "string \<Rightarrow> (TokenError, CapabilityClaims) result"
type_synonym 'r revocation_check = "'r \<Rightarrow> token_id \<Rightarrow> (TokenError, bool) result \<times> 'r"

record 'r CapabilityValidator =
  cv_capability_map :: CapabilityMap
  cv_revocation :: 'r
  cv_first_agent_id :: "agent_id option"

definition CapabilityValidator_new :: "CapabilityMap \<Rightarrow> 'r \<Rightarrow> 'r CapabilityValidator" where
  "CapabilityValidator_new capability_map revocation =
     \<lparr>cv_capability_map = capability_map, cv_revocation = revocation, cv_first_agent_id = None\<rparr>"

definition validate ::
  "token_verifier \<Rightarrow> 'r revocation_check \<Rightarrow> datetime \<Rightarrow> 'r \<Rightarrow> string
    \<Rightarrow> (EnforcementDecision, CapabilityClaims) result \<times> 'r" where
  "validate verify check now revocation raw_token =
     (let stage = CapabilityValidation TokenValidation in
      case verify raw_token of
        Inl e \<Rightarrow> (Err (into_deny (TokenValidationError e) stage), revocation)
      | Inr claims \<Rightarrow>
          if claim_expiry claims \<le> now
          then (Err (into_deny (TokenValidationError (Expired (claim_token_id claims))) stage), revocation)
          else
            (case check revocation (claim_token_id claims) of
               (Inl e, revocation') \<Rightarrow> (Err (into_deny (TokenValidationError e) stage), revocation')
             | (Inr revoked, revocation') \<Rightarrow>
                 if revoked
                 then (Err (into_deny (TokenValidationError (Revoked (claim_token_id claims))) stage), revocation')
                 else (Ok claims, revocation')))"

definition enforce ::
  "token_verifier \<Rightarrow> 'r revocation_check \<Rightarrow> datetime \<Rightarrow> 'r CapabilityValidator \<Rightarrow> NormalizedEnvelope \<Rightarrow> string
    \<Rightarrow> (EnforcementDecision, ValidatedCapability) result \<times> 'r CapabilityValidator" where
  "enforce verify check now self envelope session =
     (case select (cv_capability_map self) session (intent_action_class (norm_intent envelope))
             (policy_resource_display (norm_intent envelope)) of
        Inl d \<Rightarrow> (Err d, self)
      | Inr entry \<Rightarrow>
          (case validate verify check now (cv_revocation self) (entry_raw_token entry) of
             (Inl d, revocation') \<Rightarrow> (Err d, self\<lparr>cv_revocation := revocation'\<rparr>)
           | (Inr claims, revocation') \<Rightarrow>
               let first_agent = unwrap_or (claim_agent_id claims) (cv_first_agent_id self);
                   self' = self\<lparr>cv_revocation := revocation', cv_first_agent_id := Some first_agent\<rparr>
               in if first_agent \<noteq> claim_agent_id claims
                  then (Err (Deny TenantMismatch (CapabilityValidation TokenValidation)
                          (''agent_id '' @ CHR 0x27 # claim_agent_id claims @ CHR 0x27
                             # '' does not match first observed agent_id '' @ CHR 0x27 # first_agent @ [CHR 0x27])
                          (Some envelope) (Some (DenyIdentity_from_claims claims))), self')
                  else (Ok \<lparr>vc_raw_token = entry_raw_token entry, vc_claims = claims\<rparr>, self')))"

text \<open>The stage as it is started: \<open>now\<close> and \<open>now'\<close> are the clock readings of the verifier and of the expiry check.\<close>

definition stage1 ::
  "('sk, 'pk, 'u) paseto_lib \<Rightarrow> 'pk PasetoV4Verifier \<Rightarrow> (string \<Rightarrow> 128 word) \<Rightarrow> ('c, unit) lru_lib
    \<Rightarrow> datetime \<Rightarrow> datetime \<Rightarrow> 'c BloomLruRevocationStore CapabilityValidator \<Rightarrow> NormalizedEnvelope \<Rightarrow> string
    \<Rightarrow> (EnforcementDecision, ValidatedCapability) result \<times> 'c BloomLruRevocationStore CapabilityValidator" where
  "stage1 lib verifier xxh3 lru now now' =
     enforce (PasetoV4Verifier_verify lib verifier now) (is_revoked xxh3 lru) now'"

section \<open>Facts\<close>

lemma validate_Ok:
  assumes "validate verify check now rv raw = (Ok claims, rv')"
  shows "verify raw = Ok claims" and "now < claim_expiry claims"
    and "check rv (claim_token_id claims) = (Ok False, rv')"
  using assms by (auto simp: validate_def Let_def not_le split: sum.splits if_splits prod.splits)

lemma validate_Err_deny: "validate verify check now rv raw = (Err d, rv') \<Longrightarrow> is_deny d"
  by (auto simp: validate_def Let_def split: sum.splits if_splits prod.splits)

lemma enforce_Ok:
  assumes "enforce verify check now self env session = (Ok vc, self')"
  obtains entry where
    "select (cv_capability_map self) session (intent_action_class (norm_intent env))
       (policy_resource_display (norm_intent env)) = Ok entry"
    "vc_raw_token vc = entry_raw_token entry"
    "validate verify check now (cv_revocation self) (entry_raw_token entry) = (Ok (vc_claims vc), cv_revocation self')"
    "unwrap_or (claim_agent_id (vc_claims vc)) (cv_first_agent_id self) = claim_agent_id (vc_claims vc)"
    "cv_first_agent_id self' = Some (claim_agent_id (vc_claims vc))"
    "cv_capability_map self' = cv_capability_map self"
  using assms by (auto simp: enforce_def Let_def split: sum.splits if_splits prod.splits)

lemma select_Err_deny: "select self session cls res = Err d \<Longrightarrow> is_deny d"
  by (auto simp: select_def Let_def split: option.splits)

lemma enforce_Err_deny: "enforce verify check now self env session = (Err d, self') \<Longrightarrow> is_deny d"
  by (auto simp: enforce_def Let_def dest: validate_Err_deny select_Err_deny split: sum.splits if_splits prod.splits)

text \<open>The first agent never changes once bound.\<close>

lemma enforce_agent_kept:
  "cv_first_agent_id self = Some a \<Longrightarrow> cv_first_agent_id (snd (enforce verify check now self env session)) = Some a"
  by (auto simp: enforce_def Let_def split: sum.split prod.split)

text \<open>
  C12. Stage 1 admits only a live token. When the stage answers with a capability, its raw token is an
  entry of the map that belongs to the requesting session and scores for the action and resource, the
  signature verifies to exactly the returned claims, they have not expired at the second clock
  reading, and in the whole history of the revocation store no revocation of the token was added.
  Every other answer is a denial.
\<close>

theorem stage1_sound:
  assumes "stage1 lib verifier xxh3 lru now now' self env session = (r, self')"
    and "cv_capability_map self = CapabilityMap_new entries"
    and "cv_revocation self = revocation_run (add_revocation xxh3 lru) (is_revoked xxh3 lru)
       (BloomLruRevocationStore_new sizing lru cfg) calls"
  shows "case r of
      Ok vc \<Rightarrow>
        (\<exists>entry \<in> set entries. entry_raw_token entry = vc_raw_token vc
           \<and> claim_session_id (entry_claims entry) = session
           \<and> 0 < match_score (entry_claims entry) (intent_action_class (norm_intent env))
                 (policy_resource_display (norm_intent env)))
        \<and> PasetoV4Verifier_verify lib verifier now (vc_raw_token vc) = Ok (vc_claims vc)
        \<and> now' < claim_expiry (vc_claims vc)
        \<and> AddRevocation (claim_token_id (vc_claims vc)) \<notin> set calls
    | Err d \<Rightarrow> is_deny d"
proof (cases r)
  case (Inl d)
  then show ?thesis using assms(1) enforce_Err_deny by (auto simp: stage1_def)
next
  case (Inr vc)
  then have "enforce (PasetoV4Verifier_verify lib verifier now) (is_revoked xxh3 lru) now' self env session = (Ok vc, self')"
    using assms(1) by (simp add: stage1_def)
  then obtain entry where e: "select (CapabilityMap_new entries) session (intent_action_class (norm_intent env))
       (policy_resource_display (norm_intent env)) = Ok entry"
    "vc_raw_token vc = entry_raw_token entry"
    "validate (PasetoV4Verifier_verify lib verifier now) (is_revoked xxh3 lru) now' (cv_revocation self)
       (entry_raw_token entry) = (Ok (vc_claims vc), cv_revocation self')"
    using assms(2) by (elim enforce_Ok) simp
  note v = validate_Ok [OF e(3)]
  have "bloom_wf (store_bloom (BloomLruRevocationStore_new sizing lru cfg))"
    by (simp add: BloomLruRevocationStore_new_def AtomicBloom_new_wf split: prod.split)
  note reported = bloom_store.run_reported [OF this, of "claim_token_id (vc_claims vc)" calls xxh3 lru]
  have "AddRevocation (claim_token_id (vc_claims vc)) \<notin> set calls"
  proof
    assume "AddRevocation (claim_token_id (vc_claims vc)) \<in> set calls"
    from reported [OF this] show False using v(3) unfolding assms(3) by simp
  qed
  then show ?thesis using Inr e(2) v select_Ok [OF e(1)] by auto
qed

text \<open>A sequence of requests: the clock reading, the envelope and the session of each, and all answers.\<close>

fun enforce_all ::
  "token_verifier \<Rightarrow> 'r revocation_check \<Rightarrow> 'r CapabilityValidator \<Rightarrow> (datetime \<times> NormalizedEnvelope \<times> string) list
    \<Rightarrow> (EnforcementDecision, ValidatedCapability) result list" where
  "enforce_all verify check self [] = []"
| "enforce_all verify check self ((now, env, session) # requests) =
     (case enforce verify check now self env session of (r, self') \<Rightarrow>
        r # enforce_all verify check self' requests)"

lemma enforce_all_Cons:
  assumes "enforce verify check now self env session = (r, self')"
  shows "enforce_all verify check self ((now, env, session) # requests) = r # enforce_all verify check self' requests"
  using assms by simp

lemma enforce_all_bound:
  "cv_first_agent_id self = Some a \<Longrightarrow> Ok vc \<in> set (enforce_all verify check self requests) \<Longrightarrow>
     claim_agent_id (vc_claims vc) = a"
proof (induction requests arbitrary: self)
  case (Cons req requests)
  obtain now env session where req: "req = (now, env, session)" by (cases req)
  obtain r self' where e: "enforce verify check now self env session = (r, self')" by fastforce
  have kept: "cv_first_agent_id self' = Some a"
    using enforce_agent_kept [OF Cons.prems(1), of verify check now env session] e by simp
  have "claim_agent_id (vc_claims vc) = a" if "r = Ok vc"
    by (rule enforce_Ok [OF e [unfolded that]]) (use kept in simp)
  then show ?case
    using Cons.IH [OF kept] Cons.prems(2) unfolding req enforce_all_Cons [OF e] by auto
qed simp

text \<open>
  C13. One process serves one agent: over any sequence of requests, from whatever state
  the validator is in, all capabilities Stage 1 admits carry the same agent id.
\<close>

theorem single_tenant:
  assumes "Ok vc \<in> set (enforce_all verify check self requests)"
    and "Ok vc' \<in> set (enforce_all verify check self requests)"
  shows "claim_agent_id (vc_claims vc) = claim_agent_id (vc_claims vc')"
  using assms(1,2)
proof (induction requests arbitrary: self)
  case (Cons req requests)
  obtain now env session where req: "req = (now, env, session)" by (cases req)
  obtain r self' where e: "enforce verify check now self env session = (r, self')" by fastforce
  note mem = Cons.prems [unfolded req enforce_all_Cons [OF e]]
  show ?case
  proof (cases r)
    case (Inl d)
    then show ?thesis using Cons.IH [of self'] mem by simp
  next
    case (Inr v)
    have "cv_first_agent_id self' = Some (claim_agent_id (vc_claims v))"
      using enforce_Ok [OF e [unfolded Inr]] by blast
    then have "claim_agent_id (vc_claims w) = claim_agent_id (vc_claims v)"
      if "Ok w \<in> set (Ok v # enforce_all verify check self' requests)" for w
      using that enforce_all_bound [of self' _ w verify check requests] by auto
    then show ?thesis using mem unfolding Inr by metis
  qed
qed simp

definition sample_envelope :: NormalizedEnvelope where
  "sample_envelope =
     \<lparr>norm_intent = \<lparr>intent_action_class = ''code.read'', intent_resource = [''host'' \<mapsto> ''api.x.com'', ''path'' \<mapsto> ''/a''],
        intent_params = ToolUse \<lparr>tool_name = ''t'', tool_input = Map.empty\<rparr>, intent_raw_transport = ''http'',
        intent_raw_action_ref = ''GET /a''\<rparr>,
      norm_timestamp = 50\<rparr>"

definition sample_entry :: CapabilityEntry where
  "sample_entry = \<lparr>entry_raw_token = ''claims'', entry_claims = sample_claims\<rparr>"

definition sample_store :: "unit assoc_cache BloomLruRevocationStore" where
  "sample_store =
     BloomLruRevocationStore_new (\<lambda>n r. (100, 3)) assoc_lru
       \<lparr>rev_capacity = 4, rev_fpr = Fin (1 / 10), rev_lru_capacity = 1\<rparr>"

definition sample_verifier :: "unit PasetoV4Verifier" where
  "sample_verifier = \<lparr>verifier_public_key = (), verifier_leeway = default_leeway\<rparr>"

lemma sample_verify: "PasetoV4Verifier_verify sample_paseto_lib sample_verifier 50 ''claims'' = Ok sample_claims"
  by code_simp

lemma sample_select:
  "select (CapabilityMap_new [sample_entry]) ''ses_1'' (intent_action_class (norm_intent sample_envelope))
     (policy_resource_display (norm_intent sample_envelope)) = Ok sample_entry"
proof -
  have "case select (CapabilityMap_new [sample_entry]) ''ses_1'' (intent_action_class (norm_intent sample_envelope))
     (policy_resource_display (norm_intent sample_envelope)) of Ok e \<Rightarrow> e = sample_entry | Err d \<Rightarrow> False"
    by code_simp
  then show ?thesis by (simp split: sum.splits)
qed

lemma sample_claim_fields: "claim_expiry sample_claims = 100" "claim_agent_id sample_claims = ''agt_1''"
  by (simp_all add: sample_claims_def)

lemma sample_not_revoked:
  "is_revoked sample_xxh3 assoc_lru sample_store t = (Ok False, sample_store)"
  by (simp add: is_revoked_def sample_store_def BloomLruRevocationStore_new_def bloom_contains_new)

lemma sample_enforce:
  "enforce (PasetoV4Verifier_verify sample_paseto_lib sample_verifier 50) (is_revoked sample_xxh3 assoc_lru) 60
     (CapabilityValidator_new (CapabilityMap_new [sample_entry]) sample_store) sample_envelope ''ses_1'' =
   (Ok \<lparr>vc_raw_token = ''claims'', vc_claims = sample_claims\<rparr>,
    (CapabilityValidator_new (CapabilityMap_new [sample_entry]) sample_store)\<lparr>cv_first_agent_id := Some ''agt_1''\<rparr>)"
proof -
  have entry: "entry_raw_token sample_entry = ''claims''" by (simp add: sample_entry_def)
  have "validate (PasetoV4Verifier_verify sample_paseto_lib sample_verifier 50) (is_revoked sample_xxh3 assoc_lru) 60
      sample_store ''claims'' = (Ok sample_claims, sample_store)"
    by (simp add: validate_def sample_verify sample_not_revoked sample_claim_fields)
  then show ?thesis
    by (simp add: enforce_def CapabilityValidator_new_def sample_select entry sample_claim_fields)
qed

theorem stage1_sound_witness:
  "fst (stage1 sample_paseto_lib sample_verifier sample_xxh3 assoc_lru 50 60
      (CapabilityValidator_new (CapabilityMap_new [sample_entry]) sample_store) sample_envelope ''ses_1'') =
     Ok \<lparr>vc_raw_token = ''claims'', vc_claims = sample_claims\<rparr>
   \<and> PasetoV4Verifier_verify sample_paseto_lib sample_verifier 50 ''claims'' = Ok sample_claims
   \<and> 60 < claim_expiry sample_claims"
  using stage1_sound [OF sample_enforce [folded stage1_def], of "[sample_entry]" "\<lambda>n r. (100, 3)"
      "\<lparr>rev_capacity = 4, rev_fpr = Fin (1 / 10), rev_lru_capacity = 1\<rparr>" "[]"] sample_enforce
  by (simp add: CapabilityValidator_new_def sample_store_def stage1_def)

text \<open>A second token of the same agent, for another session, and the two requests it serves.\<close>

definition sample_entry' :: CapabilityEntry where
  "sample_entry' =
     \<lparr>entry_raw_token = ''other'', entry_claims = sample_claims\<lparr>claim_session_id := ''ses_2''\<rparr>\<rparr>"

definition sample_lookup :: token_verifier where
  "sample_lookup t =
     (if t = ''claims'' then Ok sample_claims else Ok (sample_claims\<lparr>claim_session_id := ''ses_2''\<rparr>))"

definition two_sessions :: "unit assoc_cache BloomLruRevocationStore CapabilityValidator" where
  "two_sessions = CapabilityValidator_new (CapabilityMap_new [sample_entry, sample_entry']) sample_store"

definition two_requests :: "(datetime \<times> NormalizedEnvelope \<times> string) list" where
  "two_requests = [(60, sample_envelope, ''ses_1''), (70, sample_envelope, ''ses_2'')]"

lemma two_selects:
  "select (CapabilityMap_new [sample_entry, sample_entry']) ''ses_1'' (intent_action_class (norm_intent sample_envelope))
     (policy_resource_display (norm_intent sample_envelope)) = Ok sample_entry"
  "select (CapabilityMap_new [sample_entry, sample_entry']) ''ses_2'' (intent_action_class (norm_intent sample_envelope))
     (policy_resource_display (norm_intent sample_envelope)) = Ok sample_entry'"
proof -
  have "case select (CapabilityMap_new [sample_entry, sample_entry']) ''ses_1'' (intent_action_class (norm_intent sample_envelope))
     (policy_resource_display (norm_intent sample_envelope)) of Ok e \<Rightarrow> e = sample_entry | Err d \<Rightarrow> False"
    by code_simp
  then show "select (CapabilityMap_new [sample_entry, sample_entry']) ''ses_1'' (intent_action_class (norm_intent sample_envelope))
     (policy_resource_display (norm_intent sample_envelope)) = Ok sample_entry"
    by (simp split: sum.splits)
  have "case select (CapabilityMap_new [sample_entry, sample_entry']) ''ses_2'' (intent_action_class (norm_intent sample_envelope))
     (policy_resource_display (norm_intent sample_envelope)) of Ok e \<Rightarrow> e = sample_entry' | Err d \<Rightarrow> False"
    by code_simp
  then show "select (CapabilityMap_new [sample_entry, sample_entry']) ''ses_2'' (intent_action_class (norm_intent sample_envelope))
     (policy_resource_display (norm_intent sample_envelope)) = Ok sample_entry'"
    by (simp split: sum.splits)
qed

lemma two_answers:
  "enforce_all sample_lookup (is_revoked sample_xxh3 assoc_lru) two_sessions two_requests =
     [Ok \<lparr>vc_raw_token = ''claims'', vc_claims = sample_claims\<rparr>,
      Ok \<lparr>vc_raw_token = ''other'', vc_claims = sample_claims\<lparr>claim_session_id := ''ses_2''\<rparr>\<rparr>]"
proof -
  have raw: "entry_raw_token sample_entry = ''claims''" "entry_raw_token sample_entry' = ''other''"
    by (simp_all add: sample_entry_def sample_entry'_def)
  show ?thesis
    by (simp add: two_requests_def two_sessions_def enforce_def CapabilityValidator_new_def two_selects raw validate_def
        sample_lookup_def sample_not_revoked sample_claim_fields)
qed

theorem single_tenant_witness:
  "Ok \<lparr>vc_raw_token = ''claims'', vc_claims = sample_claims\<rparr> \<in>
     set (enforce_all sample_lookup (is_revoked sample_xxh3 assoc_lru) two_sessions two_requests)
   \<and> claim_agent_id sample_claims = claim_agent_id (sample_claims\<lparr>claim_session_id := ''ses_2''\<rparr>)"
  using single_tenant [of "\<lparr>vc_raw_token = ''claims'', vc_claims = sample_claims\<rparr>" sample_lookup
      "is_revoked sample_xxh3 assoc_lru" two_sessions two_requests
      "\<lparr>vc_raw_token = ''other'', vc_claims = sample_claims\<lparr>claim_session_id := ''ses_2''\<rparr>\<rparr>"]
  unfolding two_answers by simp

end
