(* ===== verification/Line_Log.thy ===== *)
theory Line_Log
  imports Firma_Prelude
begin

text \<open>
  Files with one entry per line, appended to and read back: the contract the session log of the sidecar
  and the revocation file of the Authority share.  An entry prints to a line without a newline that parses
  to the entry again; then a file of printed entries reads back as those entries, whatever follows them.
\<close>

text \<open>Appending to a file that ends in a newline adds lines and changes none.\<close>

definition newline_terminated :: "string \<Rightarrow> bool" where
  "newline_terminated c \<longleftrightarrow> c = [] \<or> last c = CHR 0x0A"

lemma read_lines_newline_terminated:
  assumes "newline_terminated c"
  shows "read_lines (c @ r) = read_lines c @ read_lines r"
proof (cases "c = []")
  case True
  then show ?thesis by (simp add: read_lines_def)
next
  case False
  then obtain x where c: "c = x @ [CHR 0x0A]" using assms by (cases c rule: rev_cases) (auto simp: newline_terminated_def)
  have "split_on (CHR 0x0A) (c @ r) = split_on (CHR 0x0A) x @ split_on (CHR 0x0A) r"
    and "split_on (CHR 0x0A) c = split_on (CHR 0x0A) x @ [[]]"
    unfolding c using split_on_append_sep [of "CHR 0x0A" x r] split_on_append_sep [of "CHR 0x0A" x "[]"] by simp_all
  then show ?thesis by (simp add: read_lines_def Let_def butlast_append)
qed

locale line_log =
  fixes printable :: "'a \<Rightarrow> bool" and print_entry :: "'a \<Rightarrow> string" and parse_entry :: "string \<Rightarrow> 'a option"
  assumes printed_line: "printable e \<Longrightarrow> CHR 0x0A \<notin> set (print_entry e) \<and> \<not> suffix [CHR 0x0D] (print_entry e)"
    and parse_printed: "printable e \<Longrightarrow> parse_entry (print_entry e) = Some e"
begin

lemma lines_printed:
  assumes "\<forall>e \<in> set es. printable e"
  shows "read_lines (concat (map (\<lambda>e. print_entry e @ [CHR 0x0A]) es) @ r) = map print_entry es @ read_lines r"
  using read_lines_append [of "map print_entry es" r] printed_line assms by (simp add: comp_def)

lemma printed_file:
  assumes "\<forall>e \<in> set es. printable e"
  shows "read_lines (concat (map (\<lambda>e. print_entry e @ [CHR 0x0A]) es)) = map print_entry es"
  using lines_printed [OF assms, of "[]"] by (simp add: read_lines_def)

lemma entries_printed:
  assumes "\<forall>e \<in> set es. printable e"
  shows "List.map_filter parse_entry (map print_entry es) = es"
  using assms by (induction es) (simp_all add: parse_printed)

end

end
