(* ===== verification/Session_Persistent.thy ===== *)
theory Session_Persistent
  imports Session_State Normalizer Line_Log
begin

text \<open>
  The file-backed session store (\<^verbatim>\<open>firma-sidecar/src/enforcement/session/persistent.rs\<close>): the replay
  log, the operations that write the cache and append a line, and the replay on opening. The cache,
  the JSON encoding of a log entry, how many bytes of a write the system takes and the iteration
  order of a hash map are parameters.
\<close>

section \<open>The log\<close>

record LogEntry =
  log_sid :: string
  log_action_count :: nat
  log_risk_score :: f64
  log_deny_count :: nat
  log_history :: "ActionOutcome list"
  log_last_provenance :: "string option"

record 'c persist_lib =
  persist_lru :: "('c, SessionRecord) lru_lib"
  to_line :: "LogEntry \<Rightarrow> (string, string) result"
  from_line :: "string \<Rightarrow> (string, LogEntry) result"
  disk_accepts :: "string \<Rightarrow> string \<Rightarrow> nat"
  hash_order :: "(string \<rightharpoonup> SessionRecord) \<Rightarrow> string list"

record 'c PersistentSessionStateStore =
  pers_poisoned :: bool
  pers_cache :: 'c
  pers_file :: string

definition log_entry :: "session_id \<Rightarrow> SessionRecord \<Rightarrow> LogEntry" where
  "log_entry sid record =
     \<lparr>log_sid = sid, log_action_count = rec_action_count record, log_risk_score = rec_risk_score record,
      log_deny_count = rec_deny_count record, log_history = rec_history record,
      log_last_provenance = rec_last_provenance record\<rparr>"

definition entry_record :: "LogEntry \<Rightarrow> SessionRecord" where
  "entry_record entry =
     \<lparr>rec_action_count = log_action_count entry, rec_risk_score = log_risk_score entry,
      rec_deny_count = log_deny_count entry, rec_history = log_history entry,
      rec_last_provenance = log_last_provenance entry\<rparr>"

text \<open>A serialisation error writes nothing; a failed write leaves the bytes the system took.\<close>

definition append_entry :: "'c persist_lib \<Rightarrow> string \<Rightarrow> LogEntry \<Rightarrow> string" where
  "append_entry lib file entry =
     (case to_line lib entry of
        Inr line \<Rightarrow> file @ take (disk_accepts lib file (line @ [CHR 0x0A])) (line @ [CHR 0x0A])
      | Inl err \<Rightarrow> file)"

section \<open>Operations\<close>

definition pers_record_action ::
  "'c persist_lib \<Rightarrow> 'c PersistentSessionStateStore \<Rightarrow> session_id \<Rightarrow> nat \<times> 'c PersistentSessionStateStore" where
  "pers_record_action lib self sid =
     (if pers_poisoned self then (1, self)
      else let record = bump_count (unwrap_or SessionRecord_default (lru_peek (persist_lru lib) (pers_cache self) sid));
               cache = lru_get_or_insert_mut (persist_lru lib) (pers_cache self) sid SessionRecord_default bump_count
        in (rec_action_count record,
            self\<lparr>pers_cache := cache, pers_file := append_entry lib (pers_file self) (log_entry sid record)\<rparr>))"

definition pers_signals ::
  "'c persist_lib \<Rightarrow> 'c PersistentSessionStateStore \<Rightarrow> session_id \<Rightarrow> RuntimeSignals" where
  "pers_signals lib self sid =
     (if pers_poisoned self then RuntimeSignals_default
      else case lru_peek (persist_lru lib) (pers_cache self) sid of
             None \<Rightarrow> RuntimeSignals_default
           | Some r \<Rightarrow> signals_of r)"

definition pers_record_outcome ::
  "'c persist_lib \<Rightarrow> 'c PersistentSessionStateStore \<Rightarrow> session_id \<Rightarrow> string \<Rightarrow> string \<Rightarrow> Outcome
    \<Rightarrow> 'c PersistentSessionStateStore" where
  "pers_record_outcome lib self sid action_class resource outcome =
     (if pers_poisoned self then self
      else let record = push_outcome action_class resource outcome
                 (unwrap_or SessionRecord_default (lru_peek (persist_lru lib) (pers_cache self) sid));
               cache = lru_get_or_insert_mut (persist_lru lib) (pers_cache self) sid SessionRecord_default
                 (push_outcome action_class resource outcome)
        in self\<lparr>pers_cache := cache, pers_file := append_entry lib (pers_file self) (log_entry sid record)\<rparr>)"

definition pers_advance_provenance ::
  "(string \<Rightarrow> string) \<Rightarrow> 'c persist_lib \<Rightarrow> 'c PersistentSessionStateStore \<Rightarrow> session_id \<Rightarrow> string \<Rightarrow> string
    \<Rightarrow> string \<Rightarrow> string \<times> 'c PersistentSessionStateStore" where
  "pers_advance_provenance sha256_hex lib self sid context_hash action_class resource =
     (if pers_poisoned self then ([], self)
      else let old = unwrap_or SessionRecord_default (lru_peek (persist_lru lib) (pers_cache self) sid);
               new = next_provenance sha256_hex (rec_last_provenance old) context_hash action_class resource;
               record = old\<lparr>rec_last_provenance := Some new\<rparr>;
               cache = lru_get_or_insert_mut (persist_lru lib) (pers_cache self) sid SessionRecord_default
                 (\<lambda>r. r\<lparr>rec_last_provenance := Some new\<rparr>)
        in (new, self\<lparr>pers_cache := cache,
              pers_file := append_entry lib (pers_file self) (log_entry sid record)\<rparr>))"

section \<open>Replay\<close>

fun replay_lines ::
  "'c persist_lib \<Rightarrow> string list \<Rightarrow> (string \<rightharpoonup> SessionRecord) \<Rightarrow> (string, string \<rightharpoonup> SessionRecord) result" where
  "replay_lines lib [] latest = Ok latest"
| "replay_lines lib (line # lines) latest =
     (if \<not> from_utf8_ok line then Err ''stream did not contain valid UTF-8''
      else if trim line = [] then replay_lines lib lines latest
      else case from_line lib line of
             Inl err \<Rightarrow> replay_lines lib lines latest
           | Inr entry \<Rightarrow> replay_lines lib lines (latest(log_sid entry \<mapsto> entry_record entry)))"

fun replay_puts :: "'c persist_lib \<Rightarrow> (string \<rightharpoonup> SessionRecord) \<Rightarrow> string list \<Rightarrow> 'c \<Rightarrow> 'c" where
  "replay_puts lib latest [] cache = cache"
| "replay_puts lib latest (sid # sids) cache =
     replay_puts lib latest sids
       (case (session_id_try_from sid, latest sid) of
          (Inr parsed, Some record) \<Rightarrow> lru_put (persist_lru lib) cache parsed record
        | _ \<Rightarrow> cache)"

text \<open>What \<^verbatim>\<open>File::open\<close> finds at the path.\<close>

datatype log_file = LogMissing | LogUnreadable string | LogContents string

definition replay :: "'c persist_lib \<Rightarrow> log_file \<Rightarrow> nat \<Rightarrow> (string, 'c) result" where
  "replay lib file cap =
     (case file of
        LogMissing \<Rightarrow> Ok (lru_new (persist_lru lib) cap)
      | LogUnreadable err \<Rightarrow> Err err
      | LogContents bytes \<Rightarrow>
          and_then (replay_lines lib (read_lines bytes) Map.empty) (\<lambda>latest.
            Ok (replay_puts lib latest (hash_order lib latest) (lru_new (persist_lru lib) cap))))"

text \<open>\<open>opened\<close> is the result of opening the file for appending: its bytes, or the error.\<close>

definition PersistentSessionStateStore_open ::
  "'c persist_lib \<Rightarrow> log_file \<Rightarrow> (string, string) result \<Rightarrow> nat
    \<Rightarrow> (string, 'c PersistentSessionStateStore) result" where
  "PersistentSessionStateStore_open lib file opened capacity =
     (let cache = (case replay lib file capacity of
                     Inl err \<Rightarrow> lru_new (persist_lru lib) capacity
                   | Inr cache \<Rightarrow> cache)
      in and_then opened (\<lambda>bytes.
           Ok \<lparr>pers_poisoned = False, pers_cache = cache, pers_file = bytes\<rparr>))"

section \<open>The store keeps the contract of a session store\<close>

lemma pers_step_cache:
  assumes "lru_laws (persist_lru lib)" and "\<not> pers_poisoned s"
  shows "cache_step f (persist_lru lib) call (pers_cache s)
    (pers_cache (session_step (pers_record_action lib) (pers_record_outcome lib) (pers_advance_provenance f lib) call s))"
  using assms(2) lru_get_or_insert_mut_written [OF assms(1), of "pers_cache s" _ _ SessionRecord_default]
  by (cases call)
    (simp_all add: cache_step_def pers_record_action_def pers_record_outcome_def pers_advance_provenance_def Let_def)

lemma pers_step_healthy:
  "\<not> pers_poisoned s \<Longrightarrow> \<not> pers_poisoned
     (session_step (pers_record_action lib) (pers_record_outcome lib) (pers_advance_provenance f lib) call s)"
  by (cases call) (simp_all add: pers_record_action_def pers_record_outcome_def pers_advance_provenance_def Let_def)

text \<open>Every call appends the record it leaves in the cache.\<close>

lemma pers_step_file:
  "\<not> pers_poisoned s \<Longrightarrow> pers_file
     (session_step (pers_record_action lib) (pers_record_outcome lib) (pers_advance_provenance f lib) call s) =
     append_entry lib (pers_file s) (log_entry (call_session call)
       (call_record f call (unwrap_or SessionRecord_default
          (lru_peek (persist_lru lib) (pers_cache s) (call_session call)))))"
  by (cases call) (simp_all add: pers_record_action_def pers_record_outcome_def pers_advance_provenance_def Let_def)

interpretation pers_store: cached_store f "persist_lru lib" "\<lambda>s. \<not> pers_poisoned s" pers_cache
  "pers_signals lib" "pers_record_action lib" "pers_record_outcome lib" "pers_advance_provenance f lib" for f lib
proof (unfold_locales, goal_cases)
  case (1 s c)
  then show ?case by (rule pers_step_healthy)
next
  case (2 s c)
  then show ?case by (rule pers_step_cache)
next
  case (3 s sid)
  then show ?case by (simp add: pers_signals_def cache_signals_def split: option.split)
next
  case (4 s sid)
  then show ?case by (simp add: pers_record_action_def Let_def)
next
  case (5 s sid ctx cls res)
  then show ?case by (simp add: pers_advance_provenance_def cache_signals_def signals_of_def Let_def)
qed

section \<open>What the log holds\<close>

definition session_record :: "(string \<Rightarrow> string) \<Rightarrow> session_call list \<Rightarrow> session_id \<Rightarrow> SessionRecord" where
  "session_record f calls sid = fold (call_record f) (filter (\<lambda>c. call_session c = sid) calls) SessionRecord_default"

definition run_log :: "(string \<Rightarrow> string) \<Rightarrow> session_call list \<Rightarrow> LogEntry list" where
  "run_log f calls =
     map (\<lambda>i. log_entry (call_session (calls ! i)) (session_record f (take (Suc i) calls) (call_session (calls ! i))))
       [0..<length calls]"

lemma run_log_snoc:
  "run_log f (calls @ [c]) = run_log f calls @ [log_entry (call_session c) (session_record f (calls @ [c]) (call_session c))]"
  by (simp add: run_log_def nth_append)

lemma session_record_snoc:
  "session_record f (calls @ [c]) sid =
     (if call_session c = sid then call_record f c (session_record f calls sid) else session_record f calls sid)"
  by (simp add: session_record_def)

lemma session_record_signals:
  "signals_of (session_record f calls sid) = session_spec f calls sid
   \<and> length (rec_history (session_record f calls sid)) \<le> HISTORY_CAP"
proof (induction calls rule: rev_induct)
  case Nil
  then show ?case by (simp add: session_record_def session_spec_def) (simp add: SessionRecord_default_def)
next
  case (snoc c calls)
  then show ?case
    using call_record_signals [of "session_record f calls sid" f c]
    by (simp add: session_record_snoc) (simp add: session_spec_def)
qed

lemma signals_of_inject: "signals_of r = signals_of r' \<Longrightarrow> r = r'"
  by (cases r, cases r') (simp add: signals_of_def)

lemma entry_record_log_entry [simp]: "entry_record (log_entry sid r) = r"
  by (simp add: entry_record_def log_entry_def)

lemma log_sid_log_entry [simp]: "log_sid (log_entry sid r) = sid"
  by (simp add: log_entry_def)

text \<open>What the store relies on of the encoder for an entry: a line of text that reads back.\<close>

definition entry_encodes :: "'c persist_lib \<Rightarrow> LogEntry \<Rightarrow> bool" where
  "entry_encodes lib e \<longleftrightarrow>
     (\<exists>line. to_line lib e = Ok line \<and> from_line lib line = Ok e \<and> CHR 0x0A \<notin> set line
        \<and> from_utf8_ok line \<and> trim line \<noteq> [] \<and> \<not> suffix [CHR 0x0D] line)"

definition writes_whole :: "'c persist_lib \<Rightarrow> bool" where
  "writes_whole lib \<longleftrightarrow> (\<forall>file bytes. length bytes \<le> disk_accepts lib file bytes)"

definition entry_line :: "'c persist_lib \<Rightarrow> LogEntry \<Rightarrow> string" where
  "entry_line lib e = (case to_line lib e of Inr line \<Rightarrow> line | Inl _ \<Rightarrow> [])"

definition log_bytes :: "'c persist_lib \<Rightarrow> LogEntry list \<Rightarrow> string" where
  "log_bytes lib es = concat (map (\<lambda>e. entry_line lib e @ [CHR 0x0A]) es)"

lemma append_entry_whole:
  assumes "writes_whole lib" and "entry_encodes lib e"
  shows "append_entry lib (log_bytes lib es) e = log_bytes lib (es @ [e])"
proof -
  from assms(2) obtain line where line: "to_line lib e = Ok line" by (auto simp: entry_encodes_def)
  have "take (disk_accepts lib path bytes) bytes = bytes" for path bytes
    using assms(1) by (simp add: writes_whole_def)
  then have "append_entry lib (log_bytes lib es) e = log_bytes lib es @ line @ [CHR 0x0A]"
    using line by (simp only: append_entry_def sum.case)
  then show ?thesis using line by (simp add: log_bytes_def entry_line_def)
qed

interpretation session_log: line_log "entry_encodes lib" "entry_line lib"
  "\<lambda>line. case from_line lib line of Inr e \<Rightarrow> Some e | Inl _ \<Rightarrow> None"
  by unfold_locales (auto simp: entry_encodes_def entry_line_def)

lemma read_log_bytes:
  assumes "\<And>e. e \<in> set es \<Longrightarrow> entry_encodes lib e"
  shows "read_lines (log_bytes lib es) = map (entry_line lib) es"
  unfolding log_bytes_def by (rule session_log.printed_file) (use assms in blast)

definition latest :: "LogEntry list \<Rightarrow> (string \<rightharpoonup> SessionRecord) \<Rightarrow> (string \<rightharpoonup> SessionRecord)" where
  "latest es m = fold (\<lambda>e m. m(log_sid e \<mapsto> entry_record e)) es m"

lemma replay_log_lines:
  "(\<And>e. e \<in> set es \<Longrightarrow> entry_encodes lib e) \<Longrightarrow>
     replay_lines lib (map (entry_line lib) es) m = Ok (latest es m)"
proof (induction es arbitrary: m)
  case (Cons e es)
  from Cons.prems [of e] obtain line where "to_line lib e = Ok line" "from_line lib line = Ok e"
      "from_utf8_ok line" "trim line \<noteq> []"
    by (auto simp: entry_encodes_def)
  then show ?case using Cons by (simp add: entry_line_def latest_def)
qed (simp add: latest_def)

lemma latest_run_log:
  "latest (run_log f calls) Map.empty sid =
     (if sid \<in> call_session ` set calls then Some (session_record f calls sid) else None)"
proof (induction calls rule: rev_induct)
  case Nil
  then show ?case by (simp add: run_log_def latest_def)
next
  case (snoc c calls)
  then show ?case by (auto simp: run_log_snoc latest_def session_record_snoc)
qed

section \<open>Reopening\<close>

lemma replay_puts_peek:
  assumes "lru_laws (persist_lru lib)"
  shows "distinct sids \<Longrightarrow> (\<And>sid. sid \<in> set sids \<Longrightarrow> is_ok (session_id_try_from sid) \<and> m sid \<noteq> None) \<Longrightarrow>
    lru_len (persist_lru lib) cache + length sids \<le> lru_cap (persist_lru lib) cache \<Longrightarrow>
    lru_peek (persist_lru lib) (replay_puts lib m sids cache) k =
      (if k \<in> set sids then m k else lru_peek (persist_lru lib) cache k)"
proof (induction sids arbitrary: cache)
  case (Cons sid sids)
  let ?l = "persist_lru lib"
  from Cons.prems(2) [of sid] obtain r where r: "m sid = Some r" "session_id_try_from sid = Ok sid"
    by (auto simp: is_ok_iff session_id_try_from_Ok)
  define c' where "c' = lru_put ?l cache sid r"
  have w: "lru_written ?l cache sid r c'" unfolding c'_def by (rule lru_put_written [OF assms])
  have "lru_len ?l c' + length sids \<le> lru_cap ?l c'"
    using lru_written_load [OF w] Cons.prems(3) by (simp split: if_split_asm)
  then have "lru_peek ?l (replay_puts lib m sids c') k = (if k \<in> set sids then m k else lru_peek ?l c' k)"
    using Cons.IH [of c'] Cons.prems(1,2) by simp
  moreover have "lru_peek ?l c' k = (if k = sid then Some r else lru_peek ?l cache k)"
    using lru_written_same [OF w] lru_written_keeps [OF w, of k] Cons.prems(3) by simp
  ultimately show ?case using r by (auto simp: c'_def [symmetric])
qed simp

text \<open>The state of the running store, when the calls name at most \<open>capacity\<close> sessions.\<close>

lemma pers_run:
  assumes "lru_laws (persist_lru lib)" and "0 < capacity"
    and "card (call_session ` set calls) \<le> capacity"
    and "writes_whole lib" and "\<And>e. e \<in> set (run_log f calls) \<Longrightarrow> entry_encodes lib e"
    and "s0 = \<lparr>pers_poisoned = False, pers_cache = lru_new (persist_lru lib) capacity, pers_file = []\<rparr>"
  shows "pers_file (fold (session_step (pers_record_action lib) (pers_record_outcome lib) (pers_advance_provenance f lib))
      calls s0) = log_bytes lib (run_log f calls)"
  using assms(3,5)
proof (induction calls rule: rev_induct)
  case Nil
  then show ?case by (simp add: assms(6) run_log_def log_bytes_def)
next
  case (snoc c calls)
  let ?st = "session_step (pers_record_action lib) (pers_record_outcome lib) (pers_advance_provenance f lib)"
  let ?s = "fold ?st calls s0"
  have card: "card (call_session ` set calls) \<le> capacity"
    using snoc.prems(1) card_insert_le [of "call_session ` set calls" "call_session c"] by simp
  have new: "lru_laws (persist_lru lib) \<and> \<not> pers_poisoned s0 \<and> cache_ok (persist_lru lib) (pers_cache s0)"
      "lru_len (persist_lru lib) (pers_cache s0) = 0" "lru_cap (persist_lru lib) (pers_cache s0) = capacity"
      "\<And>sid. \<not> lru_peek (persist_lru lib) (pers_cache s0) sid \<noteq> None"
      "\<And>sid. pers_signals lib s0 sid = RuntimeSignals_default"
    using assms(1,2,6) by (simp_all add: lru_laws_def cache_ok_def pers_signals_def)
  have "pers_signals lib ?s sid = session_spec f calls sid" for sid
    using new card by (intro pers_store.run_refines) simp_all
  moreover have ok: "\<not> pers_poisoned ?s" using pers_store.run_ok [OF new(1)] by blast
  ultimately have "unwrap_or SessionRecord_default (lru_peek (persist_lru lib) (pers_cache ?s) sid) = session_record f calls sid" for sid
    using session_record_signals [of f calls sid]
    by (intro signals_of_inject) (simp add: pers_store.sig_cache [OF ok] cache_signals_def)
  then have "pers_file (?st c ?s) = append_entry lib (pers_file ?s)
      (log_entry (call_session c) (session_record f (calls @ [c]) (call_session c)))"
    using pers_step_file [OF ok, of lib f c] by (simp add: session_record_snoc)
  then show ?case
    using snoc card by (simp add: run_log_snoc append_entry_whole [OF assms(4)])
qed


definition sample_persist_lib :: "SessionRecord assoc_cache persist_lib" where
  "sample_persist_lib =
     \<lparr>persist_lru = assoc_lru, to_line = (\<lambda>e. Ok ''{}''),
      from_line = (\<lambda>l. Ok (log_entry ''ses_1'' (bump_count SessionRecord_default))),
      disk_accepts = (\<lambda>f b. length b), hash_order = (\<lambda>m. [''ses_1''])\<rparr>"


text \<open>
  A session evicted from the cache is a fresh session to the running store, although its records are
  in the log: nothing replays the log when a lookup misses.
\<close>

lemma eviction_forgets:
  "pers_signals sample_persist_lib
     (snd (pers_record_action sample_persist_lib
        (snd (pers_record_action sample_persist_lib
           \<lparr>pers_poisoned = False, pers_cache = lru_new assoc_lru 1, pers_file = []\<rparr> ''ses_1'')) ''ses_2'')) ''ses_1''
     = RuntimeSignals_default
   \<and> pers_file (snd (pers_record_action sample_persist_lib
           \<lparr>pers_poisoned = False, pers_cache = lru_new assoc_lru 1, pers_file = []\<rparr> ''ses_1'')) \<noteq> []"
  by (simp add: pers_signals_def pers_record_action_def sample_persist_lib_def assoc_lru_def assoc_write_def
      assoc_entries_def assoc_cap_def append_entry_def Let_def)

end
