(* ===== verification/Pipeline.thy ===== *)
theory Pipeline
  imports Authority_Client Capability_Validation Session_Persistent
begin

text \<open>
  The enforcement pipeline (\<^verbatim>\<open>firma-sidecar/src/pipeline\<close>): admission against the pinned generation,
  normalisation, Stage 1, Stage 2, credential injection, the audit record of every outcome, and the
  atomic evaluation of composite requests.

  The trait objects the pipeline holds are \<open>pipeline_lib\<close>. What the world outside answers while one
  action is evaluated, the clock readings, the readiness flag other tasks write, the end of the
  policy task and the injector's answer, is the record \<open>moment\<close>; it differs from action to action.
\<close>

section \<open>Parts\<close>

datatype CredentialInjectionError = UnknownConnector string | FetchFailed string string

type_synonym CredentialInjector =
  "ExecutionEnvelope \<Rightarrow> string \<Rightarrow> string \<Rightarrow> (CredentialInjectionError, InjectedCredentials) result"

definition NullCredentialInjector :: CredentialInjector where
  "NullCredentialInjector envelope connector_id target = Ok InjectedCredentials_empty"

record 's SessionStateStore =
  st_record_action :: "'s \<Rightarrow> session_id \<Rightarrow> nat \<times> 's"
  st_signals :: "'s \<Rightarrow> session_id \<Rightarrow> RuntimeSignals"
  st_record_outcome :: "'s \<Rightarrow> session_id \<Rightarrow> string \<Rightarrow> string \<Rightarrow> Outcome \<Rightarrow> 's"
  st_advance_provenance :: "'s \<Rightarrow> session_id \<Rightarrow> string \<Rightarrow> string \<Rightarrow> string \<Rightarrow> string \<times> 's"

record ('r, 's) pipeline_lib =
  pl_normalizer :: normalizer_lib
  pl_enforcer :: enforcer_lib
  pl_verify :: "datetime \<Rightarrow> token_verifier"
  pl_check :: "'r revocation_check"
  pl_sessions :: "'s SessionStateStore"
  pl_sha256_hex :: "string \<Rightarrow> string"

record moment =
  mo_readiness :: ReadinessState
  mo_verified_at :: datetime
  mo_expiry_at :: datetime
  mo_stage2_at :: datetime
  mo_task :: task_end
  mo_inject :: CredentialInjector
  mo_final_at :: datetime
  mo_elapsed :: nat

text \<open>The admission of the pinned generation reads the flag and the clock on its own.\<close>

record admission =
  ad_readiness :: ReadinessState
  ad_fresh_at :: datetime
  ad_normalized_at :: datetime

record ('r, 's) EnforcementPipeline =
  capability_validator :: "'r CapabilityValidator"
  constraint_enforcer :: PolicyEvaluation
  pipe_normalizer :: IntentNormalizer
  stage2_timeout :: "nat option"
  session_state_store :: 's
  runtime_snapshot :: "PublishedSnapshot option"

definition STEP_UP_RETRY_AFTER_MS :: nat where "STEP_UP_RETRY_AFTER_MS = 500"

definition RUN_REJECTED_DETAIL :: string where "RUN_REJECTED_DETAIL = ''the Authority rejected this run''"

definition check_readiness :: "ReadinessState \<Rightarrow> (EnforcementDecision, unit) result" where
  "check_readiness readiness =
     (if run_rejected readiness
      then Err (Deny PolicyBundleNotReady (ConstraintEnforcement BundleFreshness) RUN_REJECTED_DETAIL None None)
      else if \<not> policy_bundle_ready readiness
      then Err (Deny PolicyBundleNotReady (ConstraintEnforcement BundleFreshness)
             ''policy bundle has not been loaded'' None None)
      else if \<not> revocation_ready readiness
      then Err (Deny RevocationCacheNotReady (CapabilityValidation TokenValidation)
             ''revocation cache has not completed initial sync'' None None)
      else Ok ())"

definition extract_host :: "string \<Rightarrow> string" where
  "extract_host resource = takeWhile (\<lambda>c. c \<noteq> CHR ''/'') resource"

definition derive_thread_id :: "(string \<Rightarrow> string) \<Rightarrow> session_id \<Rightarrow> string" where
  "derive_thread_id sha256_hex sid = sha256_hex (''firma:thread:'' @ sid)"

section \<open>One normalised action\<close>

definition policy_outcome :: "PolicyVerdict \<Rightarrow> Outcome" where
  "policy_outcome verdict =
     (case verdict of
        VerdictAllow \<Rightarrow> OutAllow
      | VerdictModify _ \<Rightarrow> OutModify
      | VerdictDeny \<Rightarrow> OutDeny
      | VerdictStepUp _ \<Rightarrow> OutStepUp
      | VerdictDefer _ \<Rightarrow> OutDefer)"

text \<open>The envelope of an admitted action: the session is the one of the verified claims.\<close>

definition assemble_envelope ::
  "(string \<Rightarrow> string) \<Rightarrow> NormalizedEnvelope \<Rightarrow> ValidatedCapability \<Rightarrow> RuntimeSignals \<Rightarrow> string \<Rightarrow> ExecutionEnvelope" where
  "assemble_envelope sha256_hex normalized capability sg provenance =
     \<lparr>env_intent = norm_intent normalized,
      env_capability = vc_raw_token capability,
      env_metadata =
        \<lparr>meta_session_id = claim_session_id (vc_claims capability),
         meta_agent_id = claim_agent_id (vc_claims capability),
         meta_timestamp = norm_timestamp normalized,
         meta_trace_id = None,
         meta_risk_score = (if sig_risk_score sg = Fin 0 then None else Some (sig_risk_score sg)),
         meta_thread_id = Some (derive_thread_id sha256_hex (claim_session_id (vc_claims capability))),
         meta_parent_action_id = sig_last_provenance sg\<rparr>,
      env_provenance = (if provenance = [] then None else Some provenance)\<rparr>"

text \<open>From an admitting verdict to the decision: assemble, inject, answer.\<close>

definition finish_admitted ::
  "(string \<Rightarrow> string) \<Rightarrow> CredentialInjector \<Rightarrow> NormalizedEnvelope \<Rightarrow> ValidatedCapability \<Rightarrow> RuntimeSignals \<Rightarrow> string
    \<Rightarrow> ModificationSpec option \<Rightarrow> EnforcementDecision" where
  "finish_admitted sha256_hex inject normalized capability sg provenance modifications =
     (let claims = vc_claims capability;
          envelope = assemble_envelope sha256_hex normalized capability sg provenance;
          target = resource_display (env_intent envelope);
          admit = (\<lambda>credentials. case modifications of
                     Some m \<Rightarrow> Modify claims envelope m credentials
                   | None \<Rightarrow> Allow claims envelope credentials)
      in case inject envelope (extract_host target) target of
           Inr credentials \<Rightarrow> admit credentials
         | Inl (UnknownConnector _) \<Rightarrow> admit InjectedCredentials_empty
         | Inl (FetchFailed connector_id reason) \<Rightarrow>
             Abort AbortCredentialInjectionFailed (''connector '' @ connector_id @ '': '' @ reason)
               (Some (DenyIdentity_from_claims claims)))"

definition finish_verdict_decision ::
  "('r, 's) pipeline_lib \<Rightarrow> CredentialInjector \<Rightarrow> NormalizedEnvelope \<Rightarrow> ValidatedCapability \<Rightarrow> RuntimeSignals
    \<Rightarrow> PolicyVerdict \<Rightarrow> 's \<Rightarrow> EnforcementDecision \<times> 's" where
  "finish_verdict_decision lib inject normalized capability sg verdict store =
     (let claims = vc_claims capability;
          identity = DenyIdentity_from_claims claims;
          proceed = (\<lambda>modifications.
            let (provenance, store') = st_advance_provenance (pl_sessions lib) store (claim_session_id claims)
                  (claim_context_hash claims) (intent_action_class (norm_intent normalized))
                  (policy_resource_display (norm_intent normalized))
            in (finish_admitted (pl_sha256_hex lib) inject normalized capability sg provenance modifications, store'))
      in case verdict of
           VerdictStepUp challenge \<Rightarrow>
             (StepUp (Some claims) (Some normalized) (StepUpSpec_as_str challenge) STEP_UP_RETRY_AFTER_MS
                (Some identity), store)
         | VerdictDefer backoff \<Rightarrow>
             (Defer (Some claims) (Some normalized) (min u64_max (backoff div 1000000)) (Some identity), store)
         | VerdictDeny \<Rightarrow> (with_identity (policy_denied normalized) identity, store)
         | VerdictAllow \<Rightarrow> proceed None
         | VerdictModify m \<Rightarrow> proceed (Some m))"

text \<open>Stage 2 with the configured time limit, or without one.\<close>

definition run_stage2 ::
  "('r, 's) pipeline_lib \<Rightarrow> moment \<Rightarrow> nat option \<Rightarrow> PolicyEvaluation \<Rightarrow> NormalizedEnvelope \<Rightarrow> CapabilityClaims
    \<Rightarrow> RuntimeSignals \<Rightarrow> (EnforcementDecision, PolicyVerdict) result" where
  "run_stage2 lib mo timeout enforcer normalized claims sg =
     (case timeout of
        Some t \<Rightarrow> evaluate_with_timeout (pl_enforcer lib) enforcer (mo_stage2_at mo) (mo_task mo) normalized claims sg t
      | None \<Rightarrow> evaluate (pl_enforcer lib) enforcer (mo_stage2_at mo) normalized claims sg)"

definition enforce_normalized_inner ::
  "('r, 's) pipeline_lib \<Rightarrow> moment \<Rightarrow> PolicyEvaluation \<Rightarrow> NormalizedEnvelope \<Rightarrow> string \<Rightarrow> ('r, 's) EnforcementPipeline
    \<Rightarrow> EnforcementDecision \<times> ('r, 's) EnforcementPipeline" where
  "enforce_normalized_inner lib mo enforcer normalized session_id self =
     (case check_readiness (mo_readiness mo) of
        Inl deny \<Rightarrow> (deny, self)
      | Inr _ \<Rightarrow>
          (case enforce (pl_verify lib (mo_verified_at mo)) (pl_check lib) (mo_expiry_at mo)
                  (capability_validator self) normalized session_id of
             (Inl deny, validator) \<Rightarrow> (deny, self\<lparr>capability_validator := validator\<rparr>)
           | (Inr capability, validator) \<Rightarrow>
               (let claims = vc_claims capability;
                    verified_sid = claim_session_id claims;
                    action_class = intent_action_class (norm_intent normalized);
                    resource = policy_resource_display (norm_intent normalized);
                    sessions = pl_sessions lib;
                    (action_count, store1) = st_record_action sessions (session_state_store self) verified_sid;
                    sg = (st_signals sessions store1 verified_sid)\<lparr>sig_action_count := action_count\<rparr>;
                    self1 = self\<lparr>capability_validator := validator\<rparr>
                in case run_stage2 lib mo (stage2_timeout self) enforcer normalized claims sg of
                     Inl deny \<Rightarrow>
                       (with_identity deny (DenyIdentity_from_claims claims),
                        self1\<lparr>session_state_store :=
                          st_record_outcome sessions store1 verified_sid action_class resource OutDeny\<rparr>)
                   | Inr verdict \<Rightarrow>
                       (let store2 = st_record_outcome sessions store1 verified_sid action_class resource
                              (policy_outcome verdict);
                            (decision, store3) =
                              finish_verdict_decision lib (mo_inject mo) normalized capability sg verdict store2
                        in (decision, self1\<lparr>session_state_store := store3\<rparr>)))))"

definition enforce_inner ::
  "('r, 's) pipeline_lib \<Rightarrow> moment \<Rightarrow> datetime \<Rightarrow> RawRequest \<Rightarrow> string \<Rightarrow> IntentNormalizer \<Rightarrow> PolicyEvaluation
    \<Rightarrow> ('r, 's) EnforcementPipeline \<Rightarrow> EnforcementDecision \<times> ('r, 's) EnforcementPipeline" where
  "enforce_inner lib mo now request session_id normalizer enforcer self =
     (case normalize (pl_normalizer lib) normalizer now request of
        Inl decision \<Rightarrow> (decision, self)
      | Inr envelope \<Rightarrow> enforce_normalized_inner lib mo enforcer envelope session_id self)"

section \<open>The pinned generation\<close>

definition stale_bundle_deny :: "NormalizedEnvelope option \<Rightarrow> DenyIdentity option \<Rightarrow> EnforcementDecision" where
  "stale_bundle_deny envelope identity =
     Deny PolicyBundleStale (ConstraintEnforcement BundleFreshness) ''policy bundle unavailable or stale'' envelope identity"

definition snapshot_fresh :: "PublishedSnapshot \<Rightarrow> datetime \<Rightarrow> bool" where
  "snapshot_fresh snapshot now = policy_is_fresh (published_policy snapshot) now"

definition reject_expired_pin :: "EnforcementDecision \<Rightarrow> PublishedSnapshot option \<Rightarrow> datetime \<Rightarrow> EnforcementDecision" where
  "reject_expired_pin decision snapshot now =
     (if (case snapshot of None \<Rightarrow> True | Some pin \<Rightarrow> snapshot_fresh pin now) then decision
      else case decision of
             Allow claims envelope _ \<Rightarrow>
               stale_bundle_deny
                 (Some \<lparr>norm_intent = env_intent envelope, norm_timestamp = meta_timestamp (env_metadata envelope)\<rparr>)
                 (Some (DenyIdentity_from_claims claims))
           | Modify claims envelope _ _ \<Rightarrow>
               stale_bundle_deny
                 (Some \<lparr>norm_intent = env_intent envelope, norm_timestamp = meta_timestamp (env_metadata envelope)\<rparr>)
                 (Some (DenyIdentity_from_claims claims))
           | Passthrough _ \<Rightarrow> stale_bundle_deny None None
           | other \<Rightarrow> other)"

definition pinned_generation_admission ::
  "admission \<Rightarrow> PublishedSnapshot option \<Rightarrow> (EnforcementDecision, unit) result" where
  "pinned_generation_admission ad snapshot =
     (case snapshot of
        None \<Rightarrow> Ok ()
      | Some pin \<Rightarrow>
          and_then (check_readiness (ad_readiness ad)) (\<lambda>_.
          if snapshot_fresh pin (ad_fresh_at ad) then Ok () else Err (stale_bundle_deny None None)))"

definition managed_transport_admission ::
  "normalizer_lib \<Rightarrow> admission \<Rightarrow> RawRequest \<Rightarrow> PublishedSnapshot option \<Rightarrow> (EnforcementDecision, unit) result" where
  "managed_transport_admission lib ad request snapshot =
     (case snapshot of
        None \<Rightarrow> Ok ()
      | Some pin \<Rightarrow>
          and_then (pinned_generation_admission ad (Some pin)) (\<lambda>_.
          and_then (normalize lib (ps_normalizer pin) (ad_normalized_at ad) request) (\<lambda>_. Ok ())))"

definition pinned :: "('r, 's) EnforcementPipeline \<Rightarrow> PublishedSnapshot option \<times> PolicyEvaluation option" where
  "pinned self = (runtime_snapshot self, map_option published_policy (runtime_snapshot self))"

section \<open>Audit\<close>

datatype Decision = DecAllow | DecDeny | DecAbort | DecModify | DecStepUp | DecDefer

record AuditPayload =
  au_session_id :: string
  au_token_id :: string
  au_agent_id :: string
  au_action :: string
  au_resource :: string
  au_decision :: Decision
  au_deny_reason :: string
  au_enforcement_latency_us :: int
  au_context_hash :: string
  au_bundle_version :: string
  au_dispatch_status :: int
  au_dispatch_latency_us :: int
  au_response_size :: int
  au_provenance :: string
  au_thread_id :: string
  au_parent_action_id :: string

record AuditDecisionFields =
  fd_token_id :: string
  fd_agent_id :: string
  fd_action :: string
  fd_resource :: string
  fd_decision_code :: Decision
  fd_deny_reason :: string
  fd_context_hash :: string
  fd_bundle_version :: string
  fd_provenance :: string
  fd_thread_id :: string
  fd_parent_action_id :: string

text \<open>The cast of a 128-bit count to a signed 64-bit integer keeps the low bits.\<close>

definition as_i64 :: "nat \<Rightarrow> int" where
  "as_i64 n = (let m = int (n mod 18446744073709551616) in
     if m < 9223372036854775808 then m else m - 18446744073709551616)"

definition raw_request_action_label :: "RawRequest \<Rightarrow> string" where
  "raw_request_action_label request =
     (if req_method request = ''CONNECT'' then ''network.connect'' else ''raw.http.'' @ req_method request)"

definition raw_request_resource_display :: "RawRequest \<Rightarrow> string" where
  "raw_request_resource_display request = req_host request @ req_path request"

definition redact_sensitive :: "normalizer_lib \<Rightarrow> string \<Rightarrow> string" where
  "redact_sensitive lib v = redact_default_query_params (form_first lib) v"

definition sanitize_audit_reason :: "normalizer_lib \<Rightarrow> string \<Rightarrow> string" where
  "sanitize_audit_reason lib reason = redact_sensitive lib reason"

definition deny_identity_fields :: "DenyIdentity option \<Rightarrow> string \<times> string \<times> string" where
  "deny_identity_fields identity =
     (case identity of
        None \<Rightarrow> ([], [], [])
      | Some i \<Rightarrow> (id_token_id i, id_agent_id i, id_context_hash i))"

definition identity_or_claims_fields :: "DenyIdentity option \<Rightarrow> CapabilityClaims option \<Rightarrow> string \<times> string \<times> string" where
  "identity_or_claims_fields identity claims =
     (case identity of
        Some i \<Rightarrow> (id_token_id i, id_agent_id i, id_context_hash i)
      | None \<Rightarrow>
          (case claims of
             Some c \<Rightarrow> (claim_token_id c, claim_agent_id c, claim_context_hash c)
           | None \<Rightarrow> ([], [], [])))"

definition remediation_action_resource :: "normalizer_lib \<Rightarrow> NormalizedEnvelope option \<Rightarrow> RawRequest \<Rightarrow> string \<times> string" where
  "remediation_action_resource lib envelope request =
     (case envelope of
        None \<Rightarrow> (raw_request_action_label request, redact_sensitive lib (raw_request_resource_display request))
      | Some e \<Rightarrow> (intent_action_class (norm_intent e), redact_sensitive lib (policy_resource_display (norm_intent e))))"

text \<open>The fields of an outcome that did not reach dispatch.\<close>

definition undispatched_fields ::
  "string \<times> string \<times> string \<Rightarrow> string \<times> string \<Rightarrow> Decision \<Rightarrow> string \<Rightarrow> string option \<Rightarrow> AuditDecisionFields" where
  "undispatched_fields who what code reason version =
     (case who of (tok, agent, hash) \<Rightarrow> case what of (action, resource) \<Rightarrow>
        \<lparr>fd_token_id = tok, fd_agent_id = agent, fd_action = action, fd_resource = resource,
         fd_decision_code = code, fd_deny_reason = reason, fd_context_hash = hash,
         fd_bundle_version = unwrap_or [] version, fd_provenance = [], fd_thread_id = [],
         fd_parent_action_id = []\<rparr>)"

text \<open>The fields of an admitted action.\<close>

definition admitted_fields ::
  "normalizer_lib \<Rightarrow> CapabilityClaims \<Rightarrow> ExecutionEnvelope \<Rightarrow> Decision \<Rightarrow> string \<Rightarrow> string option \<Rightarrow> AuditDecisionFields" where
  "admitted_fields lib claims envelope code reason version =
     \<lparr>fd_token_id = claim_token_id claims, fd_agent_id = claim_agent_id claims,
      fd_action = intent_action_class (env_intent envelope),
      fd_resource = redact_sensitive lib (policy_resource_display (env_intent envelope)),
      fd_decision_code = code, fd_deny_reason = reason, fd_context_hash = claim_context_hash claims,
      fd_bundle_version = unwrap_or [] version, fd_provenance = unwrap_or [] (env_provenance envelope),
      fd_thread_id = unwrap_or [] (meta_thread_id (env_metadata envelope)),
      fd_parent_action_id = unwrap_or [] (meta_parent_action_id (env_metadata envelope))\<rparr>"

definition audit_decision_fields ::
  "normalizer_lib \<Rightarrow> EnforcementDecision \<Rightarrow> RawRequest \<Rightarrow> string option \<Rightarrow> AuditDecisionFields" where
  "audit_decision_fields lib decision request version =
     (case decision of
        Allow claims envelope _ \<Rightarrow> admitted_fields lib claims envelope DecAllow [] version
      | Modify claims envelope modifications _ \<Rightarrow>
          admitted_fields lib claims envelope DecModify
            (sanitize_audit_reason lib (ModificationSpec_display modifications)) version
      | Deny reason _ detail envelope identity \<Rightarrow>
          undispatched_fields (deny_identity_fields identity) (remediation_action_resource lib envelope request)
            DecDeny (sanitize_audit_reason lib (DenyReason_display reason @ '': '' @ detail)) version
      | Abort reason detail identity \<Rightarrow>
          undispatched_fields (deny_identity_fields identity) (remediation_action_resource lib None request)
            DecAbort (sanitize_audit_reason lib (AbortReason_code reason @ '': '' @ detail)) version
      | Passthrough _ \<Rightarrow>
          undispatched_fields ([], [], []) (remediation_action_resource lib None request) DecAllow [] version
      | StepUp claims envelope challenge retry_after_ms identity \<Rightarrow>
          undispatched_fields (identity_or_claims_fields identity claims) (remediation_action_resource lib envelope request)
            DecStepUp (sanitize_audit_reason lib (DenyReason_display StepUpRequired @ '': '' @ challenge
               @ ''; retry_after_ms: '' @ show_nat retry_after_ms)) version
      | Defer claims envelope retry_after_ms identity \<Rightarrow>
          undispatched_fields (identity_or_claims_fields identity claims) (remediation_action_resource lib envelope request)
            DecDefer (sanitize_audit_reason lib (DenyReason_display Deferred @ '': retry_after_ms: ''
               @ show_nat retry_after_ms)) version)"

definition audit_payload_from_decision ::
  "normalizer_lib \<Rightarrow> EnforcementDecision \<Rightarrow> RawRequest \<Rightarrow> string \<Rightarrow> nat \<Rightarrow> string option \<Rightarrow> AuditPayload" where
  "audit_payload_from_decision lib decision request session_id latency version =
     (let fields = audit_decision_fields lib decision request version;
          audited_session = (case decision of
              Allow _ envelope _ \<Rightarrow> meta_session_id (env_metadata envelope)
            | Modify _ envelope _ _ \<Rightarrow> meta_session_id (env_metadata envelope)
            | _ \<Rightarrow> session_id)
      in \<lparr>au_session_id = audited_session, au_token_id = fd_token_id fields, au_agent_id = fd_agent_id fields,
          au_action = fd_action fields, au_resource = fd_resource fields, au_decision = fd_decision_code fields,
          au_deny_reason = fd_deny_reason fields, au_enforcement_latency_us = as_i64 (latency div 1000),
          au_context_hash = fd_context_hash fields, au_bundle_version = fd_bundle_version fields,
          au_dispatch_status = 0, au_dispatch_latency_us = 0, au_response_size = 0,
          au_provenance = fd_provenance fields, au_thread_id = fd_thread_id fields,
          au_parent_action_id = fd_parent_action_id fields\<rparr>)"

definition redact_managed_audit :: "normalizer_lib \<Rightarrow> PublishedSnapshot option \<Rightarrow> AuditPayload \<Rightarrow> AuditPayload" where
  "redact_managed_audit lib snapshot audit =
     (case snapshot of
        None \<Rightarrow> audit
      | Some pin \<Rightarrow>
          audit\<lparr>au_resource := redact_query lib (ps_normalizer pin) (au_resource audit),
                au_deny_reason := redact_query lib (ps_normalizer pin) (au_deny_reason audit)\<rparr>)"

section \<open>The entry points\<close>

definition EnforcementPipeline_enforce ::
  "('r, 's) pipeline_lib \<Rightarrow> admission \<Rightarrow> moment \<Rightarrow> RawRequest \<Rightarrow> string \<Rightarrow> ('r, 's) EnforcementPipeline
    \<Rightarrow> (EnforcementDecision \<times> AuditPayload) \<times> ('r, 's) EnforcementPipeline" where
  "EnforcementPipeline_enforce lib ad mo request session_id self =
     (let (snapshot, pinned_enforcer) = pinned self;
          enforcer = unwrap_or (constraint_enforcer self) pinned_enforcer;
          normalizer = (case snapshot of None \<Rightarrow> pipe_normalizer self | Some pin \<Rightarrow> ps_normalizer pin);
          bundle_version = policy_version enforcer;
          (decision1, self') = (case pinned_generation_admission ad snapshot of
              Inr _ \<Rightarrow> enforce_inner lib mo (ad_normalized_at ad) request session_id normalizer enforcer self
            | Inl deny \<Rightarrow> (deny, self));
          decision = reject_expired_pin decision1 snapshot (mo_final_at mo);
          audit_version = (if (case decision of Deny _ Normalization _ _ _ \<Rightarrow> True | _ \<Rightarrow> False) \<and> Option.is_none snapshot
                           then None else bundle_version);
          payload = audit_payload_from_decision (pl_normalizer lib) decision request session_id (mo_elapsed mo) audit_version
      in ((decision, redact_managed_audit (pl_normalizer lib) snapshot payload), self'))"

definition audit_protocol_denial ::
  "normalizer_lib \<Rightarrow> EnforcementDecision \<Rightarrow> RawRequest \<Rightarrow> string \<Rightarrow> ('r, 's) EnforcementPipeline \<Rightarrow> AuditPayload" where
  "audit_protocol_denial lib decision request session_id self =
     (let snapshot = runtime_snapshot self;
          version = (case snapshot of None \<Rightarrow> policy_version (constraint_enforcer self)
                     | Some pin \<Rightarrow> policy_version (published_policy pin))
      in redact_managed_audit lib snapshot (audit_payload_from_decision lib decision request session_id 0 version))"

text \<open>\<open>fresh_at\<close> and \<open>final_at\<close> are the clock readings of the two tests at the end.\<close>

definition composio_passthrough ::
  "normalizer_lib \<Rightarrow> admission \<Rightarrow> datetime \<Rightarrow> datetime \<Rightarrow> RawRequest \<Rightarrow> string \<Rightarrow> ('r, 's) EnforcementPipeline
    \<Rightarrow> EnforcementDecision \<times> AuditPayload" where
  "composio_passthrough lib ad fresh_at final_at request session_id self =
     (let snapshot = runtime_snapshot self;
          decision = (case managed_transport_admission lib ad request snapshot of
              Inl deny \<Rightarrow> deny
            | Inr _ \<Rightarrow> Passthrough ''recognized Composio non-execution request'');
          version = Option.bind snapshot (\<lambda>pin. policy_version (published_policy pin));
          audit = (\<lambda>decision. redact_managed_audit lib snapshot
            (audit_payload_from_decision lib decision request session_id 0 version))
      in if (case snapshot of None \<Rightarrow> False | Some pin \<Rightarrow> \<not> snapshot_fresh pin fresh_at)
         then let decision' = reject_expired_pin decision snapshot final_at in (decision', audit decision')
         else (decision, audit decision))"

section \<open>Composite requests\<close>

record CompositeActionResult =
  child_decision :: EnforcementDecision
  child_audit :: AuditPayload

datatype CompositeDisposition = Dispatch ExecutionEnvelope InjectedCredentials | Block nat

record CompositeEnforcement =
  ce_children :: "CompositeActionResult list"
  ce_disposition :: CompositeDisposition

fun list_position :: "('a \<Rightarrow> bool) \<Rightarrow> 'a list \<Rightarrow> nat option" where
  "list_position p [] = None"
| "list_position p (x # xs) = (if p x then Some 0 else map_option Suc (list_position p xs))"

definition is_composio_blocker :: "EnforcementDecision \<Rightarrow> bool" where
  "is_composio_blocker decision = (case decision of Allow _ _ _ \<Rightarrow> False | _ \<Rightarrow> True)"

definition is_abort :: "EnforcementDecision \<Rightarrow> bool" where
  "is_abort decision = (case decision of Abort _ _ _ \<Rightarrow> True | _ \<Rightarrow> False)"

definition decision_identity :: "EnforcementDecision \<Rightarrow> DenyIdentity option" where
  "decision_identity decision =
     (case decision of
        Allow claims _ _ \<Rightarrow> Some (DenyIdentity_from_claims claims)
      | Modify claims _ _ _ \<Rightarrow> Some (DenyIdentity_from_claims claims)
      | Deny _ _ _ _ identity \<Rightarrow> identity
      | Abort _ _ identity \<Rightarrow> identity
      | StepUp _ _ _ _ identity \<Rightarrow> identity
      | Defer _ _ _ identity \<Rightarrow> identity
      | Passthrough _ \<Rightarrow> None)"

definition rewrite_as_atomic_abort :: "string \<Rightarrow> CompositeActionResult \<Rightarrow> CompositeActionResult" where
  "rewrite_as_atomic_abort detail child =
     \<lparr>child_decision = Abort AbortBatchAtomicity detail (decision_identity (child_decision child)),
      child_audit = (child_audit child)\<lparr>au_decision := DecAbort,
        au_deny_reason := AbortReason_code AbortBatchAtomicity @ '': '' @ detail\<rparr>\<rparr>"

definition admitted_transport :: "EnforcementDecision \<Rightarrow> (ExecutionEnvelope \<times> InjectedCredentials) option" where
  "admitted_transport decision =
     (case decision of
        Allow _ envelope credentials \<Rightarrow> Some (envelope, credentials)
      | Modify _ envelope _ credentials \<Rightarrow> Some (envelope, credentials)
      | _ \<Rightarrow> None)"

definition admitted_credentials_disagree :: "CompositeActionResult list \<Rightarrow> bool" where
  "admitted_credentials_disagree children =
     (case List.map_filter (\<lambda>child. map_option (\<lambda>t. cred_headers (snd t)) (admitted_transport (child_decision child))) children of
        [] \<Rightarrow> False
      | first # rest \<Rightarrow> list_ex (\<lambda>candidate. candidate \<noteq> first) rest)"

definition first_admitted_transport :: "CompositeActionResult list \<Rightarrow> (ExecutionEnvelope \<times> InjectedCredentials) option" where
  "first_admitted_transport children =
     (case List.map_filter (\<lambda>child. admitted_transport (child_decision child)) children of
        [] \<Rightarrow> None | first # _ \<Rightarrow> Some first)"

definition operational_abort_blocker ::
  "CompositeActionResult list \<Rightarrow> bool \<Rightarrow> nat option \<times> CompositeActionResult list" where
  "operational_abort_blocker children credential_disagreement =
     (case list_position (\<lambda>child. is_abort (child_decision child)) children of
        None \<Rightarrow> (None, children)
      | Some abort_index \<Rightarrow>
          (Some abort_index,
           if credential_disagreement then children
           else map (\<lambda>(index, child).
                  if index \<noteq> abort_index \<and> admitted (child_decision child)
                  then rewrite_as_atomic_abort ''another Composio action in the atomic request aborted'' child
                  else child) (List.enumerate 0 children)))"

definition empty_composite_fail_closed ::
  "normalizer_lib \<Rightarrow> RawRequest \<Rightarrow> string \<Rightarrow> string option \<Rightarrow> CompositeEnforcement" where
  "empty_composite_fail_closed lib request session_id version =
     (let decision = Deny FailClosed Normalization
            ''Composio composite enforcement received no actions; failing closed'' None None
      in \<lparr>ce_children = [\<lparr>child_decision = decision,
              child_audit = audit_payload_from_decision lib decision request session_id 0 version\<rparr>],
          ce_disposition = Block 0\<rparr>)"

text \<open>One child: its decision, and the audit record of its own action.\<close>

definition composite_child ::
  "('r, 's) pipeline_lib \<Rightarrow> (EnforcementDecision, unit) result \<Rightarrow> nat \<Rightarrow> PublishedSnapshot option \<Rightarrow> PolicyEvaluation
    \<Rightarrow> RawRequest \<Rightarrow> string \<Rightarrow> NormalizedEnvelope \<times> moment \<Rightarrow> ('r, 's) EnforcementPipeline
    \<Rightarrow> CompositeActionResult \<times> ('r, 's) EnforcementPipeline" where
  "composite_child lib admission elapsed snapshot enforcer request session_id act self =
     (case act of (action, mo) \<Rightarrow>
      let (decision1, self') = (case admission of
              Inr _ \<Rightarrow> enforce_normalized_inner lib mo enforcer action session_id self
            | Inl deny \<Rightarrow> (deny, self));
          decision = reject_expired_pin decision1 snapshot (mo_final_at mo);
          audit = audit_payload_from_decision (pl_normalizer lib) decision request session_id (mo_elapsed mo + elapsed)
            (policy_version enforcer);
          audit' = audit\<lparr>au_action := intent_action_class (norm_intent action),
            au_resource := redact_sensitive (pl_normalizer lib) (policy_resource_display (norm_intent action))\<rparr>
      in (\<lparr>child_decision = decision, child_audit = redact_managed_audit (pl_normalizer lib) snapshot audit'\<rparr>, self'))"

fun composite_children ::
  "(NormalizedEnvelope \<times> moment \<Rightarrow> ('r, 's) EnforcementPipeline \<Rightarrow> CompositeActionResult \<times> ('r, 's) EnforcementPipeline)
    \<Rightarrow> (NormalizedEnvelope \<times> moment) list \<Rightarrow> ('r, 's) EnforcementPipeline
    \<Rightarrow> CompositeActionResult list \<times> ('r, 's) EnforcementPipeline" where
  "composite_children child [] self = ([], self)"
| "composite_children child (act # acts) self =
     (case child act self of (result, self1) \<Rightarrow>
      case composite_children child acts self1 of (results, self2) \<Rightarrow> (result # results, self2))"

text \<open>The disposition of evaluated children.\<close>

definition composite_disposition :: "CompositeActionResult list \<Rightarrow> CompositeEnforcement" where
  "composite_disposition children0 =
     (let policy_blocker = list_position (\<lambda>child. is_composio_blocker (child_decision child)) children0;
          credential_disagreement = (policy_blocker = None \<and> admitted_credentials_disagree children0);
          children1 = (if credential_disagreement
                       then map (rewrite_as_atomic_abort ''admitted Composio actions produced different credentials'') children0
                       else children0);
          first_blocker = (if credential_disagreement then Some 0 else policy_blocker)
      in case operational_abort_blocker children1 credential_disagreement of
           (Some abort_index, children2) \<Rightarrow> \<lparr>ce_children = children2, ce_disposition = Block abort_index\<rparr>
         | (None, children2) \<Rightarrow>
             (case first_blocker of
                Some blocker_index \<Rightarrow>
                  \<lparr>ce_children =
                     (if credential_disagreement then children2
                      else map (\<lambda>child. if is_allow (child_decision child)
                              then rewrite_as_atomic_abort
                                     ''another Composio action in the atomic request was blocked'' child
                              else child) children2),
                   ce_disposition = Block blocker_index\<rparr>
              | None \<Rightarrow>
                  (case first_admitted_transport children2 of
                     None \<Rightarrow>
                       \<lparr>ce_children = map (rewrite_as_atomic_abort ''Composio batch admitted no action to dispatch'') children2,
                        ce_disposition = Block 0\<rparr>
                   | Some (envelope, credentials) \<Rightarrow>
                       \<lparr>ce_children = children2, ce_disposition = Dispatch envelope credentials\<rparr>)))"

text \<open>The actions are the envelopes the decoder produced, each with the moment it is evaluated in.\<close>

definition enforce_composite ::
  "('r, 's) pipeline_lib \<Rightarrow> admission \<Rightarrow> nat \<Rightarrow> RawRequest \<Rightarrow> string \<Rightarrow> (NormalizedEnvelope \<times> moment) list
    \<Rightarrow> ('r, 's) EnforcementPipeline \<Rightarrow> CompositeEnforcement \<times> ('r, 's) EnforcementPipeline" where
  "enforce_composite lib ad elapsed request session_id actions self =
     (let (snapshot, pinned_enforcer) = pinned self;
          enforcer = unwrap_or (constraint_enforcer self) pinned_enforcer
      in if actions = []
         then (empty_composite_fail_closed (pl_normalizer lib) request session_id (policy_version enforcer), self)
         else
           let admission = managed_transport_admission (pl_normalizer lib) ad request snapshot;
               (children, self') = composite_children
                 (composite_child lib admission elapsed snapshot enforcer request session_id) actions self
           in (composite_disposition children, self'))"

section \<open>What an admission rests on\<close>

lemma check_readiness_Ok: "check_readiness r = Ok () \<longleftrightarrow> fully_ready r"
  by (simp add: check_readiness_def fully_ready_def)

lemma check_readiness_Err: "check_readiness r = Err d \<Longrightarrow> is_deny d"
  by (auto simp: check_readiness_def split: if_split_asm)

lemma snapshot_fresh_iff: "snapshot_fresh pin now \<longleftrightarrow> now < ps_deadline pin"
  by (simp add: snapshot_fresh_def published_policy_def)

lemma reject_expired_pin_admitted:
  assumes "admitted (reject_expired_pin d snapshot now)"
  shows "reject_expired_pin d snapshot now = d" and "\<And>pin. snapshot = Some pin \<Longrightarrow> now < ps_deadline pin"
  using assms
  by (auto simp: reject_expired_pin_def stale_bundle_deny_def snapshot_fresh_iff
      split: if_split_asm option.splits EnforcementDecision.splits)

lemma pinned_generation_admission_Ok:
  "pinned_generation_admission ad (Some pin) = Ok () \<longleftrightarrow> fully_ready (ad_readiness ad) \<and> ad_fresh_at ad < ps_deadline pin"
  by (auto simp: pinned_generation_admission_def and_then_Ok check_readiness_Ok snapshot_fresh_iff)

lemma pinned_generation_admission_Err: "pinned_generation_admission ad snapshot = Err d \<Longrightarrow> is_deny d"
  by (auto simp: pinned_generation_admission_def and_then_Err stale_bundle_deny_def
      dest: check_readiness_Err split: option.splits if_split_asm)

lemma run_stage2_task:
  obtains task t where
    "run_stage2 lib mo timeout enforcer env claims sg =
       evaluate_with_timeout (pl_enforcer lib) enforcer (mo_stage2_at mo) task env claims sg t"
proof (cases timeout)
  case None
  then show ?thesis
    using that [of TaskReturns 0] by (simp add: run_stage2_def evaluate_with_timeout_returns)
next
  case (Some t)
  then show ?thesis using that [of "mo_task mo" t] by (simp add: run_stage2_def)
qed

lemma run_stage2_Err: "run_stage2 lib mo timeout enforcer env claims sg = Err d \<Longrightarrow> is_deny d"
  by (rule run_stage2_task [of lib mo timeout enforcer env claims sg]) (simp add: evaluate_with_timeout_Err)

lemma run_stage2_Ok:
  assumes "run_stage2 lib mo timeout enforcer env claims sg = Ok verdict"
  obtains ctx where "in_scope env claims" "policy_is_available enforcer" "policy_is_fresh enforcer (mo_stage2_at mo)"
    "verdict \<noteq> VerdictDeny" "build_context (pl_enforcer lib) env claims sg = Ok ctx"
    "policy_evaluate_verdict enforcer (claim_agent_id claims) (intent_action_class (norm_intent env))
       (policy_resource_display (norm_intent env)) ctx = Ok verdict"
proof -
  obtain task t where "evaluate_with_timeout (pl_enforcer lib) enforcer (mo_stage2_at mo) task env claims sg t = Ok verdict"
    using assms by (metis run_stage2_task)
  then show ?thesis by (rule evaluate_with_timeout_Ok) (use that in blast)
qed

text \<open>The decisions an admitting verdict can end in.\<close>

lemma finish_admitted_cases:
  fixes capability :: ValidatedCapability
  obtains credentials where "finish_admitted f inject env capability sg prov m =
      (case m of Some m' \<Rightarrow> Modify (vc_claims capability) (assemble_envelope f env capability sg prov) m' credentials
       | None \<Rightarrow> Allow (vc_claims capability) (assemble_envelope f env capability sg prov) credentials)"
  | detail where "finish_admitted f inject env capability sg prov m =
      Abort AbortCredentialInjectionFailed detail (Some (DenyIdentity_from_claims (vc_claims capability)))"
proof (cases "inject (assemble_envelope f env capability sg prov)
      (extract_host (resource_display (env_intent (assemble_envelope f env capability sg prov))))
      (resource_display (env_intent (assemble_envelope f env capability sg prov)))")
  case (Inl e)
  then show ?thesis
    using that(1) [of InjectedCredentials_empty] that(2) by (cases e) (simp_all add: finish_admitted_def Let_def)
next
  case (Inr credentials)
  then show ?thesis using that(1) [of credentials] by (simp add: finish_admitted_def Let_def)
qed

text \<open>The signals Stage 2 sees, and the store after the action was counted.\<close>

definition counted_store :: "('r, 's) pipeline_lib \<Rightarrow> 's \<Rightarrow> session_id \<Rightarrow> 's" where
  "counted_store lib store sid = snd (st_record_action (pl_sessions lib) store sid)"

definition seen_signals :: "('r, 's) pipeline_lib \<Rightarrow> 's \<Rightarrow> session_id \<Rightarrow> RuntimeSignals" where
  "seen_signals lib store sid =
     (st_signals (pl_sessions lib) (counted_store lib store sid) sid)
       \<lparr>sig_action_count := fst (st_record_action (pl_sessions lib) store sid)\<rparr>"

abbreviation stage1_of where
  "stage1_of lib mo self env session \<equiv>
     enforce (pl_verify lib (mo_verified_at mo)) (pl_check lib) (mo_expiry_at mo) (capability_validator self) env session"

abbreviation stage2_of where
  "stage2_of lib mo self enforcer env vc \<equiv>
     run_stage2 lib mo (stage2_timeout self) enforcer env (vc_claims vc)
       (seen_signals lib (session_state_store self) (claim_session_id (vc_claims vc)))"

abbreviation outcome_store where
  "outcome_store lib self env vc outcome \<equiv>
     st_record_outcome (pl_sessions lib)
       (counted_store lib (session_state_store self) (claim_session_id (vc_claims vc))) (claim_session_id (vc_claims vc))
       (intent_action_class (norm_intent env)) (policy_resource_display (norm_intent env)) outcome"

lemma inner_not_ready:
  "check_readiness (mo_readiness mo) = Err d \<Longrightarrow> enforce_normalized_inner lib mo enforcer env session self = (d, self)"
  by (simp add: enforce_normalized_inner_def)

lemma inner_stage1_deny:
  "fully_ready (mo_readiness mo) \<Longrightarrow> stage1_of lib mo self env session = (Err d, v) \<Longrightarrow>
     enforce_normalized_inner lib mo enforcer env session self = (d, self\<lparr>capability_validator := v\<rparr>)"
  by (simp add: enforce_normalized_inner_def check_readiness_Ok [symmetric])

lemma inner_stage2_deny:
  assumes "fully_ready (mo_readiness mo)" and "stage1_of lib mo self env session = (Ok vc, v)"
    and "stage2_of lib mo self enforcer env vc = Err d"
  shows "enforce_normalized_inner lib mo enforcer env session self =
     (with_identity d (DenyIdentity_from_claims (vc_claims vc)),
      self\<lparr>capability_validator := v, session_state_store := outcome_store lib self env vc OutDeny\<rparr>)"
  using assms
  by (simp add: enforce_normalized_inner_def check_readiness_Ok [symmetric] seen_signals_def counted_store_def
      Let_def split_beta)

lemma inner_verdict:
  assumes "fully_ready (mo_readiness mo)" and "stage1_of lib mo self env session = (Ok vc, v)"
    and "stage2_of lib mo self enforcer env vc = Ok verdict"
  shows "enforce_normalized_inner lib mo enforcer env session self =
     (fst (finish_verdict_decision lib (mo_inject mo) env vc
             (seen_signals lib (session_state_store self) (claim_session_id (vc_claims vc))) verdict
             (outcome_store lib self env vc (policy_outcome verdict))),
      self\<lparr>capability_validator := v, session_state_store :=
        snd (finish_verdict_decision lib (mo_inject mo) env vc
             (seen_signals lib (session_state_store self) (claim_session_id (vc_claims vc))) verdict
             (outcome_store lib self env vc (policy_outcome verdict)))\<rparr>)"
  using assms
  by (simp add: enforce_normalized_inner_def check_readiness_Ok [symmetric] seen_signals_def counted_store_def
      Let_def split_beta)

text \<open>The four ways through an action.\<close>

lemma inner_cases:
  obtains d where "check_readiness (mo_readiness mo) = Err d"
  | d v where "fully_ready (mo_readiness mo)" "stage1_of lib mo self env session = (Err d, v)"
  | vc v d where "fully_ready (mo_readiness mo)" "stage1_of lib mo self env session = (Ok vc, v)"
      "stage2_of lib mo self enforcer env vc = Err d"
  | vc v verdict where "fully_ready (mo_readiness mo)" "stage1_of lib mo self env session = (Ok vc, v)"
      "stage2_of lib mo self enforcer env vc = Ok verdict"
proof (cases "check_readiness (mo_readiness mo)")
  case (Inl d)
  then show ?thesis by (rule that(1))
next
  case (Inr u)
  then have r: "fully_ready (mo_readiness mo)" by (simp add: check_readiness_Ok [symmetric])
  obtain q v where e: "stage1_of lib mo self env session = (q, v)" by fastforce
  show ?thesis
  proof (cases q)
    case (Inl d)
    show ?thesis using that(2) [OF r e [unfolded Inl]] .
  next
    case (Inr vc)
    show ?thesis
      using that(3) [OF r e [unfolded Inr]] that(4) [OF r e [unfolded Inr]]
      by (cases "stage2_of lib mo self enforcer env vc") blast+
  qed
qed

lemma finish_verdict_decision_admitted:
  assumes "admitted (fst (finish_verdict_decision lib inject env vc sg verdict store))"
  obtains credentials provenance m where
    "verdict = (case m of Some m' \<Rightarrow> VerdictModify m' | None \<Rightarrow> VerdictAllow)"
    "provenance = fst (st_advance_provenance (pl_sessions lib) store (claim_session_id (vc_claims vc))
       (claim_context_hash (vc_claims vc)) (intent_action_class (norm_intent env)) (policy_resource_display (norm_intent env)))"
    "fst (finish_verdict_decision lib inject env vc sg verdict store) =
       (case m of Some m' \<Rightarrow> Modify (vc_claims vc) (assemble_envelope (pl_sha256_hex lib) env vc sg provenance) m' credentials
        | None \<Rightarrow> Allow (vc_claims vc) (assemble_envelope (pl_sha256_hex lib) env vc sg provenance) credentials)"
proof -
  let ?prov = "fst (st_advance_provenance (pl_sessions lib) store (claim_session_id (vc_claims vc))
       (claim_context_hash (vc_claims vc)) (intent_action_class (norm_intent env)) (policy_resource_display (norm_intent env)))"
  have "\<exists>m. verdict = (case m of Some m' \<Rightarrow> VerdictModify m' | None \<Rightarrow> VerdictAllow)
      \<and> fst (finish_verdict_decision lib inject env vc sg verdict store) =
          finish_admitted (pl_sha256_hex lib) inject env vc sg ?prov m"
    using assms
    by (cases verdict) (force simp: finish_verdict_decision_def policy_denied_def Let_def split_beta)+
  then obtain m where m: "verdict = (case m of Some m' \<Rightarrow> VerdictModify m' | None \<Rightarrow> VerdictAllow)"
      "fst (finish_verdict_decision lib inject env vc sg verdict store) =
          finish_admitted (pl_sha256_hex lib) inject env vc sg ?prov m" by blast
  show ?thesis
  proof (rule finish_admitted_cases [of "pl_sha256_hex lib" inject env vc sg ?prov m])
    fix credentials
    assume "finish_admitted (pl_sha256_hex lib) inject env vc sg ?prov m =
      (case m of Some m' \<Rightarrow> Modify (vc_claims vc) (assemble_envelope (pl_sha256_hex lib) env vc sg ?prov) m' credentials
        | None \<Rightarrow> Allow (vc_claims vc) (assemble_envelope (pl_sha256_hex lib) env vc sg ?prov) credentials)"
    then show ?thesis using that [OF m(1) refl] m(2) by simp
  next
    fix detail
    assume "finish_admitted (pl_sha256_hex lib) inject env vc sg ?prov m =
      Abort AbortCredentialInjectionFailed detail (Some (DenyIdentity_from_claims (vc_claims vc)))"
    then show ?thesis using assms m(2) by simp
  qed
qed

text \<open>
  What stands behind an admitted action: Stage 1 produced the claims, they cover the action, the
  fresh policy answered with exactly the verdict of the decision on the context built from the
  claims and the session's signals, and the envelope is bound to the verified token, session and
  agent and carries the action unchanged.
\<close>

definition authorised ::
  "('r, 's) pipeline_lib \<Rightarrow> moment \<Rightarrow> ('r, 's) EnforcementPipeline \<Rightarrow> PolicyEvaluation \<Rightarrow> NormalizedEnvelope \<Rightarrow> string
    \<Rightarrow> EnforcementDecision \<Rightarrow> bool" where
  "authorised lib mo self enforcer env session d \<longleftrightarrow>
     (\<exists>vc ctx claims envelope verdict.
        fully_ready (mo_readiness mo)
      \<and> fst (stage1_of lib mo self env session) = Ok vc
      \<and> in_scope env (vc_claims vc)
      \<and> policy_is_available enforcer \<and> policy_is_fresh enforcer (mo_stage2_at mo)
      \<and> build_context (pl_enforcer lib) env (vc_claims vc)
          (seen_signals lib (session_state_store self) (claim_session_id (vc_claims vc))) = Ok ctx
      \<and> policy_evaluate_verdict enforcer (claim_agent_id (vc_claims vc)) (intent_action_class (norm_intent env))
          (policy_resource_display (norm_intent env)) ctx = Ok verdict
      \<and> ((\<exists>k. d = Allow claims envelope k \<and> verdict = VerdictAllow)
         \<or> (\<exists>m k. d = Modify claims envelope m k \<and> verdict = VerdictModify m))
      \<and> claims = vc_claims vc
      \<and> env_intent envelope = norm_intent env \<and> env_capability envelope = vc_raw_token vc
      \<and> meta_session_id (env_metadata envelope) = claim_session_id claims
      \<and> meta_agent_id (env_metadata envelope) = claim_agent_id claims)"

lemma inner_admitted:
  assumes "admitted (fst (enforce_normalized_inner lib mo enforcer env session self))"
  shows "authorised lib mo self enforcer env session (fst (enforce_normalized_inner lib mo enforcer env session self))"
proof (rule inner_cases [where mo = mo and lib = lib and self = self and env = env and session = session
      and enforcer = enforcer])
  fix d
  assume r: "check_readiness (mo_readiness mo) = Err d"
  show ?thesis using assms check_readiness_Err [OF r] by (simp add: inner_not_ready [OF r])
next
  fix d v
  assume e: "fully_ready (mo_readiness mo)" "stage1_of lib mo self env session = (Err d, v)"
  show ?thesis using assms enforce_Err_deny [OF e(2)] by (simp add: inner_stage1_deny [OF e])
next
  fix vc v d
  assume e: "fully_ready (mo_readiness mo)" "stage1_of lib mo self env session = (Ok vc, v)"
    "stage2_of lib mo self enforcer env vc = Err d"
  show ?thesis using assms run_stage2_Err [OF e(3)] by (simp add: inner_stage2_deny [OF e])
next
  fix vc v verdict
  assume e: "fully_ready (mo_readiness mo)" "stage1_of lib mo self env session = (Ok vc, v)"
    "stage2_of lib mo self enforcer env vc = Ok verdict"
  note inner = inner_verdict [OF e]
  obtain credentials prov m where f:
      "verdict = (case m of Some m' \<Rightarrow> VerdictModify m' | None \<Rightarrow> VerdictAllow)"
      "fst (enforce_normalized_inner lib mo enforcer env session self) =
       (case m of Some m' \<Rightarrow> Modify (vc_claims vc) (assemble_envelope (pl_sha256_hex lib) env vc
            (seen_signals lib (session_state_store self) (claim_session_id (vc_claims vc))) prov) m' credentials
        | None \<Rightarrow> Allow (vc_claims vc) (assemble_envelope (pl_sha256_hex lib) env vc
            (seen_signals lib (session_state_store self) (claim_session_id (vc_claims vc))) prov) credentials)"
    using assms unfolding inner fst_conv by (rule finish_verdict_decision_admitted) blast
  obtain ctx where g: "in_scope env (vc_claims vc)" "policy_is_available enforcer"
      "policy_is_fresh enforcer (mo_stage2_at mo)"
      "build_context (pl_enforcer lib) env (vc_claims vc)
         (seen_signals lib (session_state_store self) (claim_session_id (vc_claims vc))) = Ok ctx"
      "policy_evaluate_verdict enforcer (claim_agent_id (vc_claims vc)) (intent_action_class (norm_intent env))
         (policy_resource_display (norm_intent env)) ctx = Ok verdict"
    using e(3) by (rule run_stage2_Ok)
  show ?thesis
    unfolding authorised_def
    by (rule exI [of _ vc], rule exI [of _ ctx], rule exI [of _ "vc_claims vc"],
        rule exI [of _ "assemble_envelope (pl_sha256_hex lib) env vc
            (seen_signals lib (session_state_store self) (claim_session_id (vc_claims vc))) prov"],
        rule exI [of _ verdict])
      (use e g f in \<open>cases m; simp add: assemble_envelope_def\<close>)
qed

text \<open>Nothing but a denial, a remediation or an abort is possible without an admission.\<close>

lemma inner_not_passthrough: "fst (enforce_normalized_inner lib mo enforcer env session self) \<noteq> Passthrough x"
proof (rule inner_cases [where mo = mo and lib = lib and self = self and env = env and session = session
      and enforcer = enforcer])
  fix d
  assume r: "check_readiness (mo_readiness mo) = Err d"
  show ?thesis using check_readiness_Err [OF r] by (auto simp: inner_not_ready [OF r])
next
  fix d v
  assume e: "fully_ready (mo_readiness mo)" "stage1_of lib mo self env session = (Err d, v)"
  show ?thesis using enforce_Err_deny [OF e(2)] by (auto simp: inner_stage1_deny [OF e])
next
  fix vc v d
  assume e: "fully_ready (mo_readiness mo)" "stage1_of lib mo self env session = (Ok vc, v)"
    "stage2_of lib mo self enforcer env vc = Err d"
  show ?thesis using run_stage2_Err [OF e(3)] by (cases d) (simp_all add: inner_stage2_deny [OF e])
next
  fix vc v verdict
  assume e: "fully_ready (mo_readiness mo)" "stage1_of lib mo self env session = (Ok vc, v)"
    "stage2_of lib mo self enforcer env vc = Ok verdict"
  show ?thesis
    unfolding inner_verdict [OF e] fst_conv
    by (auto simp: finish_verdict_decision_def finish_admitted_def policy_denied_def Let_def
        split: PolicyVerdict.split prod.split sum.split CredentialInjectionError.split)
qed

lemma enforce_decision:
  assumes "runtime_snapshot self = Some pin"
  shows "fst (fst (EnforcementPipeline_enforce lib ad mo request session self)) =
     reject_expired_pin
       (case pinned_generation_admission ad (Some pin) of
          Inr _ \<Rightarrow> fst (enforce_inner lib mo (ad_normalized_at ad) request session (ps_normalizer pin) (published_policy pin) self)
        | Inl deny \<Rightarrow> deny) (Some pin) (mo_final_at mo)"
  using assms by (auto simp: EnforcementPipeline_enforce_def pinned_def Let_def split_beta split: sum.split)

lemma reject_expired_pin_passthrough:
  "reject_expired_pin d snapshot now = Passthrough x \<Longrightarrow> d = Passthrough x"
  by (auto simp: reject_expired_pin_def stale_bundle_deny_def split: if_split_asm EnforcementDecision.splits option.splits)

lemma enforce_inner_not_passthrough:
  "fst (enforce_inner lib mo now request session normalizer enforcer self) \<noteq> Passthrough x"
  using normalize_Err_deny [of "pl_normalizer lib" normalizer now request]
  by (auto simp: enforce_inner_def inner_not_passthrough split: sum.split)

lemma enforce_authorised:
  assumes "EnforcementPipeline_enforce lib ad mo request session self = ((d, audit), self')"
    and "runtime_snapshot self = Some pin" and adm: "admitted d"
  shows "fully_ready (ad_readiness ad) \<and> ad_fresh_at ad < ps_deadline pin \<and> mo_final_at mo < ps_deadline pin
    \<and> (\<exists>env. normalize (pl_normalizer lib) (ps_normalizer pin) (ad_normalized_at ad) request = Ok env
          \<and> authorised lib mo self (published_policy pin) env session d)"
proof -
  note d = enforce_decision [OF assms(2), of lib ad mo request session, unfolded assms(1) fst_conv]
  note r = reject_expired_pin_admitted [OF adm [unfolded d], folded d]
  obtain u where p: "pinned_generation_admission ad (Some pin) = Ok u"
    using adm r(1) d by (cases "pinned_generation_admission ad (Some pin)") (auto dest: pinned_generation_admission_Err)
  then have ready: "fully_ready (ad_readiness ad)" "ad_fresh_at ad < ps_deadline pin"
    using pinned_generation_admission_Ok [of ad pin] by simp_all
  have inner: "d = fst (enforce_inner lib mo (ad_normalized_at ad) request session (ps_normalizer pin) (published_policy pin) self)"
    using r(1) p by simp
  then obtain env where env: "normalize (pl_normalizer lib) (ps_normalizer pin) (ad_normalized_at ad) request = Ok env"
    using adm normalize_Err_deny by (fastforce simp: enforce_inner_def split: sum.splits)
  have "d = fst (enforce_normalized_inner lib mo (published_policy pin) env session self)"
    using inner env by (simp add: enforce_inner_def)
  then have "authorised lib mo self (published_policy pin) env session d" using inner_admitted adm by metis
  then show ?thesis using env ready r(2) by blast
qed

lemma enforce_not_passthrough:
  assumes "EnforcementPipeline_enforce lib ad mo request session self = ((d, audit), self')"
    and "runtime_snapshot self = Some pin"
  shows "d \<noteq> Passthrough x"
proof
  note d = enforce_decision [OF assms(2), of lib ad mo request session, unfolded assms(1) fst_conv]
  assume "d = Passthrough x"
  from reject_expired_pin_passthrough [OF d [symmetric, unfolded this]] show False
    by (cases "pinned_generation_admission ad (Some pin)")
      (auto simp: enforce_inner_not_passthrough dest: pinned_generation_admission_Err)
qed

text \<open>
  C4. The pipeline admits a request only when everything that must hold held. If enforcement under a
  pinned generation answers ALLOW or MODIFY, then the Authority's state was ready when the generation
  was pinned and when the action was evaluated, the generation was unexpired at the start, at policy
  evaluation and at the very end, its own mapping table classified the request, and the action is
  authorised by Stage 1, the token's scope and the generation's policy. It never answers PASSTHROUGH.
\<close>

theorem enforce_admits_sound:
  assumes "EnforcementPipeline_enforce lib ad mo request session self = ((d, audit), self')"
    and "runtime_snapshot self = Some pin"
  shows "(\<nexists>x. d = Passthrough x)
    \<and> (admitted d \<longrightarrow>
        fully_ready (ad_readiness ad)
      \<and> ad_fresh_at ad < ps_deadline pin \<and> mo_stage2_at mo < ps_deadline pin \<and> mo_final_at mo < ps_deadline pin
      \<and> (\<exists>env. normalize (pl_normalizer lib) (ps_normalizer pin) (ad_normalized_at ad) request = Ok env
             \<and> authorised lib mo self (published_policy pin) env session d))"
proof (intro conjI impI)
  show "\<nexists>x. d = Passthrough x" using enforce_not_passthrough [OF assms] by blast
  assume "admitted d"
  note a = enforce_authorised [OF assms this]
  then show "fully_ready (ad_readiness ad)" "ad_fresh_at ad < ps_deadline pin" "mo_final_at mo < ps_deadline pin"
    "\<exists>env. normalize (pl_normalizer lib) (ps_normalizer pin) (ad_normalized_at ad) request = Ok env
             \<and> authorised lib mo self (published_policy pin) env session d" by blast+
  obtain env where "authorised lib mo self (published_policy pin) env session d" using a by blast
  then show "mo_stage2_at mo < ps_deadline pin"
    unfolding authorised_def by (elim exE conjE) (simp add: published_policy_def)
qed

section \<open>Session accounting\<close>

text \<open>The calls one action makes on the session store.\<close>

definition account_calls :: "NormalizedEnvelope \<Rightarrow> CapabilityClaims \<Rightarrow> Outcome \<Rightarrow> bool \<Rightarrow> session_call list" where
  "account_calls env claims outcome proceeds =
     (let sid = claim_session_id claims; cls = intent_action_class (norm_intent env);
          res = policy_resource_display (norm_intent env)
      in [RecordAction sid, RecordOutcome sid cls res outcome]
         @ (if proceeds then [AdvanceProvenance sid (claim_context_hash claims) cls res] else []))"

definition store_step :: "('r, 's) pipeline_lib \<Rightarrow> session_call \<Rightarrow> 's \<Rightarrow> 's" where
  "store_step lib =
     session_step (st_record_action (pl_sessions lib)) (st_record_outcome (pl_sessions lib))
       (st_advance_provenance (pl_sessions lib))"

text \<open>Which outcome is recorded for which decision, and whether the chain is advanced.\<close>

fun accounted :: "EnforcementDecision \<Rightarrow> Outcome \<Rightarrow> bool \<Rightarrow> bool" where
  "accounted (Deny _ _ _ _ _) outcome proceeds = (outcome = OutDeny \<and> \<not> proceeds)"
| "accounted (StepUp _ _ _ _ _) outcome proceeds = (outcome = OutStepUp \<and> \<not> proceeds)"
| "accounted (Defer _ _ _ _) outcome proceeds = (outcome = OutDefer \<and> \<not> proceeds)"
| "accounted (Allow _ _ _) outcome proceeds = (outcome = OutAllow \<and> proceeds)"
| "accounted (Modify _ _ _ _) outcome proceeds = (outcome = OutModify \<and> proceeds)"
| "accounted (Abort _ _ _) outcome proceeds = ((outcome = OutAllow \<or> outcome = OutModify) \<and> proceeds)"
| "accounted (Passthrough _) outcome proceeds = False"

lemma finish_admitted_accounted:
  "accounted (finish_admitted f inject env vc sg prov m) (case m of None \<Rightarrow> OutAllow | Some _ \<Rightarrow> OutModify) True"
  by (rule finish_admitted_cases [where f = f and inject = inject and env = env and capability = vc and sg = sg
        and prov = prov and m = m]) (cases m, simp_all)+

lemma finish_verdict_accounted:
  assumes "finish_verdict_decision lib inject env vc sg verdict store = (d, store')"
  obtains proceeds where "accounted d (policy_outcome verdict) proceeds"
    "store' = fold (store_step lib) (if proceeds then [AdvanceProvenance (claim_session_id (vc_claims vc))
        (claim_context_hash (vc_claims vc)) (intent_action_class (norm_intent env))
        (policy_resource_display (norm_intent env))] else []) store"
proof (cases verdict)
  case VerdictAllow
  then show ?thesis
    using assms that [of True] finish_admitted_accounted [of _ _ _ _ _ _ None]
    by (auto simp: finish_verdict_decision_def policy_outcome_def store_step_def Let_def split_beta)
next
  case (VerdictModify m)
  then show ?thesis
    using assms that [of True] finish_admitted_accounted [of _ _ _ _ _ _ "Some m"]
    by (auto simp: finish_verdict_decision_def policy_outcome_def store_step_def Let_def split_beta)
qed (rule that [of False]; use assms in
  \<open>auto simp: finish_verdict_decision_def policy_outcome_def policy_denied_def Let_def\<close>)+

lemma inner_accounting:
  assumes "enforce_normalized_inner lib mo enforcer env session self = (d, self')"
  shows "(is_deny d \<and> session_state_store self' = session_state_store self
        \<and> (\<nexists>vc. fully_ready (mo_readiness mo) \<and> fst (stage1_of lib mo self env session) = Ok vc))
    \<or> (\<exists>vc outcome proceeds. fully_ready (mo_readiness mo) \<and> fst (stage1_of lib mo self env session) = Ok vc
        \<and> accounted d outcome proceeds
        \<and> session_state_store self' =
            fold (store_step lib) (account_calls env (vc_claims vc) outcome proceeds) (session_state_store self))"
proof (rule inner_cases [where mo = mo and lib = lib and self = self and env = env and session = session
      and enforcer = enforcer])
  fix e
  assume r: "check_readiness (mo_readiness mo) = Err e"
  then have "\<not> fully_ready (mo_readiness mo)" by (simp add: check_readiness_Ok [symmetric])
  then show ?thesis using assms check_readiness_Err [OF r] by (simp add: inner_not_ready [OF r])
next
  fix e v
  assume e: "fully_ready (mo_readiness mo)" "stage1_of lib mo self env session = (Err e, v)"
  show ?thesis using assms e enforce_Err_deny [OF e(2)] by (auto simp: inner_stage1_deny [OF e])
next
  fix vc v e
  assume e: "fully_ready (mo_readiness mo)" "stage1_of lib mo self env session = (Ok vc, v)"
    "stage2_of lib mo self enforcer env vc = Err e"
  have "accounted d OutDeny False"
    using assms run_stage2_Err [OF e(3)] by (cases e) (auto simp: inner_stage2_deny [OF e])
  moreover have "session_state_store self' = fold (store_step lib) (account_calls env (vc_claims vc) OutDeny False)
      (session_state_store self)"
    using assms by (auto simp: inner_stage2_deny [OF e] account_calls_def store_step_def counted_store_def Let_def)
  ultimately show ?thesis using e by auto
next
  fix vc v verdict
  assume e: "fully_ready (mo_readiness mo)" "stage1_of lib mo self env session = (Ok vc, v)"
    "stage2_of lib mo self enforcer env vc = Ok verdict"
  let ?sg = "seen_signals lib (session_state_store self) (claim_session_id (vc_claims vc))"
  have "finish_verdict_decision lib (mo_inject mo) env vc ?sg verdict
      (outcome_store lib self env vc (policy_outcome verdict)) = (d, session_state_store self')"
    using assms by (auto simp: inner_verdict [OF e] prod_eq_iff)
  then obtain proceeds where p: "accounted d (policy_outcome verdict) proceeds"
    "session_state_store self' = fold (store_step lib) (if proceeds then [AdvanceProvenance (claim_session_id (vc_claims vc))
        (claim_context_hash (vc_claims vc)) (intent_action_class (norm_intent env))
        (policy_resource_display (norm_intent env))] else []) (outcome_store lib self env vc (policy_outcome verdict))"
    by (rule finish_verdict_accounted)
  then have "session_state_store self' = fold (store_step lib) (account_calls env (vc_claims vc) (policy_outcome verdict) proceeds)
      (session_state_store self)"
    by (simp add: account_calls_def store_step_def counted_store_def Let_def)
  then show ?thesis using e p(1) by auto
qed

section \<open>Atomicity of composite requests\<close>

lemma list_position_None: "list_position p xs = None \<longleftrightarrow> (\<forall>x \<in> set xs. \<not> p x)"
  by (induction xs) auto

lemma list_position_Some:
  "list_position p xs = Some i \<Longrightarrow> i < length xs \<and> p (xs ! i) \<and> (\<forall>j < i. \<not> p (xs ! j))"
proof (induction xs arbitrary: i)
  case (Cons x xs)
  then show ?case
    by (cases "p x"; cases i) (auto simp: nth_Cons split: nat.split)
qed simp

lemma is_composio_blocker_iff: "is_composio_blocker d \<longleftrightarrow> \<not> is_allow d"
  by (cases d) (simp_all add: is_composio_blocker_def)

lemma rewrite_not_allow [simp]: "\<not> is_allow (child_decision (rewrite_as_atomic_abort detail child))"
  by (simp add: rewrite_as_atomic_abort_def)

lemma rewrite_is_abort [simp]: "is_abort (child_decision (rewrite_as_atomic_abort detail child))"
  by (simp add: rewrite_as_atomic_abort_def is_abort_def)

lemma abort_not_allow: "is_abort d \<Longrightarrow> \<not> is_allow d"
  by (cases d) (simp_all add: is_abort_def)

lemma allow_admitted: "is_allow d \<Longrightarrow> admitted d"
  by (cases d) simp_all

lemma operational_abort_none:
  "operational_abort_blocker cs b = (None, cs') \<longleftrightarrow> cs' = cs \<and> (\<forall>c \<in> set cs. \<not> is_abort (child_decision c))"
  by (auto simp: operational_abort_blocker_def list_position_None [symmetric] split: option.splits)

lemma operational_abort_some:
  assumes "operational_abort_blocker cs b = (Some i, cs')"
    and "b \<Longrightarrow> \<forall>c \<in> set cs. \<not> is_allow (child_decision c)"
  shows "i < length cs'" and "length cs' = length cs" and "\<forall>c \<in> set cs'. \<not> is_allow (child_decision c)"
proof -
  have p: "list_position (\<lambda>child. is_abort (child_decision child)) cs = Some i"
    using assms(1) by (auto simp: operational_abort_blocker_def split: option.splits)
  note i = list_position_Some [OF p]
  show len: "length cs' = length cs" using assms(1) p by (auto simp: operational_abort_blocker_def)
  then show "i < length cs'" using i by simp
  show "\<forall>c \<in> set cs'. \<not> is_allow (child_decision c)"
  proof (cases b)
    case True
    then show ?thesis using assms p by (simp add: operational_abort_blocker_def)
  next
    case False
    have "\<not> is_allow (child_decision (cs' ! j))" if "j < length cs" for j
      using assms(1) p False that i
      by (auto simp: operational_abort_blocker_def nth_enumerate_eq dest: abort_not_allow allow_admitted split: if_split_asm)
    then show ?thesis using len by (auto simp: in_set_conv_nth)
  qed
qed

lemma map_filter_allow:
  "\<forall>c \<in> set cs. is_allow (child_decision c) \<Longrightarrow>
     List.map_filter (\<lambda>c. map_option g (admitted_transport (child_decision c))) cs =
       map (\<lambda>c. g (the (admitted_transport (child_decision c)))) cs"
proof (induction cs)
  case (Cons c cs)
  then show ?case by (cases "child_decision c") (simp_all add: admitted_transport_def List.map_filter_simps)
qed (simp add: List.map_filter_simps)

lemma composite_dispatch:
  assumes "ce_disposition (composite_disposition cs) = Dispatch envelope credentials"
  shows "ce_children (composite_disposition cs) = cs" and "\<forall>c \<in> set cs. is_allow (child_decision c)"
    and "\<not> admitted_credentials_disagree cs" and "first_admitted_transport cs = Some (envelope, credentials)"
proof -
  let ?pb = "list_position (\<lambda>child. is_composio_blocker (child_decision child)) cs"
  have d: "\<not> (?pb = None \<and> admitted_credentials_disagree cs)"
    using assms by (auto simp: composite_disposition_def Let_def split: prod.splits option.splits)
  have pb: "?pb = None"
    using assms d by (auto simp: composite_disposition_def Let_def split: prod.splits option.splits)
  then show allow: "\<forall>c \<in> set cs. is_allow (child_decision c)"
    by (simp add: list_position_None is_composio_blocker_iff)
  show dis: "\<not> admitted_credentials_disagree cs" using d pb by simp
  have "\<forall>c \<in> set cs. \<not> is_abort (child_decision c)" using allow abort_not_allow by blast
  then have op: "operational_abort_blocker cs False = (None, cs)" by (simp add: operational_abort_none)
  show "first_admitted_transport cs = Some (envelope, credentials)"
    using assms pb dis op by (auto simp: composite_disposition_def Let_def split: option.splits)
  show "ce_children (composite_disposition cs) = cs"
    using assms pb dis op by (auto simp: composite_disposition_def Let_def split: option.splits)
qed

lemma composite_block:
  assumes "ce_disposition (composite_disposition cs) = Block i" and "cs \<noteq> []"
  shows "i < length (ce_children (composite_disposition cs))
    \<and> length (ce_children (composite_disposition cs)) = length cs
    \<and> (\<forall>c \<in> set (ce_children (composite_disposition cs)). \<not> is_allow (child_decision c))"
proof -
  let ?pb = "list_position (\<lambda>child. is_composio_blocker (child_decision child)) cs"
  let ?dis = "?pb = None \<and> admitted_credentials_disagree cs"
  let ?cs1 = "if ?dis then map (rewrite_as_atomic_abort ''admitted Composio actions produced different credentials'') cs else cs"
  obtain oi cs2 where op: "operational_abort_blocker ?cs1 ?dis = (oi, cs2)" by fastforce
  have r: "composite_disposition cs =
      (case oi of Some abort_index \<Rightarrow> \<lparr>ce_children = cs2, ce_disposition = Block abort_index\<rparr>
       | None \<Rightarrow> (case (if ?dis then Some 0 else ?pb) of
           Some j \<Rightarrow> \<lparr>ce_children = (if ?dis then cs2 else map (\<lambda>child. if is_allow (child_decision child)
                then rewrite_as_atomic_abort ''another Composio action in the atomic request was blocked'' child
                else child) cs2), ce_disposition = Block j\<rparr>
         | None \<Rightarrow> (case first_admitted_transport cs2 of
             None \<Rightarrow> \<lparr>ce_children = map (rewrite_as_atomic_abort ''Composio batch admitted no action to dispatch'') cs2,
                 ce_disposition = Block 0\<rparr>
           | Some (envelope, credentials) \<Rightarrow> \<lparr>ce_children = cs2, ce_disposition = Dispatch envelope credentials\<rparr>)))"
    unfolding composite_disposition_def Let_def op by (cases oi) simp_all
  show ?thesis
  proof (cases oi)
    case (Some j)
    have "?dis \<Longrightarrow> \<forall>c \<in> set ?cs1. \<not> is_allow (child_decision c)" by simp
    note a = operational_abort_some [OF op [unfolded Some] this]
    have "i = j" using assms(1) unfolding r Some by simp
    moreover have "length ?cs1 = length cs" by simp
    ultimately show ?thesis using a unfolding r Some by simp
  next
    case None
    note n = op [unfolded None operational_abort_none]
    have nd: "\<not> ?dis" using n assms(2) by (cases cs) auto
    then have cs2: "cs2 = cs" using n unfolding if_not_P [OF nd] by simp
    show ?thesis
    proof (cases ?pb)
      case (Some j)
      have "i = j" using assms(1) nd unfolding r None Some by simp
      then show ?thesis using list_position_Some [OF Some] nd unfolding r None Some cs2 by auto
    next
      case pbN: None
      then have "\<forall>c \<in> set cs. is_allow (child_decision c)" by (simp add: list_position_None is_composio_blocker_iff)
      then have "first_admitted_transport cs \<noteq> None"
        using map_filter_allow [of cs id] assms(2)
        by (cases cs) (simp_all add: first_admitted_transport_def option.map_id)
      then show ?thesis using assms(1) nd unfolding r None cs2 by (auto simp: pbN)
    qed
  qed
qed

lemma composite_children_length: "length (fst (composite_children child acts self)) = length acts"
  by (induction acts arbitrary: self) (simp_all add: split_beta)

lemma composite_children_from:
  "i < length acts \<Longrightarrow> \<exists>self_i. fst (composite_children child acts self) ! i = fst (child (acts ! i) self_i)"
proof (induction acts arbitrary: i self)
  case (Cons act acts)
  then show ?case by (cases i) (auto simp: split_beta)
qed simp

lemma managed_transport_admission_Ok:
  "managed_transport_admission lib ad request (Some pin) = Ok () \<longleftrightarrow>
     fully_ready (ad_readiness ad) \<and> ad_fresh_at ad < ps_deadline pin
   \<and> (\<exists>env. normalize lib (ps_normalizer pin) (ad_normalized_at ad) request = Ok env)"
  by (auto simp: managed_transport_admission_def and_then_Ok pinned_generation_admission_Ok)

lemma managed_transport_admission_Err: "managed_transport_admission lib ad request snapshot = Err d \<Longrightarrow> is_deny d"
  by (auto simp: managed_transport_admission_def and_then_Err
      dest: pinned_generation_admission_Err normalize_Err_deny split: option.splits)

lemma composite_child_allow:
  assumes "is_allow (child_decision (fst (composite_child lib adm elapsed (Some pin) enforcer request session act self)))"
    and "\<And>d. adm = Err d \<Longrightarrow> is_deny d"
  shows "adm = Ok ()" and "mo_final_at (snd act) < ps_deadline pin"
    and "authorised lib (snd act) self enforcer (fst act) session
      (child_decision (fst (composite_child lib adm elapsed (Some pin) enforcer request session act self)))"
proof -
  let ?d1 = "case adm of Inr _ \<Rightarrow> fst (enforce_normalized_inner lib (snd act) enforcer (fst act) session self) | Inl d \<Rightarrow> d"
  have c: "child_decision (fst (composite_child lib adm elapsed (Some pin) enforcer request session act self)) =
      reject_expired_pin ?d1 (Some pin) (mo_final_at (snd act))"
    by (auto simp: composite_child_def Let_def split_beta split: sum.split)
  note r = reject_expired_pin_admitted [OF allow_admitted [OF assms(1) [unfolded c]]]
  show "mo_final_at (snd act) < ps_deadline pin" using r(2) by simp
  have allow: "is_allow ?d1" using assms(1) r(1) unfolding c by simp
  then show adm: "adm = Ok ()" using assms(2) by (cases adm) (auto dest: allow_admitted)
  then show "authorised lib (snd act) self enforcer (fst act) session
      (child_decision (fst (composite_child lib adm elapsed (Some pin) enforcer request session act self)))"
    using inner_admitted [OF allow_admitted] allow r(1) unfolding c by simp
qed

lemma agree_headers:
  assumes "\<not> admitted_credentials_disagree cs" and "\<forall>c \<in> set cs. is_allow (child_decision c)"
    and "first_admitted_transport cs = Some (envelope, credentials)" and "c \<in> set cs"
  shows "\<exists>claims e k. child_decision c = Allow claims e k \<and> cred_headers k = cred_headers credentials"
    and "\<exists>claims. child_decision (hd cs) = Allow claims envelope credentials"
proof -
  obtain c0 rest where cs: "cs = c0 # rest" using assms(4) by (cases cs) auto
  obtain claims0 e0 k0 where c0: "child_decision c0 = Allow claims0 e0 k0"
    using assms(2) cs by (cases "child_decision c0") auto
  have t: "List.map_filter (\<lambda>c. admitted_transport (child_decision c)) cs =
      map (\<lambda>c. the (admitted_transport (child_decision c))) cs"
    using map_filter_allow [OF assms(2), of id] by (simp add: option.map_id)
  then have first: "envelope = e0" "credentials = k0"
    using assms(3) c0 unfolding cs by (simp_all add: first_admitted_transport_def admitted_transport_def)
  then show "\<exists>claims. child_decision (hd cs) = Allow claims envelope credentials" using c0 cs by simp
  obtain claims e k where c: "child_decision c = Allow claims e k"
    using assms(2,4) by (cases "child_decision c") auto
  have "cred_headers k = cred_headers k0"
    using assms(1,4) c c0 map_filter_allow [OF assms(2), of "\<lambda>t. cred_headers (snd t)"] unfolding cs
    by (auto simp: admitted_credentials_disagree_def admitted_transport_def list_ex_iff)
  then show "\<exists>claims e k. child_decision c = Allow claims e k \<and> cred_headers k = cred_headers credentials"
    using c first by blast
qed

lemma dispatched_child:
  fixes lib adm elapsed pin request session actions self
  defines "child \<equiv> composite_child lib adm elapsed (Some pin) (published_policy pin) request session"
  defines "cs \<equiv> fst (composite_children child actions self)"
  assumes "ce_disposition (composite_disposition cs) = Dispatch envelope credentials"
    and "i < length actions" and deny: "\<And>e. adm = Err e \<Longrightarrow> is_deny e"
  shows "\<exists>self_i claims e k. child_decision (cs ! i) = Allow claims e k \<and> cred_headers k = cred_headers credentials
        \<and> mo_final_at (snd (actions ! i)) < ps_deadline pin \<and> adm = Ok ()
        \<and> authorised lib (snd (actions ! i)) self_i (published_policy pin) (fst (actions ! i)) session
              (child_decision (cs ! i))"
proof -
  note d = composite_dispatch [OF assms(3)]
  obtain self_i where i: "cs ! i = fst (child (actions ! i) self_i)"
    using composite_children_from [OF \<open>i < length actions\<close>] unfolding cs_def by metis
  have mem: "cs ! i \<in> set cs" using assms(4) composite_children_length [of child actions self] by (simp add: cs_def)
  then have "is_allow (child_decision (fst (child (actions ! i) self_i)))" using d(2) i by metis
  note a = composite_child_allow [OF this [unfolded child_def]]
  then show ?thesis using deny agree_headers(1) [OF d(3,2,4) mem] unfolding i child_def by blast
qed

text \<open>
  C6. A composite request is all or nothing. Its transport is dispatched only when there is at least
  one action, every action was allowed, each authorised on its own by readiness, Stage 1, scope and
  the pinned policy, and all of them produced the same credential headers, which are the ones sent;
  otherwise the request is blocked, the blocking index names a child and no child is left allowed.
\<close>

theorem composite_atomic:
  assumes "enforce_composite lib ad elapsed request session actions self = (ce, self')"
    and "runtime_snapshot self = Some pin"
  shows "case ce_disposition ce of
      Dispatch envelope credentials \<Rightarrow>
        actions \<noteq> [] \<and> length (ce_children ce) = length actions
      \<and> fully_ready (ad_readiness ad) \<and> ad_fresh_at ad < ps_deadline pin
      \<and> (\<exists>env. normalize (pl_normalizer lib) (ps_normalizer pin) (ad_normalized_at ad) request = Ok env)
      \<and> (\<exists>claims. child_decision (hd (ce_children ce)) = Allow claims envelope credentials)
      \<and> (\<forall>i < length actions. \<exists>self_i claims e k.
            child_decision (ce_children ce ! i) = Allow claims e k \<and> cred_headers k = cred_headers credentials
          \<and> mo_final_at (snd (actions ! i)) < ps_deadline pin
          \<and> authorised lib (snd (actions ! i)) self_i (published_policy pin) (fst (actions ! i)) session
              (child_decision (ce_children ce ! i)))
    | Block i \<Rightarrow>
        i < length (ce_children ce) \<and> length (ce_children ce) = max 1 (length actions)
      \<and> (\<forall>c \<in> set (ce_children ce). \<not> is_allow (child_decision c))"
proof (cases "actions = []")
  case True
  then show ?thesis
    using assms by (auto simp: enforce_composite_def pinned_def empty_composite_fail_closed_def Let_def)
next
  case False
  let ?adm = "managed_transport_admission (pl_normalizer lib) ad request (Some pin)"
  let ?child = "composite_child lib ?adm elapsed (Some pin) (published_policy pin) request session"
  let ?cs = "fst (composite_children ?child actions self)"
  have ce: "ce = composite_disposition ?cs"
    using assms False by (auto simp: enforce_composite_def pinned_def Let_def split_beta)
  have len: "length ?cs = length actions" by (rule composite_children_length)
  then have ne: "?cs \<noteq> []" using False by auto
  show ?thesis
  proof (cases "ce_disposition ce")
    case (Block i)
    then show ?thesis using composite_block [OF _ ne, of i] len False unfolding ce by (cases actions) auto
  next
    case (Dispatch envelope credentials)
    note d = composite_dispatch [OF Dispatch [unfolded ce]]
    have deny: "is_deny e" if "?adm = Err e" for e using that by (rule managed_transport_admission_Err)
    note child = dispatched_child [OF Dispatch [unfolded ce] _ deny]
    have adm: "?adm = Ok ()" using child [of 0] False by auto
    note ready = adm [unfolded managed_transport_admission_Ok]
    have kids: "ce_children ce = ?cs" unfolding ce by (rule d(1))
    show ?thesis
      unfolding Dispatch kids CompositeDisposition.case
    proof (intro conjI allI impI)
      show "\<exists>claims. child_decision (hd ?cs) = Allow claims envelope credentials"
        using agree_headers(2) [OF d(3,2,4), of "hd ?cs"] ne by simp
    next
      fix i assume "i < length actions"
      from child [OF this] show "\<exists>self_i claims e k.
            child_decision (?cs ! i) = Allow claims e k \<and> cred_headers k = cred_headers credentials
          \<and> mo_final_at (snd (actions ! i)) < ps_deadline pin
          \<and> authorised lib (snd (actions ! i)) self_i (published_policy pin) (fst (actions ! i)) session
              (child_decision (?cs ! i))" by blast
    qed (use False len ready in simp_all)
  qed
qed

section \<open>A concrete pipeline\<close>

definition memory_sessions ::
  "(string \<Rightarrow> string) \<Rightarrow> ('c, SessionRecord) lru_lib \<Rightarrow> 'c LruSessionStateStore SessionStateStore" where
  "memory_sessions sha256_hex lru =
     \<lparr>st_record_action = record_action lru, st_signals = signals lru, st_record_outcome = record_outcome lru,
      st_advance_provenance = advance_provenance sha256_hex lru\<rparr>"

definition sample_pipeline_lib :: "(unit, SessionRecord assoc_cache LruSessionStateStore) pipeline_lib" where
  "sample_pipeline_lib =
     \<lparr>pl_normalizer = sample_lib, pl_enforcer = sample_enforcer_lib,
      pl_verify = PasetoV4Verifier_verify sample_paseto_lib sample_verifier, pl_check = (\<lambda>r t. (Ok False, r)),
      pl_sessions = memory_sessions id assoc_lru, pl_sha256_hex = id\<rparr>"

definition sample_policy :: "PolicyVerdict \<Rightarrow> PolicyEvaluation" where
  "sample_policy verdict =
     \<lparr>policy_evaluate_verdict = (\<lambda>agent action resource context. Ok verdict), policy_is_fresh = (\<lambda>now. True),
      policy_is_available = True, policy_version = Some ''v1''\<rparr>"

definition sample_pin :: "PolicyVerdict \<Rightarrow> PublishedSnapshot" where
  "sample_pin verdict =
     into_published 0 (RuntimeSnapshot_new (IntentNormalizer_new sample_table) (sample_policy verdict) 60 (Some ''v1''))"

definition sample_pipeline ::
  "PolicyVerdict \<Rightarrow> (unit, SessionRecord assoc_cache LruSessionStateStore) EnforcementPipeline" where
  "sample_pipeline verdict =
     \<lparr>capability_validator = CapabilityValidator_new (CapabilityMap_new [sample_entry]) (),
      constraint_enforcer = deny_all_policy, pipe_normalizer = IntentNormalizer_new empty_protected,
      stage2_timeout = Some 5000000, session_state_store = LruSessionStateStore_new assoc_lru 4,
      runtime_snapshot = Some (sample_pin verdict)\<rparr>"

definition sample_admission :: admission where
  "sample_admission = \<lparr>ad_readiness = all_ready, ad_fresh_at = 10, ad_normalized_at = 20\<rparr>"

definition sample_moment :: moment where
  "sample_moment =
     \<lparr>mo_readiness = all_ready, mo_verified_at = 50, mo_expiry_at = 60, mo_stage2_at = 70, mo_task = TaskReturns,
      mo_inject = NullCredentialInjector, mo_final_at = 80, mo_elapsed = 70\<rparr>"

lemma sample_admitted:
  "is_allow (fst (fst (EnforcementPipeline_enforce sample_pipeline_lib sample_admission sample_moment sample_request ''ses_1''
     (sample_pipeline VerdictAllow))))"
  by code_simp

theorem enforce_admits_sound_witness:
  "\<exists>d env. fst (fst (EnforcementPipeline_enforce sample_pipeline_lib sample_admission sample_moment sample_request ''ses_1''
       (sample_pipeline VerdictAllow))) = d
   \<and> normalize sample_lib (IntentNormalizer_new sample_table) 20 sample_request = Ok env
   \<and> authorised sample_pipeline_lib sample_moment (sample_pipeline VerdictAllow)
       (published_policy (sample_pin VerdictAllow)) env ''ses_1'' d"
proof -
  obtain d audit self' where e: "EnforcementPipeline_enforce sample_pipeline_lib sample_admission sample_moment
      sample_request ''ses_1'' (sample_pipeline VerdictAllow) = ((d, audit), self')" by (metis prod.exhaust)
  then have "admitted d" using sample_admitted allow_admitted by fastforce
  moreover have "runtime_snapshot (sample_pipeline VerdictAllow) = Some (sample_pin VerdictAllow)"
    "pl_normalizer sample_pipeline_lib = sample_lib" "ad_normalized_at sample_admission = 20"
    "ps_normalizer (sample_pin VerdictAllow) = IntentNormalizer_new sample_table"
    by (simp_all add: sample_pipeline_def sample_pipeline_lib_def sample_admission_def sample_pin_def into_published_def
        RuntimeSnapshot_new_def)
  ultimately show ?thesis using enforce_admits_sound [OF e] e by simp
qed

lemma single_dispatch:
  "is_allow (child_decision c) \<Longrightarrow> \<exists>e k. ce_disposition (composite_disposition [c]) = Dispatch e k"
  by (cases "child_decision c")
    (auto simp: composite_disposition_def is_composio_blocker_def admitted_credentials_disagree_def List.map_filter_simps
      admitted_transport_def operational_abort_blocker_def is_abort_def first_admitted_transport_def Let_def)

theorem composite_atomic_witness:
  "\<exists>e k c. ce_disposition (fst (enforce_composite sample_pipeline_lib sample_admission 0 sample_request ''ses_1''
       [(sample_envelope, sample_moment)] (sample_pipeline VerdictAllow))) = Dispatch e k
   \<and> ce_children (fst (enforce_composite sample_pipeline_lib sample_admission 0 sample_request ''ses_1''
       [(sample_envelope, sample_moment)] (sample_pipeline VerdictAllow))) = [c]
   \<and> (\<exists>claims. child_decision c = Allow claims e k)"
proof -
  let ?adm = "managed_transport_admission sample_lib sample_admission sample_request (Some (sample_pin VerdictAllow))"
  let ?c = "fst (composite_child sample_pipeline_lib ?adm 0 (Some (sample_pin VerdictAllow))
      (published_policy (sample_pin VerdictAllow)) sample_request ''ses_1'' (sample_envelope, sample_moment)
      (sample_pipeline VerdictAllow))"
  have pin: "runtime_snapshot (sample_pipeline VerdictAllow) = Some (sample_pin VerdictAllow)"
    "pl_normalizer sample_pipeline_lib = sample_lib" by (simp_all add: sample_pipeline_def sample_pipeline_lib_def)
  obtain ce self' where e: "enforce_composite sample_pipeline_lib sample_admission 0 sample_request ''ses_1''
      [(sample_envelope, sample_moment)] (sample_pipeline VerdictAllow) = (ce, self')" by fastforce
  then have ce: "ce = composite_disposition [?c]"
    by (auto simp: enforce_composite_def pinned_def pin Let_def split_beta)
  have "is_allow (child_decision ?c)" by code_simp
  then obtain env k where d: "ce_disposition ce = Dispatch env k" using single_dispatch ce by metis
  have kids: "ce_children ce = [?c]" using composite_dispatch(1) [OF d [unfolded ce]] ce by simp
  show ?thesis using composite_atomic [OF e pin(1)] unfolding d kids e fst_conv by (auto simp: d kids)
qed

section \<open>The audit record\<close>

primrec decision_code :: "EnforcementDecision \<Rightarrow> Decision" where
  "decision_code (Allow _ _ _) = DecAllow"
| "decision_code (Deny _ _ _ _ _) = DecDeny"
| "decision_code (Abort _ _ _) = DecAbort"
| "decision_code (Passthrough _) = DecAllow"
| "decision_code (Modify _ _ _ _) = DecModify"
| "decision_code (StepUp _ _ _ _ _) = DecStepUp"
| "decision_code (Defer _ _ _ _) = DecDefer"

lemma audit_payload_code [simp]: "au_decision (audit_payload_from_decision lib d request session n v) = decision_code d"
  by (cases d) (simp_all add: audit_payload_from_decision_def audit_decision_fields_def admitted_fields_def
      undispatched_fields_def Let_def split_beta)

lemma redact_managed_audit_fields [simp]:
  "au_decision (redact_managed_audit lib s a) = au_decision a"
  "au_token_id (redact_managed_audit lib s a) = au_token_id a"
  "au_agent_id (redact_managed_audit lib s a) = au_agent_id a"
  "au_session_id (redact_managed_audit lib s a) = au_session_id a"
  "au_bundle_version (redact_managed_audit lib s a) = au_bundle_version a"
  "au_provenance (redact_managed_audit lib s a) = au_provenance a"
  "au_context_hash (redact_managed_audit lib s a) = au_context_hash a"
  "au_resource (redact_managed_audit lib (Some pin) a) = redact_query lib (ps_normalizer pin) (au_resource a)"
  "au_deny_reason (redact_managed_audit lib (Some pin) a) = redact_query lib (ps_normalizer pin) (au_deny_reason a)"
  by (simp_all add: redact_managed_audit_def split: option.split)

lemma enforce_audit:
  assumes "EnforcementPipeline_enforce lib ad mo request session self = ((d, audit), self')"
    and "runtime_snapshot self = Some pin"
  shows "audit = redact_managed_audit (pl_normalizer lib) (Some pin)
    (audit_payload_from_decision (pl_normalizer lib) d request session (mo_elapsed mo) (ps_version pin))"
  using assms
  by (auto simp: EnforcementPipeline_enforce_def pinned_def published_policy_def Let_def split_beta)



text \<open>
  Catalog discovery is the only passthrough, and it too needs the pinned generation. If the
  Composio passthrough answers PASSTHROUGH under a pin, the Authority's state was ready, the
  generation was unexpired at admission and at the final test, and its mapping table classified the
  request; the record then shows an allowed request without a token. Every other answer is a denial.
\<close>

theorem passthrough_admitted:
  assumes "composio_passthrough lib ad fresh_at final_at request session self = (d, audit)"
    and "runtime_snapshot self = Some pin" and "fresh_at \<le> final_at"
  shows "if is_deny d then au_decision audit = DecDeny
    else d = Passthrough ''recognized Composio non-execution request''
       \<and> fully_ready (ad_readiness ad) \<and> ad_fresh_at ad < ps_deadline pin \<and> fresh_at < ps_deadline pin
       \<and> (\<exists>env. normalize lib (ps_normalizer pin) (ad_normalized_at ad) request = Ok env)
       \<and> au_decision audit = DecAllow \<and> au_token_id audit = []"
proof (cases "managed_transport_admission lib ad request (Some pin)")
  case (Inl e)
  have "is_deny e" using Inl by (rule managed_transport_admission_Err)
  moreover from this have "reject_expired_pin e (Some pin) final_at = e" by (cases e) (simp_all add: reject_expired_pin_def)
  ultimately show ?thesis
    using assms Inl by (cases e) (auto simp: composio_passthrough_def Let_def split: if_split_asm)
next
  case (Inr u)
  then have ok: "managed_transport_admission lib ad request (Some pin) = Ok ()" by simp
  note ready = ok [unfolded managed_transport_admission_Ok]
  show ?thesis
  proof (cases "fresh_at < ps_deadline pin")
    case True
    then have "d = Passthrough ''recognized Composio non-execution request''"
      using assms ok by (auto simp: composio_passthrough_def Let_def snapshot_fresh_iff)
    moreover have "audit = redact_managed_audit lib (Some pin) (audit_payload_from_decision lib d request session 0 (ps_version pin))"
      using assms ok True by (auto simp: composio_passthrough_def Let_def snapshot_fresh_iff published_policy_def)
    ultimately show ?thesis
      using ready True
      by (simp add: audit_payload_from_decision_def audit_decision_fields_def undispatched_fields_def Let_def split_beta)
  next
    case False
    then have "\<not> snapshot_fresh pin fresh_at" "\<not> snapshot_fresh pin final_at" using assms(3) by (auto simp: snapshot_fresh_iff)
    then show ?thesis
      using assms ok by (auto simp: composio_passthrough_def reject_expired_pin_def stale_bundle_deny_def Let_def)
  qed
qed

theorem passthrough_admitted_witness:
  "fst (composio_passthrough sample_lib sample_admission 30 40 sample_request ''ses_1'' (sample_pipeline VerdictDeny)) =
     Passthrough ''recognized Composio non-execution request''"
proof -
  obtain d audit where e: "composio_passthrough sample_lib sample_admission 30 40 sample_request ''ses_1''
      (sample_pipeline VerdictDeny) = (d, audit)" by fastforce
  have "\<not> is_deny (fst (composio_passthrough sample_lib sample_admission 30 40 sample_request ''ses_1''
      (sample_pipeline VerdictDeny)))" by code_simp
  then show ?thesis
    using passthrough_admitted [OF e] e by (simp add: sample_pipeline_def)
qed

text \<open>
  A batch blocked by policy keeps its MODIFY children: they are neither dispatched nor rewritten, so
  their records still say MODIFY.
\<close>

lemma modify_sibling_kept:
  assumes "child_decision m = Modify claims e spec k" and "is_deny (child_decision c)"
  shows "composite_disposition [c, m] = \<lparr>ce_children = [c, m], ce_disposition = Block 0\<rparr>"
  using assms
  by (cases "child_decision c")
    (simp_all add: composite_disposition_def is_composio_blocker_def operational_abort_blocker_def is_abort_def Let_def)

section \<open>What a run of actions leaves in the session store\<close>

fun run_actions ::
  "('r, 's) pipeline_lib \<Rightarrow> PolicyEvaluation \<Rightarrow> (NormalizedEnvelope \<times> string \<times> moment) list
    \<Rightarrow> ('r, 's) EnforcementPipeline \<Rightarrow> EnforcementDecision list \<times> ('r, 's) EnforcementPipeline" where
  "run_actions lib enforcer [] self = ([], self)"
| "run_actions lib enforcer ((env, session, mo) # acts) self =
     (case enforce_normalized_inner lib mo enforcer env session self of (d, self1) \<Rightarrow>
      case run_actions lib enforcer acts self1 of (ds, self2) \<Rightarrow> (d # ds, self2))"

text \<open>The calls a decision stands for: none for a denial before Stage 2, otherwise count, outcome, chain.\<close>

definition calls_for :: "NormalizedEnvelope \<Rightarrow> EnforcementDecision \<Rightarrow> session_call list \<Rightarrow> bool" where
  "calls_for env d calls \<longleftrightarrow>
     is_deny d \<and> calls = []
   \<or> (\<exists>claims outcome proceeds. accounted d outcome proceeds \<and> calls = account_calls env claims outcome proceeds)"

lemma inner_calls:
  assumes "enforce_normalized_inner lib mo enforcer env session self = (d, self')"
  shows "\<exists>calls. calls_for env d calls \<and> session_state_store self' = fold (store_step lib) calls (session_state_store self)"
  using inner_accounting [OF assms]
proof (elim disjE exE conjE)
  assume "is_deny d" "session_state_store self' = session_state_store self"
  then show ?thesis by (intro exI [of _ "[]"]) (simp add: calls_for_def)
next
  fix vc outcome proceeds
  assume "accounted d outcome proceeds"
    "session_state_store self' = fold (store_step lib) (account_calls env (vc_claims vc) outcome proceeds) (session_state_store self)"
  then show ?thesis
    by (intro exI [of _ "account_calls env (vc_claims vc) outcome proceeds"]) (auto simp: calls_for_def)
qed

lemma run_calls:
  "run_actions lib enforcer acts self = (ds, self') \<Longrightarrow>
     \<exists>callss. list_all2 (\<lambda>(act, d) calls. calls_for (fst act) d calls) (zip acts ds) callss
       \<and> length ds = length acts
       \<and> session_state_store self' = fold (store_step lib) (concat callss) (session_state_store self)"
proof (induction acts arbitrary: self ds self')
  case (Cons act acts)
  obtain env session mo where act: "act = (env, session, mo)" by (cases act)
  obtain d self1 where i: "enforce_normalized_inner lib mo enforcer env session self = (d, self1)" by fastforce
  obtain ds2 self2 where r: "run_actions lib enforcer acts self1 = (ds2, self2)" by fastforce
  have ds: "ds = d # ds2" "self' = self2" using Cons.prems unfolding act by (simp_all add: i r)
  obtain calls where c: "calls_for env d calls"
      "session_state_store self1 = fold (store_step lib) calls (session_state_store self)"
    using inner_calls [OF i] by blast
  obtain callss where cs: "list_all2 (\<lambda>(act, d) calls. calls_for (fst act) d calls) (zip acts ds2) callss"
      "length ds2 = length acts" "session_state_store self2 = fold (store_step lib) (concat callss) (session_state_store self1)"
    using Cons.IH [OF r] by blast
  show ?case
    by (rule exI [of _ "calls # callss"]) (simp add: ds act c cs)
qed simp

text \<open>A decision's calls all name one session.\<close>

lemma calls_for_session: "calls_for env d calls \<Longrightarrow> card (call_session ` set calls) \<le> 1"
  unfolding calls_for_def
proof (elim disjE exE conjE)
  fix claims outcome proceeds
  assume "calls = account_calls env claims outcome proceeds"
  then show ?thesis by (cases proceeds) (simp_all add: account_calls_def Let_def)
qed simp

lemma concat_sessions:
  "\<forall>calls \<in> set callss. card (call_session ` set calls) \<le> 1 \<Longrightarrow>
     card (call_session ` set (concat callss)) \<le> length callss"
proof (induction callss)
  case (Cons calls callss)
  have "card (call_session ` set (concat (calls # callss))) \<le>
      card (call_session ` set calls) + card (call_session ` set (concat callss))"
    by (simp add: image_Un card_Un_le)
  then show ?case using Cons by fastforce
qed simp



text \<open>
  The chain also grows for an action that is then aborted: the next admitted action names a parent no
  audit record carries.
\<close>

lemma abort_advances_chain:
  assumes "accounted (Abort reason detail identity) outcome proceeds"
  shows "AdvanceProvenance (claim_session_id claims) (claim_context_hash claims) (intent_action_class (norm_intent env))
    (policy_resource_display (norm_intent env)) \<in> set (account_calls env claims outcome proceeds)"
  using assms by (simp add: account_calls_def Let_def)

end
