(* ===== verification/Token_Store.thy ===== *)
theory Token_Store
  imports Envelope
begin

text \<open>
  The approval tokens of human-in-the-loop local execution
  (\<^verbatim>\<open>firma-sidecar/src/local_exec/token_store.rs\<close>). Each operation holds the mutex for its whole body and a
  poisoned mutex is recovered, so an operation is one atomic function of the store and of the clock
  reading \<open>now\<close>. Runs are an inductive relation between the log of calls with their answers and the
  store; \<open>ApprovalTokenId::generate\<close> is the \<open>token_id\<close> of an issue call, and what the code relies on is
  that it does not repeat.
\<close>

datatype TokenState = StPending | StApproved | StConsumed | StExpired | StRevoked

record HitlToken =
  hitl_fingerprint :: string
  hitl_session_id :: string
  hitl_sandbox_id :: string
  hitl_agent_id :: "string option"
  hitl_expires_at :: datetime
  hitl_state :: TokenState

datatype TokenValidationResult =
    ValValid | ValUnknown | ValPending | ValExpired | ValAlreadyConsumed | ValRevoked | ValFingerprintMismatch
  | ValContextMismatch

datatype ApproveResult = ApproveOk | ApproveNotFound | ApproveAlreadyConsumed | ApproveAlreadyRevoked | ApproveExpired

datatype RevokeResult = RevokeOk | RevokeNotFound | RevokeAlreadyConsumed | RevokeExpired

record InMemoryTokenStore =
  hitl_tokens :: "string \<rightharpoonup> HitlToken"
  hitl_ttl :: nat
  hitl_expiry_grace :: nat

definition InMemoryTokenStore_new :: "nat \<Rightarrow> InMemoryTokenStore" where
  "InMemoryTokenStore_new ttl = \<lparr>hitl_tokens = Map.empty, hitl_ttl = ttl, hitl_expiry_grace = 300000000000\<rparr>"

definition hitl_issue ::
  "datetime \<Rightarrow> string \<Rightarrow> string \<Rightarrow> string \<Rightarrow> string \<Rightarrow> string option \<Rightarrow> InMemoryTokenStore \<Rightarrow> string \<times> InMemoryTokenStore" where
  "hitl_issue now token_id fingerprint session_id sandbox_id agent_id self =
     (token_id,
      self\<lparr>hitl_tokens := (hitl_tokens self)(token_id \<mapsto>
        \<lparr>hitl_fingerprint = fingerprint, hitl_session_id = session_id, hitl_sandbox_id = sandbox_id,
         hitl_agent_id = agent_id, hitl_expires_at = now + int (hitl_ttl self), hitl_state = StPending\<rparr>)\<rparr>)"

text \<open>Setting the state of a token in place.\<close>

definition set_token_state :: "string \<Rightarrow> TokenState \<Rightarrow> InMemoryTokenStore \<Rightarrow> InMemoryTokenStore" where
  "set_token_state token_id state self =
     self\<lparr>hitl_tokens := (hitl_tokens self)(token_id :=
       map_option (\<lambda>t. t\<lparr>hitl_state := state\<rparr>) (hitl_tokens self token_id))\<rparr>"

definition validate_and_consume ::
  "datetime \<Rightarrow> string \<Rightarrow> string \<Rightarrow> string \<Rightarrow> string \<Rightarrow> string option \<Rightarrow> InMemoryTokenStore
    \<Rightarrow> TokenValidationResult \<times> InMemoryTokenStore" where
  "validate_and_consume now token_id fingerprint session_id sandbox_id agent_id self =
     (case hitl_tokens self token_id of
        None \<Rightarrow> (ValUnknown, self)
      | Some token \<Rightarrow>
          (case hitl_state token of
             StConsumed \<Rightarrow> (ValAlreadyConsumed, self)
           | StRevoked \<Rightarrow> (ValRevoked, self)
           | StExpired \<Rightarrow> (ValExpired, self)
           | _ \<Rightarrow>
               if hitl_expires_at token \<le> now then (ValExpired, set_token_state token_id StExpired self)
               else if hitl_fingerprint token \<noteq> fingerprint then (ValFingerprintMismatch, self)
               else if hitl_session_id token \<noteq> session_id \<or> hitl_sandbox_id token \<noteq> sandbox_id
               then (ValContextMismatch, self)
               else if hitl_agent_id token \<noteq> None \<and> agent_id \<noteq> hitl_agent_id token then (ValContextMismatch, self)
               else if hitl_state token = StPending then (ValPending, self)
               else (ValValid, set_token_state token_id StConsumed self)))"

definition hitl_approve :: "datetime \<Rightarrow> string \<Rightarrow> InMemoryTokenStore \<Rightarrow> ApproveResult \<times> InMemoryTokenStore" where
  "hitl_approve now token_id self =
     (case hitl_tokens self token_id of
        None \<Rightarrow> (ApproveNotFound, self)
      | Some token \<Rightarrow>
          (case hitl_state token of
             StPending \<Rightarrow>
               if hitl_expires_at token \<le> now then (ApproveExpired, set_token_state token_id StExpired self)
               else (ApproveOk, set_token_state token_id StApproved self)
           | StApproved \<Rightarrow> (ApproveOk, self)
           | StConsumed \<Rightarrow> (ApproveAlreadyConsumed, self)
           | StRevoked \<Rightarrow> (ApproveAlreadyRevoked, self)
           | StExpired \<Rightarrow> (ApproveExpired, self)))"

definition hitl_revoke :: "datetime \<Rightarrow> string \<Rightarrow> InMemoryTokenStore \<Rightarrow> RevokeResult \<times> InMemoryTokenStore" where
  "hitl_revoke now token_id self =
     (case hitl_tokens self token_id of
        None \<Rightarrow> (RevokeNotFound, self)
      | Some token \<Rightarrow>
          (case hitl_state token of
             StRevoked \<Rightarrow> (RevokeOk, self)
           | StConsumed \<Rightarrow> (RevokeAlreadyConsumed, self)
           | StExpired \<Rightarrow> (RevokeExpired, self)
           | _ \<Rightarrow>
               if hitl_expires_at token \<le> now then (RevokeExpired, set_token_state token_id StExpired self)
               else (RevokeOk, set_token_state token_id StRevoked self)))"

definition hitl_prune_expired :: "datetime \<Rightarrow> InMemoryTokenStore \<Rightarrow> InMemoryTokenStore" where
  "hitl_prune_expired now self =
     self\<lparr>hitl_tokens := (\<lambda>k. case hitl_tokens self k of
        None \<Rightarrow> None
      | Some token \<Rightarrow>
          if max 0 (now - hitl_expires_at token) < int (hitl_expiry_grace self) then Some token else None)\<rparr>"

section \<open>Runs\<close>

datatype token_call =
    CallIssue string string string string "string option" datetime
  | CallValidate string string string string "string option" datetime
  | CallApprove string datetime
  | CallRevoke string datetime
  | CallPrune datetime

datatype token_answer =
    Issued string | Validated TokenValidationResult | Approved ApproveResult | Revoked RevokeResult | Pruned

primrec token_exec :: "token_call \<Rightarrow> InMemoryTokenStore \<Rightarrow> token_answer \<times> InMemoryTokenStore" where
  "token_exec (CallIssue i f s b a now) self =
     (case hitl_issue now i f s b a self of (r, self') \<Rightarrow> (Issued r, self'))"
| "token_exec (CallValidate i f s b a now) self =
     (case validate_and_consume now i f s b a self of (r, self') \<Rightarrow> (Validated r, self'))"
| "token_exec (CallApprove i now) self = (case hitl_approve now i self of (r, self') \<Rightarrow> (Approved r, self'))"
| "token_exec (CallRevoke i now) self = (case hitl_revoke now i self of (r, self') \<Rightarrow> (Revoked r, self'))"
| "token_exec (CallPrune now) self = (Pruned, hitl_prune_expired now self)"

primrec issues :: "token_call \<Rightarrow> string option" where
  "issues (CallIssue i _ _ _ _ _) = Some i"
| "issues (CallValidate _ _ _ _ _ _) = None"
| "issues (CallApprove _ _) = None"
| "issues (CallRevoke _ _) = None"
| "issues (CallPrune _) = None"

definition issued_ids :: "(token_call \<times> token_answer) list \<Rightarrow> string set" where
  "issued_ids hist = (\<Union>e \<in> set hist. set_option (issues (fst e)))"

inductive token_run :: "nat \<Rightarrow> (token_call \<times> token_answer) list \<Rightarrow> InMemoryTokenStore \<Rightarrow> bool" for ttl where
  start: "token_run ttl [] (InMemoryTokenStore_new ttl)"
| call: "token_run ttl hist self \<Longrightarrow> (\<And>i. issues c = Some i \<Longrightarrow> i \<notin> issued_ids hist) \<Longrightarrow>
     token_exec c self = (r, self') \<Longrightarrow> token_run ttl (hist @ [(c, r)]) self'"

inductive_cases token_run_snocE: "token_run ttl (hist @ [(c, r)]) self"

section \<open>Transitions\<close>

text \<open>The transitions the operations make on the state of one token.\<close>

definition state_step :: "TokenState \<Rightarrow> TokenState \<Rightarrow> bool" where
  "state_step x y \<longleftrightarrow>
     x = y \<or> (x, y) \<in> {(StPending, StApproved), (StPending, StRevoked), (StPending, StExpired),
       (StApproved, StConsumed), (StApproved, StRevoked), (StApproved, StExpired)}"

lemma set_token_state_lookup:
  "hitl_tokens (set_token_state i st self) j =
     (if j = i then map_option (\<lambda>t. t\<lparr>hitl_state := st\<rparr>) (hitl_tokens self i) else hitl_tokens self j)"
  "hitl_ttl (set_token_state i st self) = hitl_ttl self"
  "hitl_expiry_grace (set_token_state i st self) = hitl_expiry_grace self"
  by (simp_all add: set_token_state_def)

lemmas token_op_defs = hitl_issue_def validate_and_consume_def hitl_approve_def hitl_revoke_def hitl_prune_expired_def

lemmas token_op_splits = option.split_asm TokenState.split_asm if_split_asm

lemma validate_Valid:
  assumes "validate_and_consume now i f s b a self = (ValValid, self')"
  obtains token where "hitl_tokens self i = Some token" "hitl_state token = StApproved" "now < hitl_expires_at token"
    "hitl_fingerprint token = f" "hitl_session_id token = s" "hitl_sandbox_id token = b"
    "hitl_agent_id token = None \<or> hitl_agent_id token = a" "self' = set_token_state i StConsumed self"
  using assms by (auto simp: validate_and_consume_def split: token_op_splits)

lemma validate_not_Valid:
  "validate_and_consume now i f s b a self = (r, self') \<Longrightarrow> r \<noteq> ValValid \<Longrightarrow>
     self' = self \<or> self' = set_token_state i StExpired self
       \<and> (\<exists>t. hitl_tokens self i = Some t \<and> (hitl_state t = StPending \<or> hitl_state t = StApproved))"
  by (auto simp: validate_and_consume_def split: token_op_splits)

lemma approve_cases:
  assumes "hitl_approve now i self = (r, self')"
  obtains "r \<noteq> ApproveOk" "self' = self"
  | t where "r \<noteq> ApproveOk" "self' = set_token_state i StExpired self" "hitl_tokens self i = Some t" "hitl_state t = StPending"
  | t where "r = ApproveOk" "self' = set_token_state i StApproved self" "hitl_tokens self i = Some t" "hitl_state t = StPending"
  | t where "r = ApproveOk" "self' = self" "hitl_tokens self i = Some t" "hitl_state t = StApproved"
  using assms by (auto simp: hitl_approve_def split: token_op_splits)

lemma revoke_cases:
  assumes "hitl_revoke now i self = (r, self')"
  obtains "r \<noteq> RevokeOk" "self' = self"
  | t where "r \<noteq> RevokeOk" "self' = set_token_state i StExpired self" "hitl_tokens self i = Some t"
      "hitl_state t = StPending \<or> hitl_state t = StApproved"
  | t where "r = RevokeOk" "self' = set_token_state i StRevoked self" "hitl_tokens self i = Some t"
      "hitl_state t = StPending \<or> hitl_state t = StApproved"
  | t where "r = RevokeOk" "self' = self" "hitl_tokens self i = Some t" "hitl_state t = StRevoked"
  using assms by (auto simp: hitl_revoke_def split: token_op_splits)

section \<open>The invariant of a run\<close>

definition valid_for :: "string \<Rightarrow> token_call \<times> token_answer \<Rightarrow> bool" where
  "valid_for i e \<longleftrightarrow> (\<exists>f s b a t. e = (CallValidate i f s b a t, Validated ValValid))"

definition revoked_for :: "string \<Rightarrow> token_call \<times> token_answer \<Rightarrow> bool" where
  "revoked_for i e \<longleftrightarrow> (\<exists>t. e = (CallRevoke i t, Revoked RevokeOk))"

text \<open>What the history says about a token that is in the store, and about one that is not.\<close>

definition token_inv :: "nat \<Rightarrow> (token_call \<times> token_answer) list \<Rightarrow> string \<Rightarrow> HitlToken option \<Rightarrow> bool" where
  "token_inv ttl hist i entry \<longleftrightarrow>
     (case entry of
        None \<Rightarrow> i \<in> issued_ids hist \<or> (\<forall>e \<in> set hist. \<not> valid_for i e)
      | Some t \<Rightarrow>
          (\<exists>t0 r. (CallIssue i (hitl_fingerprint t) (hitl_session_id t) (hitl_sandbox_id t) (hitl_agent_id t) t0, r) \<in> set hist
             \<and> hitl_expires_at t = t0 + int ttl)
        \<and> (hitl_state t = StApproved \<longrightarrow> (\<exists>t1. (CallApprove i t1, Approved ApproveOk) \<in> set hist))
        \<and> (hitl_state t \<in> {StPending, StApproved} \<longrightarrow>
             (\<forall>e \<in> set hist. \<not> valid_for i e) \<and> (\<forall>e \<in> set hist. \<not> revoked_for i e)))"

definition store_inv :: "nat \<Rightarrow> (token_call \<times> token_answer) list \<Rightarrow> InMemoryTokenStore \<Rightarrow> bool" where
  "store_inv ttl hist self \<longleftrightarrow>
     hitl_ttl self = ttl \<and> (\<forall>i. token_inv ttl hist i (hitl_tokens self i))
   \<and> (\<forall>i. i \<notin> issued_ids hist \<longrightarrow> hitl_tokens self i = None
          \<and> (\<forall>e \<in> set hist. \<not> valid_for i e) \<and> (\<forall>e \<in> set hist. \<not> revoked_for i e))"

lemma issued_ids_snoc:
  "issued_ids (hist @ [e]) = issued_ids hist \<union> set_option (issues (fst e))"
  by (auto simp: issued_ids_def)

text \<open>An entry that is neither a successful validation nor a successful revocation of \<open>i\<close> changes nothing for it.\<close>

lemma token_inv_more:
  assumes "token_inv ttl hist i entry" and "\<not> valid_for i e" and "\<not> revoked_for i e"
  shows "token_inv ttl (hist @ [e]) i entry"
  using assms by (cases entry) (auto simp: token_inv_def issued_ids_snoc)

text \<open>A token whose new state is final owes nothing but its issue.\<close>

lemma token_inv_final:
  assumes "token_inv ttl hist i (Some t)" and "st \<in> {StConsumed, StRevoked, StExpired}"
  shows "token_inv ttl (hist @ [e]) i (Some (t\<lparr>hitl_state := st\<rparr>))"
  using assms by (auto simp: token_inv_def)

lemma store_inv_same:
  assumes "store_inv ttl hist self" and "issues (fst e) = None" and "\<And>j. \<not> valid_for j e" "\<And>j. \<not> revoked_for j e"
  shows "store_inv ttl (hist @ [e]) self"
  using assms by (auto simp: store_inv_def issued_ids_snoc intro: token_inv_more)

lemma store_inv_final:
  assumes "store_inv ttl hist self" and "issues (fst e) = None" and "hitl_tokens self i = Some t"
    and "st \<in> {StConsumed, StRevoked, StExpired}"
    and other: "\<And>j. j \<noteq> i \<Longrightarrow> \<not> valid_for j e" "\<And>j. j \<noteq> i \<Longrightarrow> \<not> revoked_for j e"
  shows "store_inv ttl (hist @ [e]) (set_token_state i st self)"
proof -
  have inv: "token_inv ttl hist j (hitl_tokens self j)" for j using assms(1) by (simp add: store_inv_def)
  have i: "i \<in> issued_ids hist" using assms(1,3) by (auto simp: store_inv_def)
  have "token_inv ttl (hist @ [e]) j (hitl_tokens (set_token_state i st self) j)" for j
    using inv [of j] inv [of i] assms(3,4) other token_inv_final [of ttl hist i t st e]
    by (cases "j = i") (simp_all add: set_token_state_lookup token_inv_more)
  moreover have "hitl_tokens (set_token_state i st self) j = None \<and> (\<forall>e' \<in> set (hist @ [e]). \<not> valid_for j e')
      \<and> (\<forall>e' \<in> set (hist @ [e]). \<not> revoked_for j e')" if "j \<notin> issued_ids hist" for j
    using that i assms(1) other [of j] by (auto simp: store_inv_def set_token_state_lookup)
  ultimately show ?thesis
    using assms(1,2) by (simp add: store_inv_def issued_ids_snoc set_token_state_lookup)
qed

lemma store_inv_approve:
  assumes "store_inv ttl hist self" and "hitl_tokens self i = Some t" and "hitl_state t = StPending"
  shows "store_inv ttl (hist @ [(CallApprove i now, Approved ApproveOk)]) (set_token_state i StApproved self)"
proof -
  let ?e = "(CallApprove i now, Approved ApproveOk)"
  have e: "\<not> valid_for j ?e" "\<not> revoked_for j ?e" for j by (simp_all add: valid_for_def revoked_for_def)
  have more: "token_inv ttl (hist @ [?e]) j (hitl_tokens self j)" for j
    using assms(1) e by (simp add: store_inv_def token_inv_more)
  have "token_inv ttl (hist @ [?e]) i (Some (t\<lparr>hitl_state := StApproved\<rparr>))"
    using more [of i] assms(2,3) by (auto simp: token_inv_def)
  then have "token_inv ttl (hist @ [?e]) j (hitl_tokens (set_token_state i StApproved self) j)" for j
    using more [of j] assms(2) by (simp add: set_token_state_lookup)
  then show ?thesis
    using assms e by (auto simp: store_inv_def issued_ids_snoc set_token_state_lookup)
qed

lemma store_inv_prune:
  assumes "store_inv ttl hist self"
  shows "store_inv ttl (hist @ [(CallPrune now, Pruned)]) (hitl_prune_expired now self)"
proof -
  let ?e = "(CallPrune now, Pruned)"
  have e: "\<not> valid_for j ?e" "\<not> revoked_for j ?e" for j by (simp_all add: valid_for_def revoked_for_def)
  note same = store_inv_same [OF assms _ e, simplified]
  have "token_inv ttl (hist @ [?e]) j (hitl_tokens (hitl_prune_expired now self) j)" for j
  proof (cases "hitl_tokens (hitl_prune_expired now self) j")
    case None
    have "j \<in> issued_ids (hist @ [?e])" if "hitl_tokens self j \<noteq> None" using that same by (auto simp: store_inv_def)
    then show ?thesis using None same by (cases "hitl_tokens self j") (auto simp: store_inv_def token_inv_def)
  next
    case (Some t)
    then have "hitl_tokens self j = Some t" by (auto simp: hitl_prune_expired_def split: token_op_splits)
    then show ?thesis using Some same by (auto simp: store_inv_def dest: spec [of _ j])
  qed
  then show ?thesis using same by (auto simp: store_inv_def hitl_prune_expired_def)
qed

lemma store_inv_issue:
  assumes "store_inv ttl hist self" and "i \<notin> issued_ids hist"
  shows "store_inv ttl (hist @ [(CallIssue i f s b a now, Issued i)]) (snd (hitl_issue now i f s b a self))"
proof -
  let ?e = "(CallIssue i f s b a now, Issued i)"
  have e: "\<not> valid_for j ?e" "\<not> revoked_for j ?e" for j by (simp_all add: valid_for_def revoked_for_def)
  have inv: "token_inv ttl (hist @ [?e]) j (hitl_tokens (snd (hitl_issue now i f s b a self)) j)" for j
  proof (cases "j = i")
    case True
    then show ?thesis using assms e by (auto simp: token_inv_def hitl_issue_def store_inv_def)
  next
    case False
    then show ?thesis using assms e by (simp add: hitl_issue_def store_inv_def token_inv_more)
  qed
  show ?thesis
    unfolding store_inv_def
  proof (intro conjI allI)
    show "hitl_ttl (snd (hitl_issue now i f s b a self)) = ttl" using assms(1) by (simp add: store_inv_def hitl_issue_def)
  qed (rule inv, use assms(1) e in \<open>auto simp: store_inv_def issued_ids_snoc hitl_issue_def\<close>)
qed

lemma set_token_state_idem:
  "hitl_tokens self i = Some t \<Longrightarrow> hitl_state t = st \<Longrightarrow> set_token_state i st self = self"
  by (simp add: set_token_state_def fun_upd_idem)

lemma store_inv_exec:
  assumes inv: "store_inv ttl hist self" and fresh: "\<And>i. issues c = Some i \<Longrightarrow> i \<notin> issued_ids hist"
    and "token_exec c self = (r, self')"
  shows "store_inv ttl (hist @ [(c, r)]) self'"
proof (cases c)
  case (CallIssue i f s b a now)
  then show ?thesis
    using assms(3) store_inv_issue [OF inv, of i f s b a now] fresh by (auto simp: hitl_issue_def)
next
  case (CallValidate i f s b a now)
  then obtain v where v: "validate_and_consume now i f s b a self = (v, self')" "r = Validated v"
    using assms(3) by (auto split: prod.splits)
  show ?thesis
  proof (cases "v = ValValid")
    case True
    show ?thesis
      by (rule validate_Valid [OF v(1) [unfolded True]])
        (use CallValidate v(2) True in \<open>auto simp: valid_for_def revoked_for_def intro!: store_inv_final [OF inv]\<close>)
  next
    case False
    show ?thesis
      using validate_not_Valid [OF v(1) False] CallValidate v(2) False
      by (auto simp: valid_for_def revoked_for_def intro: store_inv_same [OF inv] store_inv_final [OF inv])
  qed
next
  case (CallApprove i now)
  then obtain v where v: "hitl_approve now i self = (v, self')" "r = Approved v"
    using assms(3) by (auto split: prod.splits)
  show ?thesis
    by (rule approve_cases [OF v(1)])
      (use CallApprove v(2) in \<open>auto simp: valid_for_def revoked_for_def
        intro: store_inv_same [OF inv] store_inv_final [OF inv] store_inv_approve [OF inv]\<close>)
next
  case (CallRevoke i now)
  then obtain v where v: "hitl_revoke now i self = (v, self')" "r = Revoked v"
    using assms(3) by (auto split: prod.splits)
  show ?thesis
  proof (rule revoke_cases [OF v(1)])
    fix t
    assume t: "v = RevokeOk" "self' = self" "hitl_tokens self i = Some t" "hitl_state t = StRevoked"
    then have "self' = set_token_state i StRevoked self" using set_token_state_idem by simp
    moreover have "store_inv ttl (hist @ [(c, r)]) (set_token_state i StRevoked self)"
      by (rule store_inv_final [OF inv _ t(3)]) (use CallRevoke in \<open>simp_all add: valid_for_def revoked_for_def\<close>)
    ultimately show ?thesis by simp
  qed (use CallRevoke v(2) in \<open>auto simp: valid_for_def revoked_for_def
        intro: store_inv_same [OF inv] store_inv_final [OF inv]\<close>)
next
  case (CallPrune now)
  then show ?thesis using assms(3) store_inv_prune [OF inv] by auto
qed

lemma token_run_inv: "token_run ttl hist self \<Longrightarrow> store_inv ttl hist self"
proof (induction rule: token_run.induct)
  case start
  then show ?case
    by (simp add: store_inv_def token_inv_def InMemoryTokenStore_new_def)
next
  case (call hist self c r self')
  then show ?case by (intro store_inv_exec) blast+
qed

section \<open>Properties\<close>

text \<open>
  C5. A local execution approved by a human happens at most once and only as approved. If in any run
  of the store, with any interleaving of issues, retries, approvals, revocations and prunes, a retry
  is answered Valid, then the token was issued for exactly this fingerprint, session and sandbox (and
  for this agent, if it was bound to one), it has not outlived its time to live, an operator approved
  it, no operator revoked it, and no earlier retry of it was answered Valid.
\<close>

theorem approval_single_use:
  assumes "token_run ttl (hist @ [(CallValidate i f s b a now, Validated ValValid)]) self"
  shows "(\<exists>t0 a0 r. (CallIssue i f s b a0 t0, r) \<in> set hist \<and> now < t0 + int ttl \<and> (a0 = None \<or> a0 = a))
    \<and> (\<exists>t1. (CallApprove i t1, Approved ApproveOk) \<in> set hist)
    \<and> (\<forall>e \<in> set hist. \<not> revoked_for i e) \<and> (\<forall>e \<in> set hist. \<not> valid_for i e)"
proof -
  obtain self0 where run: "token_run ttl hist self0"
    and exec: "token_exec (CallValidate i f s b a now) self0 = (Validated ValValid, self)"
    using assms by (rule token_run_snocE) simp_all
  from exec have v: "validate_and_consume now i f s b a self0 = (ValValid, self)" by (simp split: prod.splits)
  have inv: "token_inv ttl hist i (hitl_tokens self0 i)" using token_run_inv [OF run] by (simp add: store_inv_def)
  show ?thesis
  proof (rule validate_Valid [OF v])
    fix token
    assume t: "hitl_tokens self0 i = Some token" "hitl_state token = StApproved" "now < hitl_expires_at token"
      "hitl_fingerprint token = f" "hitl_session_id token = s" "hitl_sandbox_id token = b"
      "hitl_agent_id token = None \<or> hitl_agent_id token = a"
    obtain t0 r where "(CallIssue i f s b (hitl_agent_id token) t0, r) \<in> set hist" "hitl_expires_at token = t0 + int ttl"
      using inv t by (auto simp: token_inv_def)
    then have "\<exists>t0 a0 r. (CallIssue i f s b a0 t0, r) \<in> set hist \<and> now < t0 + int ttl \<and> (a0 = None \<or> a0 = a)"
      using t by (intro exI [of _ t0] exI [of _ "hitl_agent_id token"] exI [of _ r]) auto
    then show ?thesis using inv t by (simp add: token_inv_def)
  qed
qed

text \<open>
  The state machine of an approval token has only the transitions pending to approved, revoked or
  expired and approved to consumed, revoked or expired: over any call of the store a token keeps its
  bindings and moves along one of these edges, so the final states stay as they are; and only pruning
  removes a token, at the earliest five minutes after it expired.
\<close>

theorem approval_transitions:
  assumes "token_exec c self = (r, self')" and "hitl_tokens self i = Some t" and "issues c \<noteq> Some i"
    and "hitl_expiry_grace self = hitl_expiry_grace (InMemoryTokenStore_new ttl)"
  shows "case hitl_tokens self' i of
      Some t' \<Rightarrow> state_step (hitl_state t) (hitl_state t') \<and> t' = t\<lparr>hitl_state := hitl_state t'\<rparr>
    | None \<Rightarrow> \<exists>now. c = CallPrune now \<and> hitl_expires_at t + 300 * 1000000000 \<le> now"
proof (cases c)
  case (CallIssue j f s b a now)
  then show ?thesis using assms by (auto simp: hitl_issue_def state_step_def)
next
  case (CallValidate j f s b a now)
  then show ?thesis
    using assms by (auto simp: validate_and_consume_def set_token_state_lookup state_step_def
        split: token_op_splits prod.splits)
next
  case (CallApprove j now)
  then show ?thesis
    using assms by (auto simp: hitl_approve_def set_token_state_lookup state_step_def split: token_op_splits prod.splits)
next
  case (CallRevoke j now)
  then show ?thesis
    using assms by (auto simp: hitl_revoke_def set_token_state_lookup state_step_def split: token_op_splits prod.splits)
next
  case (CallPrune now)
  then show ?thesis
    using assms by (auto simp: hitl_prune_expired_def state_step_def InMemoryTokenStore_new_def)
qed

text \<open>
  C30. An approval is not lost: a token that was approved is still honoured at any later moment before
  it expires, whatever pruning happened in between, for a retry with the fingerprint, session,
  sandbox and agent it was issued for; and the retry after that is refused as a replay.
\<close>

theorem approval_honoured:
  assumes "hitl_tokens self i = Some t" and "hitl_state t = StApproved" and "now < hitl_expires_at t"
    and "list_all (\<lambda>p. p \<le> now) prunes" and "0 < hitl_expiry_grace self"
  shows "\<exists>self'. validate_and_consume now i (hitl_fingerprint t) (hitl_session_id t) (hitl_sandbox_id t) (hitl_agent_id t)
        (fold hitl_prune_expired prunes self) = (ValValid, self')
     \<and> fst (validate_and_consume now i (hitl_fingerprint t) (hitl_session_id t) (hitl_sandbox_id t) (hitl_agent_id t) self')
        = ValAlreadyConsumed"
proof -
  have "hitl_tokens (fold hitl_prune_expired prunes self) i = Some t" using assms(1,4,5)
  proof (induction prunes arbitrary: self)
    case (Cons p prunes)
    then show ?case using assms(3) by (auto simp: hitl_prune_expired_def intro: Cons.IH)
  qed simp
  then show ?thesis
    using assms(2,3) by (auto simp: validate_and_consume_def set_token_state_lookup split: token_op_splits)
qed

section \<open>A concrete run\<close>

definition approval_calls :: "token_call list" where
  "approval_calls =
     [CallIssue ''apr_1'' ''fp'' ''ses_1'' ''sbx_1'' (Some ''agt_1'') 0,
      CallValidate ''apr_1'' ''fp'' ''ses_1'' ''sbx_1'' (Some ''agt_1'') 1,
      CallApprove ''apr_1'' 2]"

fun exec_all :: "token_call list \<Rightarrow> InMemoryTokenStore \<Rightarrow> (token_call \<times> token_answer) list \<times> InMemoryTokenStore" where
  "exec_all [] self = ([], self)"
| "exec_all (c # cs) self =
     (case token_exec c self of (r, self1) \<Rightarrow> case exec_all cs self1 of (es, self2) \<Rightarrow> ((c, r) # es, self2))"

theorem approval_single_use_witness:
  "\<exists>hist self. token_run 10 (hist @ [(CallValidate ''apr_1'' ''fp'' ''ses_1'' ''sbx_1'' (Some ''agt_1'') 5, Validated ValValid)]) self
     \<and> (\<exists>t1. (CallApprove ''apr_1'' t1, Approved ApproveOk) \<in> set hist)"
proof -
  let ?v = "\<lambda>t. CallValidate ''apr_1'' ''fp'' ''ses_1'' ''sbx_1'' (Some ''agt_1'') t"
  let ?tok = "\<lambda>st. \<lparr>hitl_fingerprint = ''fp'', hitl_session_id = ''ses_1'', hitl_sandbox_id = ''sbx_1'',
      hitl_agent_id = Some ''agt_1'', hitl_expires_at = 10, hitl_state = st\<rparr>"
  let ?s = "\<lambda>st. \<lparr>hitl_tokens = [''apr_1'' \<mapsto> ?tok st], hitl_ttl = 10, hitl_expiry_grace = 300000000000\<rparr>"
  have "token_run 10 ([] @ [(CallIssue ''apr_1'' ''fp'' ''ses_1'' ''sbx_1'' (Some ''agt_1'') 0, Issued ''apr_1'')]) (?s StPending)"
    by (rule token_run.call [OF token_run.start])
      (simp_all add: issued_ids_def hitl_issue_def InMemoryTokenStore_new_def)
  then have "token_run 10 (([] @ [(CallIssue ''apr_1'' ''fp'' ''ses_1'' ''sbx_1'' (Some ''agt_1'') 0, Issued ''apr_1'')])
      @ [(CallApprove ''apr_1'' 2, Approved ApproveOk)]) (?s StApproved)"
    by (rule token_run.call) (simp_all add: hitl_approve_def set_token_state_def)
  then have r: "token_run 10 ((([] @ [(CallIssue ''apr_1'' ''fp'' ''ses_1'' ''sbx_1'' (Some ''agt_1'') 0, Issued ''apr_1'')])
      @ [(CallApprove ''apr_1'' 2, Approved ApproveOk)]) @ [(?v 5, Validated ValValid)]) (?s StConsumed)"
    by (rule token_run.call) (simp_all add: validate_and_consume_def set_token_state_def)
  show ?thesis using approval_single_use [OF r] r by blast
qed

theorem approval_transitions_witness:
  "case hitl_tokens (snd (token_exec (CallRevoke ''apr_1'' 3) (snd (exec_all approval_calls (InMemoryTokenStore_new 10))))) ''apr_1'' of
     Some t' \<Rightarrow> hitl_state t' = StRevoked \<and> state_step StApproved (hitl_state t') | None \<Rightarrow> False"
proof -
  let ?self = "snd (exec_all approval_calls (InMemoryTokenStore_new 10))"
  obtain r self' where e: "token_exec (CallRevoke ''apr_1'' 3) ?self = (r, self')" by fastforce
  have "case hitl_tokens ?self ''apr_1'' of Some t \<Rightarrow> hitl_state t = StApproved | None \<Rightarrow> False" by code_simp
  then obtain t where t: "hitl_tokens ?self ''apr_1'' = Some t" "hitl_state t = StApproved" by (auto split: option.splits)
  have "case hitl_tokens (snd (token_exec (CallRevoke ''apr_1'' 3) ?self)) ''apr_1'' of
      Some t' \<Rightarrow> hitl_state t' = StRevoked | None \<Rightarrow> False" by code_simp
  moreover have "hitl_expiry_grace ?self = hitl_expiry_grace (InMemoryTokenStore_new 10)" by code_simp
  ultimately show ?thesis
    using approval_transitions [OF e t(1), of 10] t(2) unfolding e snd_conv by (auto split: option.splits)
qed

theorem approval_honoured_witness:
  "\<exists>self'. validate_and_consume 6 ''apr_1'' ''fp'' ''ses_1'' ''sbx_1'' (Some ''agt_1'')
     (fold hitl_prune_expired [4, 5] (snd (exec_all approval_calls (InMemoryTokenStore_new 10)))) = (ValValid, self')"
proof -
  let ?self = "snd (exec_all approval_calls (InMemoryTokenStore_new 10))"
  have "case hitl_tokens ?self ''apr_1'' of
      Some t \<Rightarrow> hitl_state t = StApproved \<and> hitl_expires_at t = 10 \<and> hitl_fingerprint t = ''fp'' \<and> hitl_session_id t = ''ses_1''
        \<and> hitl_sandbox_id t = ''sbx_1'' \<and> hitl_agent_id t = Some ''agt_1''
    | None \<Rightarrow> False" by code_simp
  then obtain t where t: "hitl_tokens ?self ''apr_1'' = Some t" "hitl_state t = StApproved" "hitl_expires_at t = 10"
      "hitl_fingerprint t = ''fp''" "hitl_session_id t = ''ses_1''" "hitl_sandbox_id t = ''sbx_1''"
      "hitl_agent_id t = Some ''agt_1''" by (auto split: option.splits)
  have "0 < hitl_expiry_grace ?self" by code_simp
  then show ?thesis using approval_honoured [OF t(1,2), of 6 "[4, 5]"] t by auto
qed

end
