(* ===== verification/Authority_Policies.thy ===== *)
theory Authority_Policies
  imports Authority_Client
begin

text \<open>
  What the Authority publishes: the mapping files it turns into a canonical snapshot
  (\<^verbatim>\<open>firma-authority/src/mappings.rs\<close>) and the policy store that loads, validates, versions and reloads
  a generation (\<^verbatim>\<open>firma-authority/src/cedar_loader.rs\<close>).

  Cedar, TOML, the protobuf encoding and SHA-256 are parameters, collected in \<open>loader_lib\<close> together with the
  text of the embedded schema.  What is on disk at a reload is the record \<open>disk\<close>, reading errors included.
\<close>

section \<open>Mapping files\<close>

definition MAX_RULES :: nat where "MAX_RULES = 10000"

record AuthoredRule =
  ar_method :: "string option"
  ar_host :: string
  ar_path :: "string option"
  ar_action_class :: string

definition canonical_rule :: "AuthoredRule \<Rightarrow> (string, MappingRuleMsg) result" where
  "canonical_rule authored =
     (let written = trim (ar_host authored) in
      and_then (validate_authored_mapping_host written) (\<lambda>_.
      let host = normalize_mapping_host written;
          path = (case ar_path authored of Some p \<Rightarrow> if p = [] then None else Some p | None \<Rightarrow> None)
      in and_then (map_err ManagedMappingRuleError_display
           (validate_managed_rule (ar_method authored) host path (ar_action_class authored))) (\<lambda>_.
         Ok \<lparr>msg_method = ar_method authored, msg_host = host, msg_path = path,
             msg_action_class = ar_action_class authored\<rparr>)))"

definition matcher :: "MappingRuleMsg \<Rightarrow> string option \<times> string \<times> string option" where
  "matcher rule = (msg_method rule, msg_host rule, msg_path rule)"

text \<open>The rules of one file; \<open>seen\<close> maps a matcher to where it was first defined.\<close>

fun load_rules ::
  "string \<Rightarrow> nat \<Rightarrow> AuthoredRule list \<Rightarrow> (string option \<times> string \<times> string option \<rightharpoonup> string) \<Rightarrow> MappingRuleMsg list
    \<Rightarrow> (string, (string option \<times> string \<times> string option \<rightharpoonup> string) \<times> MappingRuleMsg list) result" where
  "load_rules path index [] seen rules = Ok (seen, rules)"
| "load_rules path index (authored # rest) seen rules =
     (if MAX_RULES \<le> length rules then Err ''mapping snapshot exceeds 10000 rules''
      else
        let location = path @ '' rule '' @ show_nat index;
            matches_nothing = (ar_path authored = Some [])
        in and_then (map_err (\<lambda>e. location @ '': '' @ e) (canonical_rule authored)) (\<lambda>rule.
           (case seen (matcher rule) of
              Some first \<Rightarrow>
                Err (location @ '': duplicate mapping matcher (first defined at '' @ first @ '')'')
            | None \<Rightarrow>
                load_rules path (index + 1) rest (seen(matcher rule \<mapsto> location))
                  (if matches_nothing then rules else rules @ [rule]))))"

text \<open>Each file with what reading it gave; \<open>parse_toml\<close> is the TOML parser.\<close>

fun load_files ::
  "(string \<Rightarrow> (string, AuthoredRule list) result) \<Rightarrow> (string \<times> (string, string) result) list
    \<Rightarrow> (string option \<times> string \<times> string option \<rightharpoonup> string) \<Rightarrow> MappingRuleMsg list
    \<Rightarrow> (string, MappingRuleMsg list) result" where
  "load_files parse_toml [] seen rules = Ok rules"
| "load_files parse_toml ((path, contents) # files) seen rules =
     and_then (map_err (\<lambda>e. ''read mapping rules '' @ path @ '': '' @ e) contents) (\<lambda>text.
     and_then (map_err (\<lambda>e. ''parse mapping rules '' @ path @ '': '' @ e) (parse_toml text)) (\<lambda>authored.
     and_then (load_rules path 0 authored seen rules) (\<lambda>(seen', rules').
     load_files parse_toml files seen' rules')))"

definition mappings_load ::
  "(string \<Rightarrow> (string, AuthoredRule list) result) \<Rightarrow> (string \<times> (string, string) result) list
    \<Rightarrow> (string, ActionMappingSnapshot) result" where
  "mappings_load parse_toml files =
     and_then (load_files parse_toml files Map.empty []) (\<lambda>rules.
     Ok \<lparr>snap_format_version = 1, snap_default_protected = True, snap_rules = rules\<rparr>)"

section \<open>Reading a generation\<close>

record ('ps, 'sc, 'cx) loader_lib =
  ld_cedar :: "('ps, 'sc, 'cx) cedar_lib"
  ld_empty_set :: 'ps
  ld_validate :: "'ps \<Rightarrow> 'sc \<Rightarrow> validation_result"
  ld_parse_toml :: "string \<Rightarrow> (string, AuthoredRule list) result"
  ld_encode_mappings :: "ActionMappingSnapshot \<Rightarrow> string"
  ld_encoded_len :: "BundleMsg \<Rightarrow> nat"
  ld_timestamp_len :: nat
  ld_sha256_hex :: "string \<Rightarrow> string"
  ld_default_schema :: string

text \<open>
  The policy directory (absent, unreadable, or its entries with what reading each gives), the configured
  schema file and the configured mapping files.
\<close>

record disk =
  disk_policy_dir :: "(string, (string \<times> (string, string) result) list) result option"
  disk_schema :: "(string, string) result option"
  disk_mappings :: "(string \<times> (string, string) result) list option"

text \<open>\<^verbatim>\<open>Path::extension\<close> of a file name.\<close>

definition path_extension :: "string \<Rightarrow> string option" where
  "path_extension name =
     (case rsplit_once (CHR ''.'') name of
        Some (stem, ext) \<Rightarrow> if stem = [] then None else Some ext
      | None \<Rightarrow> None)"

fun push_policies :: "(string \<times> (string, string) result) list \<Rightarrow> PolicyFiles \<Rightarrow> (string, PolicyFiles) result" where
  "push_policies [] policies = Ok policies"
| "push_policies ((name, contents) # entries) policies =
     (if path_extension name = Some ''cedar''
      then and_then (map_err (\<lambda>e. ''cannot read '' @ name @ '': '' @ e) contents) (\<lambda>content.
             push_policies entries (PolicyFiles_push policies name content))
      else push_policies entries policies)"

definition read_policies ::
  "('ps, 'sc, 'cx) loader_lib \<Rightarrow> (string, (string \<times> (string, string) result) list) result option
    \<Rightarrow> (string, PolicyFiles \<times> 'ps) result" where
  "read_policies lib dir =
     (case dir of
        None \<Rightarrow> Err ''policy directory does not exist''
      | Some listing \<Rightarrow>
          and_then (map_err (\<lambda>e. ''cannot read policy directory: '' @ e) listing) (\<lambda>entries.
          and_then (push_policies (sort_key fst entries) []) (\<lambda>policies.
          and_then (if policies = [] then Ok (ld_empty_set lib)
                    else map_err (\<lambda>e. ''cedar policy parse error: '' @ e)
                      (parse_policy_set (ld_cedar lib) (PolicyFiles_concat policies))) (\<lambda>parsed.
          Ok (policies, parsed)))))"

definition validate_and_report ::
  "('ps, 'sc, 'cx) loader_lib \<Rightarrow> 'ps \<Rightarrow> 'sc \<Rightarrow> PolicyFiles \<Rightarrow> (string, unit) result" where
  "validate_and_report lib policy_set schema policies =
     and_then (map_err ValidationError_display (validate_policies (ld_validate lib policy_set schema) (Some policies)))
       (\<lambda>warnings. Ok ())"

definition read_schema :: "('ps, 'sc, 'cx) loader_lib \<Rightarrow> (string, string) result option \<Rightarrow> (string, string \<times> 'sc) result" where
  "read_schema lib schema_path =
     and_then (case schema_path of
                 Some contents \<Rightarrow> map_err (\<lambda>e. ''cannot read schema: '' @ e) contents
               | None \<Rightarrow> Ok (ld_default_schema lib)) (\<lambda>schema_src.
     and_then (map_err (\<lambda>e. ''cedar schema parse error: '' @ e) (parse_schema (ld_cedar lib) schema_src)) (\<lambda>schema.
     Ok (schema_src, schema)))"

definition version_preimage :: "string \<Rightarrow> string \<Rightarrow> string option \<Rightarrow> string" where
  "version_preimage policies schema mappings =
     show_nat (length policies) @ '':'' @ policies @ show_nat (length schema) @ '':'' @ schema @ unwrap_or [] mappings"

definition snapshot_version ::
  "('ps, 'sc, 'cx) loader_lib \<Rightarrow> string \<Rightarrow> string \<Rightarrow> ActionMappingSnapshot option \<Rightarrow> string" where
  "snapshot_version lib policies schema mappings =
     ld_sha256_hex lib (version_preimage policies schema (map_option (ld_encode_mappings lib) mappings))"

text \<open>The bytes of a varint, seven bits each.\<close>

fun varint_len :: "nat \<Rightarrow> nat" where
  "varint_len n = (if n < 128 then 1 else 1 + varint_len (n div 128))"

declare varint_len.simps [simp del]

definition validate_bundle_size :: "('ps, 'sc, 'cx) loader_lib \<Rightarrow> BundleMsg \<Rightarrow> (string, unit) result" where
  "validate_bundle_size lib bundle =
     (let bundle_len = ld_encoded_len lib bundle;
          update_len = 1 + varint_len bundle_len + bundle_len + ld_timestamp_len lib
      in if update_len \<le> 16 * 1024 * 1024 then Ok ()
         else Err ''enforcement snapshot exceeds the 16 MiB stream limit'')"

text \<open>What \<^verbatim>\<open>load_inner\<close> and \<^verbatim>\<open>reload\<close> both do before they publish.\<close>

definition read_generation ::
  "('ps, 'sc, 'cx) loader_lib \<Rightarrow> nat \<Rightarrow> disk \<Rightarrow> (string, 'ps \<times> 'sc \<times> BundleMsg) result" where
  "read_generation lib ttl_seconds d =
     and_then (read_policies lib (disk_policy_dir d)) (\<lambda>(policies, policy_set).
     and_then (read_schema lib (disk_schema d)) (\<lambda>(schema_src, schema).
     and_then (validate_and_report lib policy_set schema policies) (\<lambda>_.
     let policies_src = PolicyFiles_concat policies in
     and_then (case disk_mappings d of
                 None \<Rightarrow> Ok None
               | Some files \<Rightarrow> and_then (mappings_load (ld_parse_toml lib) files) (\<lambda>m. Ok (Some m))) (\<lambda>mappings.
     let bundle = \<lparr>msg_version = snapshot_version lib policies_src schema_src mappings, msg_policies = policies_src,
                   msg_entity_schema = schema_src, msg_ttl_seconds = ttl_seconds, msg_mappings = mappings\<rparr>
     in and_then (validate_bundle_size lib bundle) (\<lambda>_. Ok (policy_set, schema, bundle))))))"

section \<open>The store\<close>

record ('ps, 'sc) CedarPolicyStore =
  cs_policy_set :: 'ps
  cs_schema :: 'sc
  cs_bundle :: BundleMsg
  cs_ttl_seconds :: nat

definition load_inner ::
  "('ps, 'sc, 'cx) loader_lib \<Rightarrow> nat \<Rightarrow> disk \<Rightarrow> (string, ('ps, 'sc) CedarPolicyStore) result" where
  "load_inner lib ttl_seconds d =
     and_then (read_generation lib ttl_seconds d) (\<lambda>(policy_set, schema, bundle).
     Ok \<lparr>cs_policy_set = policy_set, cs_schema = schema, cs_bundle = bundle, cs_ttl_seconds = ttl_seconds\<rparr>)"

fun check_mapping_paths :: "nat \<Rightarrow> (string \<times> (string, string) result) list \<Rightarrow> (string, unit) result" where
  "check_mapping_paths index [] = Ok ()"
| "check_mapping_paths index ((path, contents) # files) =
     (if path = [] then Err (''authority.mapping_rules_paths['' @ show_nat index @ ''] must not be empty'')
      else check_mapping_paths (index + 1) files)"

definition load_with_mappings ::
  "('ps, 'sc, 'cx) loader_lib \<Rightarrow> nat \<Rightarrow> (string \<times> (string, string) result) list \<Rightarrow> disk
    \<Rightarrow> (string, ('ps, 'sc) CedarPolicyStore) result" where
  "load_with_mappings lib ttl_seconds mapping_paths d =
     (if mapping_paths = [] then Err ''authority.mapping_rules_paths must contain at least one mapping file''
      else and_then (check_mapping_paths 0 mapping_paths) (\<lambda>_.
        load_inner lib ttl_seconds (d\<lparr>disk_mappings := Some mapping_paths\<rparr>)))"

definition reload ::
  "('ps, 'sc, 'cx) loader_lib \<Rightarrow> disk \<Rightarrow> ('ps, 'sc) CedarPolicyStore
    \<Rightarrow> (string, unit) result \<times> ('ps, 'sc) CedarPolicyStore" where
  "reload lib d self =
     (case read_generation lib (cs_ttl_seconds self) d of
        Inl e \<Rightarrow> (Err e, self)
      | Inr (policy_set, schema, bundle) \<Rightarrow>
          if msg_version (cs_bundle self) = msg_version bundle then (Ok (), self)
          else (Ok (), self\<lparr>cs_policy_set := policy_set, cs_schema := schema, cs_bundle := bundle\<rparr>))"

section \<open>Rules that are published\<close>

definition rule_ok :: "MappingRuleMsg \<Rightarrow> bool" where
  "rule_ok rule \<longleftrightarrow>
     validate_managed_rule (msg_method rule) (msg_host rule) (msg_path rule) (msg_action_class rule) = Ok ()"

lemma map_err_Ok [simp]: "map_err f r = Inr a \<longleftrightarrow> r = Inr a"
  by (cases r) (simp_all add: map_err_def)

lemma canonical_rule_Ok: "canonical_rule authored = Ok rule \<Longrightarrow> rule_ok rule"
  by (auto simp: canonical_rule_def rule_ok_def Let_def and_then_Ok)

definition rules_inv :: "(string option \<times> string \<times> string option \<rightharpoonup> string) \<Rightarrow> MappingRuleMsg list \<Rightarrow> bool" where
  "rules_inv seen rules \<longleftrightarrow>
     (\<forall>r \<in> set rules. rule_ok r) \<and> distinct (map matcher rules) \<and> matcher ` set rules \<subseteq> dom seen
   \<and> length rules \<le> MAX_RULES"

lemma load_rules_inv:
  "load_rules path index authored seen rules = Ok (seen', rules') \<Longrightarrow> rules_inv seen rules \<Longrightarrow> rules_inv seen' rules'"
proof (induction authored arbitrary: index seen rules)
  case (Cons a authored)
  obtain rule where room: "length rules < MAX_RULES" and rule: "canonical_rule a = Ok rule"
    and fresh: "seen (matcher rule) = None"
    and rest: "load_rules path (index + 1) authored (seen(matcher rule \<mapsto> path @ '' rule '' @ show_nat index))
      (if ar_path a = Some [] then rules else rules @ [rule]) = Ok (seen', rules')"
    using Cons.prems(1) by (auto simp: and_then_Ok Let_def split: if_split_asm option.split_asm)
  have "rules_inv (seen(matcher rule \<mapsto> path @ '' rule '' @ show_nat index))
      (if ar_path a = Some [] then rules else rules @ [rule])"
    using Cons.prems(2) room fresh canonical_rule_Ok [OF rule] by (auto simp: rules_inv_def)
  then show ?case by (rule Cons.IH [OF rest])
qed simp

lemma load_files_inv:
  "load_files parse_toml files seen rules = Ok rules' \<Longrightarrow> rules_inv seen rules \<Longrightarrow> \<exists>seen'. rules_inv seen' rules'"
proof (induction files arbitrary: seen rules)
  case (Cons f files)
  obtain path contents where f: "f = (path, contents)" by (cases f)
  obtain authored seen' rules1 where l: "load_rules path 0 authored seen rules = Ok (seen', rules1)"
    "load_files parse_toml files seen' rules1 = Ok rules'"
    using Cons.prems(1) unfolding f by (auto simp: and_then_Ok)
  show ?case by (rule Cons.IH [OF l(2) load_rules_inv [OF l(1) Cons.prems(2)]])
qed auto

lemma mappings_load_Ok:
  assumes "mappings_load parse_toml files = Ok snap"
  shows "snap_format_version snap = 1 \<and> snap_default_protected snap
    \<and> (\<forall>r \<in> set (snap_rules snap). rule_ok r) \<and> distinct (map matcher (snap_rules snap))
    \<and> length (snap_rules snap) \<le> MAX_RULES"
proof -
  obtain rules where r: "load_files parse_toml files Map.empty [] = Ok rules"
    "snap = \<lparr>snap_format_version = 1, snap_default_protected = True, snap_rules = rules\<rparr>"
    using assms by (auto simp: mappings_load_def and_then_Ok)
  have "rules_inv Map.empty []" by (simp add: rules_inv_def)
  then show ?thesis using load_files_inv [OF r(1)] r(2) by (auto simp: rules_inv_def)
qed

section \<open>The sidecar's side\<close>

definition config_of :: "MappingRuleMsg \<Rightarrow> MappingRuleConfig" where
  "config_of rule =
     \<lparr>cfg_method = msg_method rule, cfg_host = msg_host rule, cfg_path = msg_path rule,
      cfg_action_class = msg_action_class rule\<rparr>"

text \<open>\<^verbatim>\<open>http::Method::from_str\<close> accepts the eight methods of the language.\<close>

definition methods_parse :: "(string \<Rightarrow> http_method_token option) \<Rightarrow> bool" where
  "methods_parse parse_method \<longleftrightarrow> (\<forall>m. parse_method (HttpMethod_as_str m) = Some (HttpMethod_as_str m))"

lemma rule_ok_parts:
  assumes "rule_ok rule"
  shows "normalize_mapping_host (msg_host rule) = msg_host rule" "msg_path rule \<noteq> Some []"
    "msg_method rule = Some m \<Longrightarrow> \<exists>k. m = HttpMethod_as_str k"
    "registry_contains registry_v0_1 (msg_action_class rule)"
proof -
  have v: "mapping_host_is_canonical (msg_host rule)" "is_ok (ActionClass_from_str (msg_action_class rule))"
    using assms by (auto simp: rule_ok_def validate_managed_rule_def split: if_split_asm)
  show "normalize_mapping_host (msg_host rule) = msg_host rule" using canonical_host_normal [OF v(1)] by blast
  show "registry_contains registry_v0_1 (msg_action_class rule)"
    using v(2) by (auto simp: registry_contains_iff is_ok_iff from_str_Ok_iff)
  show "msg_path rule \<noteq> Some []"
    using assms by (auto simp: rule_ok_def validate_managed_rule_def split: if_split_asm option.split_asm)
  show "\<exists>k. m = HttpMethod_as_str k" if "msg_method rule = Some m"
    using assms that
    by (auto simp: rule_ok_def validate_managed_rule_def is_ok_iff dest: HttpMethod_from_str_Ok split: if_split_asm)
qed

lemma convert_rules_accepts:
  assumes "methods_parse parse_method"
  shows "\<forall>r \<in> set rules. rule_ok r \<Longrightarrow> convert_rules parse_method i rules = Ok (map config_of rules)"
proof (induction rules arbitrary: i)
  case (Cons r rules)
  have "parse_method m = Some m" if "msg_method r = Some m" for m
    using rule_ok_parts(3) [of r m] that Cons.prems assms by (auto simp: methods_parse_def)
  then show ?case using Cons by (cases "msg_method r") (simp_all add: config_of_def)
qed simp

lemma validate_managed_accepts: "\<forall>r \<in> set rules. rule_ok r \<Longrightarrow> validate_managed_from i (map config_of rules) = Ok ()"
  by (induction rules arbitrary: i) (simp_all add: rule_ok_def config_of_def)

lemma compile_rules_accepts:
  "\<forall>r \<in> set rules. rule_ok r \<Longrightarrow>
     compile_rules i registry_v0_1 (map config_of rules) = Ok (map (compile_rule \<circ> config_of) rules)"
proof (induction rules arbitrary: i)
  case (Cons r rules)
  then show ?case using rule_ok_parts(4) [of r] by (simp add: config_of_def)
qed simp

lemma check_duplicates_accepts:
  "distinct (map rule_key rules) \<Longrightarrow> rule_key ` set rules \<inter> seen = {} \<Longrightarrow> check_duplicates i seen rules = Ok ()"
  by (induction rules arbitrary: i seen) auto

lemma rule_key_matcher:
  assumes "rule_ok r" "rule_ok r'"
  shows "rule_key (config_of r) = rule_key (config_of r') \<longleftrightarrow> matcher r = matcher r'"
  using rule_ok_parts(1,2) [OF assms(1)] rule_ok_parts(1,2) [OF assms(2)]
  by (cases "msg_path r"; cases "msg_path r'") (auto simp: rule_key_def config_of_def matcher_def)

lemma distinct_keys:
  assumes "\<forall>r \<in> set rules. rule_ok r" and "distinct (map matcher rules)"
  shows "distinct (map rule_key (map config_of rules))"
  using assms
proof (induction rules)
  case (Cons r rules)
  then have "rule_key (config_of r) \<noteq> rule_key (config_of r')" if "r' \<in> set rules" for r'
    using that rule_key_matcher [of r r'] by auto
  then show ?case using Cons by auto
qed simp

lemma mappings_accepted:
  assumes "mappings_load parse_toml files = Ok snap" and "methods_parse parse_method"
  shows "\<exists>table. compile_mappings parse_method (Some snap) = Ok table
    \<and> set (table_rules table) = (\<lambda>r. compile_rule (config_of r)) ` set (snap_rules snap)"
proof (cases "snap_rules snap = []")
  case True
  then show ?thesis
    using mappings_load_Ok [OF assms(1)]
    by (simp add: compile_mappings_def empty_protected_def MAX_RULES_def MAX_SNAPSHOT_RULES_def)
next
  case False
  note m = mappings_load_Ok [OF assms(1)]
  let ?rules = "snap_rules snap"
  have "MappingTable_compile \<lparr>file_rules = map config_of ?rules\<rparr> registry_v0_1 =
      Ok \<lparr>table_rules = sort_key (\<lambda>rule. - int (rule_specificity rule)) (map (compile_rule \<circ> config_of) ?rules)\<rparr>"
    using m compile_rules_accepts [of ?rules 0] check_duplicates_accepts [OF distinct_keys, of ?rules "{}" 0]
    by (simp add: MappingTable_compile_def)
  then have "compile_mappings parse_method (Some snap) =
      Ok \<lparr>table_rules = sort_key (\<lambda>rule. - int (rule_specificity rule)) (map (compile_rule \<circ> config_of) ?rules)\<rparr>"
    using m False convert_rules_accepts [OF assms(2), of ?rules 0] validate_managed_accepts [of ?rules 0]
    by (simp add: compile_mappings_def from_managed_rules_def MAX_RULES_def MAX_SNAPSHOT_RULES_def map_err_def)
  then show ?thesis by auto
qed

section \<open>Generations\<close>

lemma show_nat_prefix:
  assumes "show_nat n @ CHR '':'' # x = show_nat m @ CHR '':'' # y"
  shows "n = m \<and> x = y"
proof -
  have free: "CHR '':'' \<notin> set (show_nat k)" for k by (rule show_nat_free) simp
  have "Some (show_nat n, x) = split_once (CHR '':'') (show_nat n @ CHR '':'' # x)"
    by (simp only: split_once_append [OF free])
  also have "\<dots> = Some (show_nat m, y)" unfolding assms by (simp only: split_once_append [OF free])
  finally show ?thesis using show_nat_inject [of n m] by blast
qed

lemma version_preimage_inject:
  assumes "version_preimage p s m = version_preimage p' s' m'"
  shows "p = p' \<and> s = s' \<and> unwrap_or [] m = unwrap_or [] m'"
proof -
  have "length p = length p' \<and> p @ show_nat (length s) @ CHR '':'' # s @ unwrap_or [] m =
      p' @ show_nat (length s') @ CHR '':'' # s' @ unwrap_or [] m'"
    using assms by (intro show_nat_prefix) (simp add: version_preimage_def)
  then have p: "p = p'" and "show_nat (length s) @ CHR '':'' # s @ unwrap_or [] m =
      show_nat (length s') @ CHR '':'' # s' @ unwrap_or [] m'"
    by auto
  then have "length s = length s' \<and> s @ unwrap_or [] m = s' @ unwrap_or [] m'" by (intro show_nat_prefix) simp
  then show ?thesis using p by auto
qed

lemma read_generation_parts:
  assumes "read_generation lib ttl d = Ok (policy_set, schema, bundle)"
  obtains policies schema_src mappings where
      "read_policies lib (disk_policy_dir d) = Ok (policies, policy_set)"
      "read_schema lib (disk_schema d) = Ok (schema_src, schema)"
      "validate_and_report lib policy_set schema policies = Ok ()"
      "(case disk_mappings d of None \<Rightarrow> Ok None
        | Some files \<Rightarrow> and_then (mappings_load (ld_parse_toml lib) files) (\<lambda>m. Ok (Some m))) = Ok mappings"
      "bundle = \<lparr>msg_version = snapshot_version lib (PolicyFiles_concat policies) schema_src mappings,
         msg_policies = PolicyFiles_concat policies, msg_entity_schema = schema_src, msg_ttl_seconds = ttl,
         msg_mappings = mappings\<rparr>"
      "validate_bundle_size lib bundle = Ok ()"
proof -
  obtain policies policy_set' where 1: "read_policies lib (disk_policy_dir d) = Ok (policies, policy_set')"
    using assms by (cases "read_policies lib (disk_policy_dir d)") (auto simp: read_generation_def)
  obtain schema_src schema' where 2: "read_schema lib (disk_schema d) = Ok (schema_src, schema')"
    using assms 1 by (cases "read_schema lib (disk_schema d)") (auto simp: read_generation_def)
  have 3: "validate_and_report lib policy_set' schema' policies = Ok ()"
    using assms 1 2
    by (cases "validate_and_report lib policy_set' schema' policies") (simp_all add: read_generation_def)
  obtain mappings where 4: "(case disk_mappings d of None \<Rightarrow> Ok None
      | Some files \<Rightarrow> and_then (mappings_load (ld_parse_toml lib) files) (\<lambda>m. Ok (Some m))) = Ok mappings"
    using assms 1 2 3
    by (cases "case disk_mappings d of None \<Rightarrow> Ok None
      | Some files \<Rightarrow> and_then (mappings_load (ld_parse_toml lib) files) (\<lambda>m. Ok (Some m))")
      (simp_all add: read_generation_def)
  let ?b = "\<lparr>msg_version = snapshot_version lib (PolicyFiles_concat policies) schema_src mappings,
         msg_policies = PolicyFiles_concat policies, msg_entity_schema = schema_src, msg_ttl_seconds = ttl,
         msg_mappings = mappings\<rparr>"
  have "validate_bundle_size lib ?b = Ok ()"
    using assms 1 2 3 4 by (cases "validate_bundle_size lib ?b") (simp_all add: read_generation_def)
  then show ?thesis
    using assms 1 2 3 4 by (intro that [of policies schema_src mappings]) (simp_all add: read_generation_def Let_def)
qed

lemma read_generation_Ok:
  assumes "read_generation lib ttl d = Ok (policy_set, schema, bundle)"
  shows "msg_ttl_seconds bundle = ttl"
    and "msg_version bundle = snapshot_version lib (msg_policies bundle) (msg_entity_schema bundle) (msg_mappings bundle)"
    and "parse_schema (ld_cedar lib) (msg_entity_schema bundle) = Ok schema"
    and "msg_policies bundle \<noteq> [] \<Longrightarrow> parse_policy_set (ld_cedar lib) (msg_policies bundle) = Ok policy_set"
    and "val_passed (ld_validate lib policy_set schema)"
    and "case disk_mappings d of
           None \<Rightarrow> msg_mappings bundle = None
         | Some files \<Rightarrow> \<exists>snap. mappings_load (ld_parse_toml lib) files = Ok snap \<and> msg_mappings bundle = Some snap"
    and "1 + varint_len (ld_encoded_len lib bundle) + ld_encoded_len lib bundle + ld_timestamp_len lib \<le> 16 * 1024 * 1024"
proof -
  obtain policies schema_src mappings where g:
      "read_policies lib (disk_policy_dir d) = Ok (policies, policy_set)"
      "read_schema lib (disk_schema d) = Ok (schema_src, schema)"
      "validate_and_report lib policy_set schema policies = Ok ()"
      "(case disk_mappings d of None \<Rightarrow> Ok None
        | Some files \<Rightarrow> and_then (mappings_load (ld_parse_toml lib) files) (\<lambda>m. Ok (Some m))) = Ok mappings"
      "bundle = \<lparr>msg_version = snapshot_version lib (PolicyFiles_concat policies) schema_src mappings,
         msg_policies = PolicyFiles_concat policies, msg_entity_schema = schema_src, msg_ttl_seconds = ttl,
         msg_mappings = mappings\<rparr>"
      "validate_bundle_size lib bundle = Ok ()"
    using assms by (rule read_generation_parts)
  show "msg_ttl_seconds bundle = ttl"
    "msg_version bundle = snapshot_version lib (msg_policies bundle) (msg_entity_schema bundle) (msg_mappings bundle)"
    by (simp_all add: g(5))
  show "parse_schema (ld_cedar lib) (msg_entity_schema bundle) = Ok schema"
    using g(2) by (auto simp: g(5) read_schema_def and_then_Ok split: option.split_asm)
  show "parse_policy_set (ld_cedar lib) (msg_policies bundle) = Ok policy_set" if "msg_policies bundle \<noteq> []"
    using g(1) that
    by (auto simp: g(5) read_policies_def and_then_Ok PolicyFiles_concat_def split: option.split_asm if_split_asm)
  show "val_passed (ld_validate lib policy_set schema)"
    using g(3) by (auto simp: validate_and_report_def validate_policies_def Let_def and_then_Ok split: if_split_asm)
  show "case disk_mappings d of None \<Rightarrow> msg_mappings bundle = None
      | Some files \<Rightarrow> \<exists>snap. mappings_load (ld_parse_toml lib) files = Ok snap \<and> msg_mappings bundle = Some snap"
    using g(4) by (auto simp: g(5) and_then_Ok split: option.split_asm)
  show "1 + varint_len (ld_encoded_len lib bundle) + ld_encoded_len lib bundle + ld_timestamp_len lib \<le> 16 * 1024 * 1024"
    using g(6) by (simp add: validate_bundle_size_def Let_def split: if_split_asm)
qed

section \<open>Properties\<close>

text \<open>
  C37. A mapping snapshot the Authority publishes is one every sidecar accepts: whatever files it is built
  from, the snapshot compiles on the sidecar, and the compiled table holds exactly the published rules.
\<close>

theorem published_mappings_accepted:
  assumes "mappings_load parse_toml files = Ok snap" and "methods_parse parse_method"
  shows "\<exists>table. compile_mappings parse_method (Some snap) = Ok table
    \<and> set (table_rules table) = (\<lambda>r. compile_rule (config_of r)) ` set (snap_rules snap)"
  using assms by (rule mappings_accepted)

definition sample_authored :: "AuthoredRule list" where
  "sample_authored =
     [\<lparr>ar_method = Some ''GET'', ar_host = '' API.x.com:443 '', ar_path = Some ''/v1/*'', ar_action_class = ''code.read''\<rparr>,
      \<lparr>ar_method = None, ar_host = ''api.x.com'', ar_path = Some [], ar_action_class = ''code.write''\<rparr>]"

theorem published_mappings_accepted_witness:
  "\<exists>snap table. mappings_load (\<lambda>s. Ok sample_authored) [(''m.toml'', Ok [])] = Ok snap
     \<and> length (snap_rules snap) = 1 \<and> compile_mappings Some (Some snap) = Ok table \<and> table_rules table \<noteq> []"
proof -
  have "case mappings_load (\<lambda>s. Ok sample_authored) [(''m.toml'', Ok [])] of
      Ok snap \<Rightarrow> length (snap_rules snap) = 1 | Err e \<Rightarrow> False"
    by code_simp
  then obtain snap where snap: "mappings_load (\<lambda>s. Ok sample_authored) [(''m.toml'', Ok [])] = Ok snap"
      "length (snap_rules snap) = 1"
    by (cases "mappings_load (\<lambda>s. Ok sample_authored) [(''m.toml'', Ok [])]") auto
  have "methods_parse Some" by (simp add: methods_parse_def)
  from published_mappings_accepted [OF snap(1) this] obtain table where
    table: "compile_mappings Some (Some snap) = Ok table"
    "set (table_rules table) = (\<lambda>r. compile_rule (config_of r)) ` set (snap_rules snap)" by (elim exE conjE)
  have "snap_rules snap \<noteq> []" using snap(2) by auto
  then have "set (table_rules table) \<noteq> {}" unfolding table(2) by simp
  then have "table_rules table \<noteq> []" by simp
  then show ?thesis using snap table(1) by blast
qed

lemma reload_generation:
  assumes "read_generation lib (cs_ttl_seconds s) d0 = Ok (cs_policy_set s, cs_schema s, cs_bundle s)"
    and "s' = snd (reload lib d s)"
  shows "cs_ttl_seconds s' = cs_ttl_seconds s"
    and "\<exists>d1 \<in> {d0, d}. read_generation lib (cs_ttl_seconds s') d1 = Ok (cs_policy_set s', cs_schema s', cs_bundle s')"
  using assms by (auto simp: reload_def split: sum.split prod.split)

text \<open>
  The store never mixes generations: after loading and any sequence of reloads, from whatever is on disk
  at each of them, unreadable and invalid inputs included, policy set, schema and published bundle are
  together the generation read at one of those moments.
\<close>

theorem store_holds_one_generation:
  assumes "load_inner lib ttl d0 = Ok s0"
  shows "case fold (\<lambda>d s. snd (reload lib d s)) ds s0 of s \<Rightarrow>
    \<exists>d \<in> set (d0 # ds). read_generation lib ttl d = Ok (cs_policy_set s, cs_schema s, cs_bundle s)"
proof -
  have "cs_ttl_seconds s = ttl \<and> (\<exists>d \<in> set (d0 # ds). read_generation lib ttl d = Ok (cs_policy_set s, cs_schema s, cs_bundle s))"
    if "s = fold (\<lambda>d s. snd (reload lib d s)) ds s0" for s
    using that
  proof (induction ds arbitrary: s rule: rev_induct)
    case Nil
    then show ?case using assms by (auto simp: load_inner_def and_then_Ok)
  next
    case (snoc d ds)
    let ?s = "fold (\<lambda>d s. snd (reload lib d s)) ds s0"
    obtain d1 where "cs_ttl_seconds ?s = ttl" "d1 \<in> set (d0 # ds)"
        "read_generation lib ttl d1 = Ok (cs_policy_set ?s, cs_schema ?s, cs_bundle ?s)" using snoc.IH by blast
    moreover have "s = snd (reload lib d ?s)" using snoc.prems by simp
    ultimately show ?case using reload_generation [of lib ?s d1 s d] by auto
  qed
  then show ?thesis by simp
qed

text \<open>
  A reload publishes what is on disk or nothing. When it fails the store is unchanged; when it succeeds,
  the published policies, schema and encoded mappings are the ones read, also when the version was unchanged
  and nothing was swapped, provided SHA-256 does not collide on the two generations.
\<close>

theorem reload_publishes_disk:
  assumes "read_generation lib (cs_ttl_seconds s) d0 = Ok (cs_policy_set s, cs_schema s, cs_bundle s)"
    and "reload lib d s = (r, s')"
    and "\<And>a b. ld_sha256_hex lib a = ld_sha256_hex lib b \<Longrightarrow>
       a = version_preimage (msg_policies (cs_bundle s)) (msg_entity_schema (cs_bundle s))
             (map_option (ld_encode_mappings lib) (msg_mappings (cs_bundle s))) \<Longrightarrow> a = b"
  shows "case r of
      Err e \<Rightarrow> s' = s
    | Ok _ \<Rightarrow> \<exists>policy_set schema bundle. read_generation lib (cs_ttl_seconds s) d = Ok (policy_set, schema, bundle)
        \<and> msg_policies (cs_bundle s') = msg_policies bundle \<and> msg_entity_schema (cs_bundle s') = msg_entity_schema bundle
        \<and> unwrap_or [] (map_option (ld_encode_mappings lib) (msg_mappings (cs_bundle s'))) =
            unwrap_or [] (map_option (ld_encode_mappings lib) (msg_mappings bundle))"
proof (cases "read_generation lib (cs_ttl_seconds s) d")
  case (Inl e)
  then show ?thesis using assms(2) by (auto simp: reload_def)
next
  case (Inr g)
  obtain policy_set schema "bundle" where g: "g = (policy_set, schema, bundle)" by (cases g)
  note new = read_generation_Ok(2) [OF Inr [unfolded g]] and old = read_generation_Ok(2) [OF assms(1)]
  show ?thesis
  proof (cases "msg_version (cs_bundle s) = msg_version bundle")
    case True
    then have "version_preimage (msg_policies (cs_bundle s)) (msg_entity_schema (cs_bundle s))
          (map_option (ld_encode_mappings lib) (msg_mappings (cs_bundle s))) =
        version_preimage (msg_policies bundle) (msg_entity_schema bundle)
          (map_option (ld_encode_mappings lib) (msg_mappings bundle))"
      using assms(3) old new unfolding snapshot_version_def by simp
    from version_preimage_inject [OF this] show ?thesis
      using True assms(2) Inr g by (auto simp: reload_def)
  next
    case False
    then show ?thesis using assms(2) Inr g by (auto simp: reload_def)
  qed
qed

text \<open>
  Authority and sidecar agree on what a valid generation is, up to annotations: a generation the Authority
  publishes compiles on a sidecar whenever it has a policy statement and its remediation annotations are well
  formed, which the Authority does not look at.
\<close>

theorem published_bundle_accepted:
  assumes "read_generation lib ttl d = Ok (policy_set, schema, bundle)" and "disk_mappings d = Some files"
    and "0 < ttl" and "trim (msg_policies bundle) \<noteq> []" and "msg_entity_schema bundle \<noteq> []"
    and "from_utf8_ok (msg_policies bundle)" and "from_utf8_ok (msg_entity_schema bundle)"
    and "build_remediation_map (ld_cedar lib) policy_set = Ok remediation"
    and "is_valid_version (msg_version bundle)" and "methods_parse parse_method"
  shows "\<exists>snapshot. compile_bundle (ld_cedar lib) parse_method now published bundle = Ok snapshot
    \<and> rs_version snapshot = Some (msg_version bundle)"
proof -
  note g = read_generation_Ok [OF assms(1)]
  obtain snap where snap: "mappings_load (ld_parse_toml lib) files = Ok snap" "msg_mappings bundle = Some snap"
    using g(6) assms(2) by auto
  obtain table where table: "compile_mappings parse_method (Some snap) = Ok table"
    using mappings_accepted [OF snap(1) assms(10)] by blast
  have "msg_policies bundle \<noteq> []" using assms(4) by (auto simp: trim_graphic)
  note p = g(4) [OF this]
  have "\<exists>policy. cedar_parse (ld_cedar lib) now (msg_policies bundle) (msg_entity_schema bundle)
      (msg_ttl_seconds bundle) (msg_version bundle) = Ok policy"
    using assms(4-8) p g(3)
    by (simp add: cedar_parse_def from_bundle_def from_utf8_def PolicyBundle_new_def map_err_def)
  then show ?thesis
    using assms(3,9) g(1) table snap(2) by (auto simp: compile_bundle_def RuntimeSnapshot_new_def)
qed

section \<open>A concrete policy directory\<close>

definition sample_loader ::
  "(string \<Rightarrow> string) \<Rightarrow> CedarPolicy list \<Rightarrow> (CedarPolicy list, unit, json) loader_lib" where
  "sample_loader sha256 policies =
     \<lparr>ld_cedar = sample_cedar_lib policies, ld_empty_set = [],
      ld_validate = (\<lambda>ps sc. \<lparr>val_passed = True, val_errors = [], val_warnings = []\<rparr>),
      ld_parse_toml = (\<lambda>s. Ok sample_authored), ld_encode_mappings = (\<lambda>m. ''m''),
      ld_encoded_len = (\<lambda>b. length (msg_policies b)), ld_timestamp_len = 22, ld_sha256_hex = sha256,
      ld_default_schema = ''schema''\<rparr>"

definition sample_disk :: disk where
  "sample_disk =
     \<lparr>disk_policy_dir = Some (Ok [(''b.cedar'', Ok ''forbid''), (''README'', Err ''locked''), (''a.cedar'', Ok ''permit'')]),
      disk_schema = None, disk_mappings = Some [(''m.toml'', Ok [])]\<rparr>"

definition broken_disk :: disk where
  "broken_disk = sample_disk\<lparr>disk_policy_dir := Some (Ok [(''a.cedar'', Err ''locked'')])\<rparr>"

lemma sample_generation:
  obtains msg where "read_generation (sample_loader sha256 policies) 60 sample_disk = Ok (policies, (), msg)"
    and "msg_policies msg = ''permit'' @ CHR 0x0A # ''forbid''" "msg_entity_schema msg = ''schema''"
    "msg_version msg = sha256 (''13:permit'' @ CHR 0x0A # ''forbid6:schemam'')"
proof -
  have "case read_generation (sample_loader sha256 policies) 60 sample_disk of
      Ok (_, _, msg) \<Rightarrow> msg_policies msg = ''permit'' @ CHR 0x0A # ''forbid'' \<and> msg_entity_schema msg = ''schema''
        \<and> msg_version msg = sha256 (''13:permit'' @ CHR 0x0A # ''forbid6:schemam'')
    | Err _ \<Rightarrow> False"
    by code_simp
  then obtain ps msg where g: "read_generation (sample_loader sha256 policies) 60 sample_disk = Ok (ps, (), msg)"
      "msg_policies msg = ''permit'' @ CHR 0x0A # ''forbid''" "msg_entity_schema msg = ''schema''"
      "msg_version msg = sha256 (''13:permit'' @ CHR 0x0A # ''forbid6:schemam'')"
    by (cases "read_generation (sample_loader sha256 policies) 60 sample_disk") auto
  have "ps = policies" using read_generation_Ok(4) [OF g(1)] g(2) by (simp add: sample_loader_def sample_cedar_lib_def)
  then show ?thesis using g by (intro that [of msg]) simp_all
qed

definition sample_policy_store :: "BundleMsg \<Rightarrow> (CedarPolicy list, unit) CedarPolicyStore" where
  "sample_policy_store msg = \<lparr>cs_policy_set = [], cs_schema = (), cs_bundle = msg, cs_ttl_seconds = 60\<rparr>"

theorem store_holds_one_generation_witness:
  "\<exists>s0. load_inner (sample_loader id []) 60 sample_disk = Ok s0
     \<and> (case fold (\<lambda>d s. snd (reload (sample_loader id []) d s)) [broken_disk, sample_disk] s0 of s \<Rightarrow>
          \<exists>d \<in> set [sample_disk, broken_disk, sample_disk].
            read_generation (sample_loader id []) 60 d = Ok (cs_policy_set s, cs_schema s, cs_bundle s))"
proof -
  obtain msg where "read_generation (sample_loader id []) 60 sample_disk = Ok ([], (), msg)"
    by (rule sample_generation [of id "[]"])
  then have load: "load_inner (sample_loader id []) 60 sample_disk = Ok (sample_policy_store msg)"
    by (simp add: load_inner_def sample_policy_store_def)
  from store_holds_one_generation [OF load, of "[broken_disk, sample_disk]"] load show ?thesis by blast
qed

theorem reload_publishes_disk_witness:
  "\<exists>s. fst (reload (sample_loader id []) sample_disk s) = Ok ()
     \<and> msg_policies (cs_bundle (snd (reload (sample_loader id []) sample_disk s))) = ''permit'' @ CHR 0x0A # ''forbid''"
proof -
  obtain msg where g: "read_generation (sample_loader id []) 60 sample_disk = Ok ([], (), msg)"
      "msg_policies msg = ''permit'' @ CHR 0x0A # ''forbid''"
    by (rule sample_generation [of id "[]"])
  let ?s = "sample_policy_store msg"
  have r: "reload (sample_loader id []) sample_disk ?s = (Ok (), snd (reload (sample_loader id []) sample_disk ?s))"
    using g(1) by (simp add: reload_def sample_policy_store_def)
  have gen: "read_generation (sample_loader id []) (cs_ttl_seconds ?s) sample_disk =
      Ok (cs_policy_set ?s, cs_schema ?s, cs_bundle ?s)"
    using g(1) by (simp add: sample_policy_store_def)
  have sha: "ld_sha256_hex (sample_loader id []) = id" by (simp add: sample_loader_def)
  have "fst (reload (sample_loader id []) sample_disk ?s) = Ok ()" by (subst r) simp
  moreover have "msg_policies (cs_bundle (snd (reload (sample_loader id []) sample_disk ?s))) = ''permit'' @ CHR 0x0A # ''forbid''"
    using reload_publishes_disk [OF gen r] g by (simp add: sha) (simp add: sample_policy_store_def)
  ultimately show ?thesis by blast
qed

theorem published_bundle_accepted_witness:
  "\<exists>msg. read_generation (sample_loader (\<lambda>_. ''v1'') []) 60 sample_disk = Ok ([], (), msg)
     \<and> (\<exists>snapshot. compile_bundle (sample_cedar_lib []) Some 5 (cl_published (client_init sample_normalizer 0 sample_revocations)) msg = Ok snapshot \<and> rs_version snapshot = Some ''v1'')"
proof -
  obtain msg where g: "read_generation (sample_loader (\<lambda>_. ''v1'') []) 60 sample_disk = Ok ([], (), msg)"
      "msg_policies msg = ''permit'' @ CHR 0x0A # ''forbid''" "msg_entity_schema msg = ''schema''" "msg_version msg = ''v1''"
    by (rule sample_generation [of "\<lambda>_. ''v1''" "[]"])
  have "trim (msg_policies msg) \<noteq> []" "from_utf8_ok (msg_policies msg)" "from_utf8_ok (msg_entity_schema msg)"
    "is_valid_version (msg_version msg)"
    unfolding g(2-4) by code_simp+
  moreover have "ld_cedar (sample_loader (\<lambda>_. ''v1'') []) = sample_cedar_lib []" by (simp add: sample_loader_def)
  moreover have "build_remediation_map (sample_cedar_lib []) [] = Ok Map.empty"
    by (simp add: build_remediation_map_def sample_cedar_lib_def)
  moreover have "methods_parse Some" by (simp add: methods_parse_def)
  ultimately show ?thesis
    using published_bundle_accepted [OF g(1), of "[(''m.toml'', Ok [])]" Map.empty Some 5 "cl_published (client_init sample_normalizer 0 sample_revocations)"] g
    by (simp add: sample_disk_def)
qed

text \<open>
  A policy with a malformed annotation passes the Authority's validation and is published, while the sidecar
  refuses the generation.
\<close>

definition bad_annotation :: CedarPolicy where
  "bad_annotation = \<lparr>cp_id = ''policy0'', cp_effect = Forbid, cp_annotation = [''defer'' \<mapsto> ''soon'']\<rparr>"

lemma malformed_annotation_published:
  "\<exists>msg. read_generation (sample_loader (\<lambda>_. ''v1'') [bad_annotation]) 60 sample_disk = Ok ([bad_annotation], (), msg)
     \<and> \<not> is_ok (compile_bundle (sample_cedar_lib [bad_annotation]) Some 5 published msg)"
proof -
  obtain msg where g: "read_generation (sample_loader (\<lambda>_. ''v1'') [bad_annotation]) 60 sample_disk = Ok ([bad_annotation], (), msg)"
      "msg_policies msg = ''permit'' @ CHR 0x0A # ''forbid''" "msg_entity_schema msg = ''schema''"
    by (rule sample_generation [of "\<lambda>_. ''v1''" "[bad_annotation]"])
  have "\<not> is_ok (cedar_parse (sample_cedar_lib [bad_annotation]) 5 (''permit'' @ CHR 0x0A # ''forbid'') ''schema'' ttl v)" for ttl v
    by code_simp
  then have "\<not> is_ok (cedar_parse (sample_cedar_lib [bad_annotation]) 5 (msg_policies msg) (msg_entity_schema msg)
      (msg_ttl_seconds msg) (msg_version msg))"
    using g by simp
  then show ?thesis
    using g(1) by (intro exI [of _ msg]) (auto simp: compile_bundle_def is_ok_iff and_then_Ok)
qed

end
