(* ===== verification/Authority_Revocation.thy ===== *)
theory Authority_Revocation
  imports Envelope Line_Log "HOL-Library.Product_Lexorder" "HOL-Library.Multiset"
begin

text \<open>
  The Authority's revocation store: the file of revoked tokens, the in-memory set that is derived from it,
  and the sets the Authority streams to its sidecars (\<^verbatim>\<open>firma-authority/src/revocation.rs\<close>, the
  revocation messages of \<^verbatim>\<open>service.rs\<close> and the commands of \<^verbatim>\<open>firma/src/services/authority.rs\<close>).

  Token identifiers are their canonical text, whose order is the order of the identifiers.  The parser of
  identifiers and RFC 3339 are parameters, collected in \<open>revocation_lib\<close>.  The hash map of entries is
  an association list in insertion order; what leaves it is sorted.  Times are nanoseconds.
\<close>

section \<open>The store\<close>

record RevocationEntry =
  re_token_id :: token_id
  re_reason :: string
  re_timestamp :: datetime

record RevocationStore =
  rv_entries :: "(token_id \<times> RevocationEntry) list"
  rv_token_ttl :: int
  rv_skew_margin :: int

record revocation_lib =
  rl_parse_token_id :: "string \<Rightarrow> token_id option"
  rl_to_rfc3339 :: "datetime \<Rightarrow> string"
  rl_parse_from_rfc3339 :: "string \<Rightarrow> datetime option"

definition REVOCATION_SET_SKEW_MARGIN :: int where
  "REVOCATION_SET_SKEW_MARGIN = 5 * 60 * 1000000000"

text \<open>\<^verbatim>\<open>line.splitn(3, tab)\<close>: the first part, and the second and third where there are any.\<close>

definition splitn3 :: "string \<Rightarrow> string \<times> (string \<times> string option) option" where
  "splitn3 line =
     (case split_once (CHR 0x09) line of
        None \<Rightarrow> (line, None)
      | Some (a, rest) \<Rightarrow>
          (case split_once (CHR 0x09) rest of
             None \<Rightarrow> (a, Some (rest, None))
           | Some (b, c) \<Rightarrow> (a, Some (b, Some c))))"

definition parse_line :: "revocation_lib \<Rightarrow> string \<Rightarrow> datetime \<Rightarrow> RevocationEntry option" where
  "parse_line lib raw fallback_timestamp =
     (let line = trim raw in
      if line = [] then None
      else
        (case splitn3 line of (raw_id, rest) \<Rightarrow>
           (case rl_parse_token_id lib raw_id of
              None \<Rightarrow> None
            | Some token \<Rightarrow>
                (case rest of
                   Some (raw_ts, Some reason) \<Rightarrow>
                     Some \<lparr>re_token_id = token, re_reason = reason,
                           re_timestamp = unwrap_or fallback_timestamp (rl_parse_from_rfc3339 lib raw_ts)\<rparr>
                 | _ \<Rightarrow>
                     Some \<lparr>re_token_id = token, re_reason = ''file-based revocation'',
                           re_timestamp = fallback_timestamp\<rparr>))))"

definition entry_is_expired :: "RevocationStore \<Rightarrow> RevocationEntry \<Rightarrow> datetime \<Rightarrow> bool" where
  "entry_is_expired self entry now \<longleftrightarrow> re_timestamp entry + rv_token_ttl self + rv_skew_margin self < now"

definition contains_key :: "RevocationStore \<Rightarrow> token_id \<Rightarrow> bool" where
  "contains_key self t \<longleftrightarrow> map_of (rv_entries self) t \<noteq> None"

text \<open>One line of the loops of \<^verbatim>\<open>load_from_content\<close> and \<^verbatim>\<open>reload_from_file\<close>, with the entries it adds.\<close>

definition ingest_line ::
  "revocation_lib \<Rightarrow> datetime \<Rightarrow> string \<Rightarrow> RevocationStore \<times> RevocationEntry list
    \<Rightarrow> RevocationStore \<times> RevocationEntry list" where
  "ingest_line lib now line st =
     (case st of (self, new_entries) \<Rightarrow>
        case parse_line lib line now of
          None \<Rightarrow> (self, new_entries)
        | Some entry \<Rightarrow>
            if entry_is_expired self entry now then (self, new_entries)
            else if contains_key self (re_token_id entry) then (self, new_entries)
            else (self\<lparr>rv_entries := rv_entries self @ [(re_token_id entry, entry)]\<rparr>, new_entries @ [entry]))"

definition load_from_content :: "revocation_lib \<Rightarrow> datetime \<Rightarrow> RevocationStore \<Rightarrow> string \<Rightarrow> nat \<times> RevocationStore" where
  "load_from_content lib now self content =
     (case fold (ingest_line lib now) (read_lines content) (self, []) of
        (self', new_entries) \<Rightarrow> (length new_entries, self'))"

text \<open>What reading the file gives; the error is the one of the file system.\<close>

datatype file_read = FileNotFound | ReadFailed string | FileContent string

definition reload_from_file ::
  "revocation_lib \<Rightarrow> datetime \<Rightarrow> RevocationStore \<Rightarrow> file_read
    \<Rightarrow> (string, RevocationEntry list) result \<times> RevocationStore" where
  "reload_from_file lib now self file =
     (case file of
        FileNotFound \<Rightarrow> (Ok [], self)
      | ReadFailed e \<Rightarrow> (Err (''cannot read revocation file: '' @ e), self)
      | FileContent content \<Rightarrow>
          (case fold (ingest_line lib now) (read_lines content) (self, []) of
             (self', new_entries) \<Rightarrow> (Ok new_entries, self')))"

text \<open>
  Loading takes the lock with \<^verbatim>\<open>RwLock::blocking_write\<close>, which panics when the calling thread is driving
  asynchronous tasks.
\<close>

datatype 'a outcome = Returned 'a | Panicked

definition RevocationStore_try_new ::
  "revocation_lib \<Rightarrow> bool \<Rightarrow> datetime \<Rightarrow> int \<Rightarrow> file_read \<Rightarrow> (string, RevocationStore) result outcome" where
  "RevocationStore_try_new lib in_async now ttl file =
     (let store = \<lparr>rv_entries = [], rv_token_ttl = ttl, rv_skew_margin = REVOCATION_SET_SKEW_MARGIN\<rparr> in
      case file of
        FileNotFound \<Rightarrow> Returned (Ok store)
      | ReadFailed e \<Rightarrow> Returned (Err (''cannot read revocation file: '' @ e))
      | FileContent content \<Rightarrow>
          if list_ex (\<lambda>l. trim l \<noteq> []) (read_lines content)
          then if in_async then Panicked else Returned (Ok (snd (load_from_content lib now store content)))
          else Returned (Ok store))"

definition entry_line_of :: "revocation_lib \<Rightarrow> token_id \<Rightarrow> datetime \<Rightarrow> string \<Rightarrow> string" where
  "entry_line_of lib t revoked_at reason = t @ CHR 0x09 # rl_to_rfc3339 lib revoked_at @ CHR 0x09 # reason"

text \<open>
  \<open>opened\<close> is what opening the file gives, and \<open>written\<close> how many bytes of the line reach it when the write
  fails.  The file is absent before the first revocation.
\<close>

definition revoke ::
  "revocation_lib \<Rightarrow> datetime \<Rightarrow> RevocationStore \<Rightarrow> (string, unit) result \<Rightarrow> nat option \<Rightarrow> token_id \<Rightarrow> string
    \<Rightarrow> string option \<Rightarrow> (string, unit) result \<times> string option" where
  "revoke lib now self opened written t reason file =
     (if contains_key self t then (Ok (), file)
      else
        (case opened of
           Inl e \<Rightarrow> (Err (''cannot open revocation file: '' @ e), file)
         | Inr _ \<Rightarrow>
             let line = entry_line_of lib t now reason @ [CHR 0x0A];
                 content = unwrap_or [] file
             in (case written of
                   None \<Rightarrow> (Ok (), Some (content @ line))
                 | Some n \<Rightarrow> (Err ''cannot write to revocation file'', Some (content @ take n line)))))"

definition is_revoked_token :: "RevocationStore \<Rightarrow> token_id \<Rightarrow> bool" where
  "is_revoked_token self t = contains_key self t"

definition live_entries :: "RevocationStore \<Rightarrow> datetime \<Rightarrow> RevocationEntry list" where
  "live_entries self now = filter (\<lambda>e. \<not> entry_is_expired self e now) (map snd (rv_entries self))"

definition current_set :: "RevocationStore \<Rightarrow> datetime \<Rightarrow> RevocationEntry list" where
  "current_set self now = sort_key (\<lambda>e. (re_timestamp e, re_token_id e)) (live_entries self now)"

text \<open>
  \<open>created\<close> is what creating, and so emptying, the file gives, and \<open>written\<close> how many bytes of the new
  content reach it when a write fails.
\<close>

definition compacted :: "revocation_lib \<Rightarrow> RevocationStore \<Rightarrow> datetime \<Rightarrow> string" where
  "compacted lib self now =
     concat (sort (map (\<lambda>e. entry_line_of lib (re_token_id e) (re_timestamp e) (re_reason e) @ [CHR 0x0A])
       (live_entries self now)))"

definition compact_file ::
  "revocation_lib \<Rightarrow> datetime \<Rightarrow> RevocationStore \<Rightarrow> (string, unit) result \<Rightarrow> nat option \<Rightarrow> string option
    \<Rightarrow> (string, unit) result \<times> string option" where
  "compact_file lib now self created written file =
     (case created of
        Inl e \<Rightarrow> (Err (''cannot compact revocation file: '' @ e), file)
      | Inr _ \<Rightarrow>
          (case written of
             None \<Rightarrow> (Ok (), Some (compacted lib self now))
           | Some n \<Rightarrow> (Err ''cannot compact revocation file'', Some (take n (compacted lib self now)))))"

section \<open>Messages\<close>

record proto_timestamp =
  ts_seconds :: int
  ts_nanos :: int

definition to_proto_timestamp :: "datetime \<Rightarrow> proto_timestamp" where
  "to_proto_timestamp dt = \<lparr>ts_seconds = dt div 1000000000, ts_nanos = dt mod 1000000000\<rparr>"

record RevocationEvent =
  ev_token_id :: string
  ev_reason :: string
  ev_timestamp :: "proto_timestamp option"

definition entry_to_proto :: "RevocationEntry \<Rightarrow> RevocationEvent" where
  "entry_to_proto entry =
     \<lparr>ev_token_id = re_token_id entry, ev_reason = re_reason entry,
      ev_timestamp = Some (to_proto_timestamp (re_timestamp entry))\<rparr>"

definition set_to_proto :: "RevocationEntry list \<Rightarrow> RevocationEvent list" where
  "set_to_proto entries = map entry_to_proto entries"

section \<open>The commands\<close>

text \<open>
  \<^verbatim>\<open>run_revoke\<close> and \<^verbatim>\<open>run_compact\<close> open a store of their own on the file.  \<open>in_async\<close> tells whether the
  thread drives asynchronous tasks, as the thread of the command does.
\<close>

definition file_contents :: "string option \<Rightarrow> file_read" where
  "file_contents file = (case file of None \<Rightarrow> FileNotFound | Some c \<Rightarrow> FileContent c)"

definition run_revoke ::
  "revocation_lib \<Rightarrow> bool \<Rightarrow> datetime \<Rightarrow> int \<Rightarrow> (string, unit) result \<Rightarrow> nat option \<Rightarrow> token_id \<Rightarrow> string
    \<Rightarrow> string option \<Rightarrow> (string, unit) result outcome \<times> string option" where
  "run_revoke lib in_async now ttl opened written t reason file =
     (case RevocationStore_try_new lib in_async now ttl (file_contents file) of
        Panicked \<Rightarrow> (Panicked, file)
      | Returned (Inl e) \<Rightarrow> (Returned (Err (''failed to open revocation store: '' @ e)), file)
      | Returned (Inr store) \<Rightarrow>
          (case revoke lib now store opened written t reason file of
             (r, file') \<Rightarrow> (Returned (map_err ((@) ''failed to revoke token: '') r), file')))"

definition run_compact ::
  "revocation_lib \<Rightarrow> bool \<Rightarrow> datetime \<Rightarrow> int \<Rightarrow> (string, unit) result \<Rightarrow> nat option
    \<Rightarrow> string option \<Rightarrow> (string, unit) result outcome \<times> string option" where
  "run_compact lib in_async now ttl created written file =
     (case RevocationStore_try_new lib in_async now ttl (file_contents file) of
        Panicked \<Rightarrow> (Panicked, file)
      | Returned (Inl e) \<Rightarrow> (Returned (Err (''failed to open revocation store: '' @ e)), file)
      | Returned (Inr store) \<Rightarrow>
          (case compact_file lib now store created written file of
             (r, file') \<Rightarrow> (Returned (map_err ((@) ''failed to compact revocation file: '') r), file')))"

section \<open>Lines and entries\<close>

text \<open>An entry that prints to one line of the file and parses from it.\<close>

definition entry_prints :: "revocation_lib \<Rightarrow> RevocationEntry \<Rightarrow> bool" where
  "entry_prints lib e \<longleftrightarrow>
     re_token_id e \<noteq> [] \<and> list_all is_ascii_graphic (re_token_id e)
   \<and> rl_parse_token_id lib (re_token_id e) = Some (re_token_id e)
   \<and> list_all is_ascii_graphic (rl_to_rfc3339 lib (re_timestamp e))
   \<and> rl_parse_from_rfc3339 lib (rl_to_rfc3339 lib (re_timestamp e)) = Some (re_timestamp e)
   \<and> re_reason e \<noteq> [] \<and> trim (re_reason e) = re_reason e \<and> CHR 0x0A \<notin> set (re_reason e)"

abbreviation print_entry_line :: "revocation_lib \<Rightarrow> RevocationEntry \<Rightarrow> string" where
  "print_entry_line lib e \<equiv> entry_line_of lib (re_token_id e) (re_timestamp e) (re_reason e)"

lemma graphic_free:
  assumes "list_all is_ascii_graphic s"
  shows "CHR 0x09 \<notin> set s" "CHR 0x0A \<notin> set s"
  using assms by (auto simp: list_all_iff is_ascii_graphic_def byte_val_def)

lemma trimmed_no_return:
  assumes "trim r = r"
  shows "\<not> suffix [CHR 0x0D] r"
proof
  assume "suffix [CHR 0x0D] r"
  then obtain x where "rev r = CHR 0x0D # rev x" by (auto simp: suffix_def)
  then have "ws_last (byte_val (CHR 0x0D) # map byte_val (rev x)) = 0" using trim_fixed_last [OF assms] by simp
  moreover have "ws1 (byte_val (CHR 0x0D))" by (simp add: ws1_def byte_val_def)
  ultimately show False by (cases "rev x"; cases "tl (rev x)") simp_all
qed

lemma parse_printed_entry:
  assumes "entry_prints lib e"
  shows "parse_line lib (print_entry_line lib e) now = Some e"
proof -
  note e = assms [unfolded entry_prints_def]
  let ?x = "re_token_id e @ CHR 0x09 # rl_to_rfc3339 lib (re_timestamp e)"
  have "is_ascii_graphic (hd (re_token_id e))" using e by (cases "re_token_id e") auto
  then have "trim (?x @ CHR 0x09 # re_reason e) = ?x @ CHR 0x09 # re_reason e"
    using e by (intro trim_fields) simp_all
  then have "trim (print_entry_line lib e) = print_entry_line lib e" by (simp add: entry_line_of_def)
  moreover have "splitn3 (print_entry_line lib e) =
      (re_token_id e, Some (rl_to_rfc3339 lib (re_timestamp e), Some (re_reason e)))"
    using e by (simp add: splitn3_def entry_line_of_def split_once_append graphic_free)
  ultimately show ?thesis using e by (simp add: parse_line_def entry_line_of_def)
qed

interpretation revocation_file: line_log "entry_prints lib" "print_entry_line lib" "\<lambda>line. parse_line lib line now"
proof
  fix e assume e: "entry_prints lib e"
  have "\<not> suffix [CHR 0x0D] (print_entry_line lib e)"
    using e trimmed_no_return [of "re_reason e"]
    by (cases "re_reason e" rule: rev_cases)
      (auto simp: entry_prints_def entry_line_of_def suffix_def append_eq_append_conv2 Cons_eq_append_conv)
  then show "CHR 0x0A \<notin> set (print_entry_line lib e) \<and> \<not> suffix [CHR 0x0D] (print_entry_line lib e)"
    using e by (simp add: entry_prints_def entry_line_of_def graphic_free)
qed (rule parse_printed_entry)

section \<open>Ingesting a file\<close>

lemma expired_same [simp]: "entry_is_expired (self\<lparr>rv_entries := x\<rparr>) e now = entry_is_expired self e now"
  by (simp add: entry_is_expired_def)

text \<open>
  What a token is known as after a file was read: as before, and otherwise by its first unexpired line.
\<close>

definition file_entries :: "revocation_lib \<Rightarrow> datetime \<Rightarrow> string \<Rightarrow> RevocationEntry list" where
  "file_entries lib now content = List.map_filter (\<lambda>line. parse_line lib line now) (read_lines content)"

definition first_live :: "RevocationStore \<Rightarrow> datetime \<Rightarrow> token_id \<Rightarrow> RevocationEntry list \<Rightarrow> RevocationEntry option" where
  "first_live self now t es = find (\<lambda>e. re_token_id e = t \<and> \<not> entry_is_expired self e now) es"

lemma ingest_same: "first_live (self\<lparr>rv_entries := x\<rparr>) = first_live self"
  by (simp add: first_live_def fun_eq_iff)

lemma ingest_lookup:
  "map_of (rv_entries (fst (fold (ingest_line lib now) ls (self, new)))) t =
     (case map_of (rv_entries self) t of
        Some e \<Rightarrow> Some e
      | None \<Rightarrow> first_live self now t (List.map_filter (\<lambda>line. parse_line lib line now) ls))"
proof (induction ls arbitrary: self new)
  case Nil
  then show ?case by (simp add: first_live_def split: option.split)
next
  case (Cons l ls)
  show ?case
  proof (cases "parse_line lib l now")
    case None
    then have "ingest_line lib now l (self, new) = (self, new)" by (simp add: ingest_line_def)
    then show ?thesis using Cons.IH [of self new] None
      by (cases "map_of (rv_entries self) t") (simp_all add: List.map_filter_simps)
  next
    case (Some e)
    show ?thesis
    proof (cases "entry_is_expired self e now \<or> contains_key self (re_token_id e)")
      case True
      then have "ingest_line lib now l (self, new) = (self, new)" by (auto simp: ingest_line_def Some)
      with True Some show ?thesis
        using Cons.IH [of self new] by (auto simp: first_live_def contains_key_def List.map_filter_simps split: option.split)
    next
      case False
      let ?self = "self\<lparr>rv_entries := rv_entries self @ [(re_token_id e, e)]\<rparr>"
      have "ingest_line lib now l (self, new) = (?self, new @ [e])" using False by (simp add: ingest_line_def Some)
      with False Some show ?thesis
        using Cons.IH [of ?self "new @ [e]"]
        by (auto simp: first_live_def contains_key_def map_add_def ingest_same List.map_filter_simps split: option.split)
    qed
  qed
qed

lemma ingest_fields:
  "rv_token_ttl (fst (fold (ingest_line lib now) ls (self, new))) = rv_token_ttl self"
  "rv_skew_margin (fst (fold (ingest_line lib now) ls (self, new))) = rv_skew_margin self"
  by (induction ls arbitrary: self new) (auto simp: ingest_line_def split: option.split)

lemma ingest_new:
  "length (snd (fold (ingest_line lib now) ls (self, new))) + length (rv_entries self) =
     length (rv_entries (fst (fold (ingest_line lib now) ls (self, new)))) + length new"
proof (induction ls arbitrary: self new)
  case (Cons l ls)
  obtain self' new' where i: "ingest_line lib now l (self, new) = (self', new')" by fastforce
  then have "length new' + length (rv_entries self) = length (rv_entries self') + length new"
    by (auto simp: ingest_line_def split: option.splits if_splits)
  then show ?case using Cons [of self' new'] i by simp
qed simp

text \<open>Keys are distinct and are the identifiers of their entries.\<close>

definition store_wf :: "RevocationStore \<Rightarrow> bool" where
  "store_wf self \<longleftrightarrow> distinct (map fst (rv_entries self)) \<and> (\<forall>(t, e) \<in> set (rv_entries self). re_token_id e = t)"

lemma ingest_wf: "store_wf self \<Longrightarrow> store_wf (fst (fold (ingest_line lib now) ls (self, new)))"
proof (induction ls arbitrary: self new)
  case (Cons l ls)
  obtain self' new' where i: "ingest_line lib now l (self, new) = (self', new')" by fastforce
  have "store_wf self'"
    using i Cons.prems
    by (auto simp: ingest_line_def store_wf_def contains_key_def map_of_eq_None_iff split: option.splits if_splits)
  then show ?case using Cons.IH i by simp
qed simp

lemma live_entries_iff:
  assumes "store_wf self"
  shows "e \<in> set (live_entries self now) \<longleftrightarrow>
    map_of (rv_entries self) (re_token_id e) = Some e \<and> \<not> entry_is_expired self e now"
  using assms by (auto simp: live_entries_def store_wf_def image_iff dest: map_of_SomeD) force

lemma live_entries_distinct:
  assumes "store_wf self"
  shows "distinct (map re_token_id (live_entries self now))"
proof -
  have "map (re_token_id \<circ> snd) (rv_entries self) = map fst (rv_entries self)"
    using assms by (auto simp: store_wf_def)
  then have "distinct (map re_token_id (map snd (rv_entries self)))"
    using assms unfolding store_wf_def map_map by metis
  then show ?thesis unfolding live_entries_def by (rule distinct_map_filter)
qed

section \<open>The file and its processes\<close>

text \<open>
  The serving Authority reloads the file when it changes, and the commands run in processes of their own:
  a revocation appends to the file, a compaction reads it and later replaces it.  Operators may also edit
  the file.  A reload may find the file unreadable.
\<close>

record authority =
  au_file :: "string option"
  au_server :: RevocationStore
  au_compactor :: "RevocationStore option"

inductive authority_step :: "revocation_lib \<Rightarrow> bool \<Rightarrow> int \<Rightarrow> authority \<Rightarrow> authority \<Rightarrow> bool"
  for lib in_async ttl where
  revoked: "run_revoke lib in_async now ttl opened written t reason (au_file a) = (r, file') \<Longrightarrow>
     authority_step lib in_async ttl a (a\<lparr>au_file := file'\<rparr>)"
| reloaded: "f = file_contents (au_file a) \<or> f = ReadFailed e \<Longrightarrow>
     reload_from_file lib now (au_server a) f = (r, server') \<Longrightarrow>
     authority_step lib in_async ttl a (a\<lparr>au_server := server'\<rparr>)"
| compact_opened: "RevocationStore_try_new lib in_async now ttl (file_contents (au_file a)) = Returned (Ok store) \<Longrightarrow>
     authority_step lib in_async ttl a (a\<lparr>au_compactor := Some store\<rparr>)"
| compact_written: "au_compactor a = Some store \<Longrightarrow>
     compact_file lib now store created written (au_file a) = (r, file') \<Longrightarrow>
     authority_step lib in_async ttl a (a\<lparr>au_file := file', au_compactor := None\<rparr>)"
| edited: "authority_step lib in_async ttl a (a\<lparr>au_file := file'\<rparr>)"

inductive_cases authority_stepE: "authority_step lib in_async ttl a b"

lemma reload_server:
  assumes "reload_from_file lib now self f = (r, self')"
  shows "rv_token_ttl self' = rv_token_ttl self \<and> rv_skew_margin self' = rv_skew_margin self"
    and "store_wf self \<Longrightarrow> store_wf self'"
    and "map_of (rv_entries self) t = Some e \<Longrightarrow> map_of (rv_entries self') t = Some e"
proof -
  consider "self' = self" | content where "f = FileContent content"
      "self' = fst (fold (ingest_line lib now) (read_lines content) (self, []))"
    using assms by (cases f) (auto simp: reload_from_file_def split: prod.splits)
  then have all: "rv_token_ttl self' = rv_token_ttl self \<and> rv_skew_margin self' = rv_skew_margin self
    \<and> (store_wf self \<longrightarrow> store_wf self') \<and> (map_of (rv_entries self) t = Some e \<longrightarrow> map_of (rv_entries self') t = Some e)"
    by cases (simp_all add: ingest_fields ingest_wf ingest_lookup)
  then show "rv_token_ttl self' = rv_token_ttl self \<and> rv_skew_margin self' = rv_skew_margin self"
    and "store_wf self \<Longrightarrow> store_wf self'"
    and "map_of (rv_entries self) t = Some e \<Longrightarrow> map_of (rv_entries self') t = Some e" by simp_all
qed

lemma step_server:
  assumes "authority_step lib in_async ttl a b"
  shows "rv_token_ttl (au_server b) = rv_token_ttl (au_server a)"
    and "rv_skew_margin (au_server b) = rv_skew_margin (au_server a)"
    and "store_wf (au_server a) \<Longrightarrow> store_wf (au_server b)"
    and "map_of (rv_entries (au_server a)) t = Some e \<Longrightarrow> map_of (rv_entries (au_server b)) t = Some e"
  using assms by (auto elim!: authority_stepE dest: reload_server)

lemma reach_server:
  assumes "(authority_step lib in_async ttl)\<^sup>*\<^sup>* a b"
  shows "rv_token_ttl (au_server b) = rv_token_ttl (au_server a)
    \<and> rv_skew_margin (au_server b) = rv_skew_margin (au_server a)
    \<and> (store_wf (au_server a) \<longrightarrow> store_wf (au_server b))
    \<and> (map_of (rv_entries (au_server a)) t = Some e \<longrightarrow> map_of (rv_entries (au_server b)) t = Some e)"
  using assms
proof induction
  case (step b c)
  then show ?case using step_server [OF step.hyps(2)] by simp
qed simp

lemma set_current: "set (current_set self now) = set (live_entries self now)"
  by (simp add: current_set_def)

lemma delivered_while_live:
  assumes "(authority_step lib in_async ttl)\<^sup>*\<^sup>* a b" and "store_wf (au_server a)"
    and "map_of (rv_entries (au_server a)) t = Some e"
    and "issued_at \<le> re_timestamp e" and "expiry \<le> issued_at + rv_token_ttl (au_server a)"
    and "now \<le> sidecar_clock + rv_skew_margin (au_server a)" and "sidecar_clock < expiry"
  shows "e \<in> set (current_set (au_server b) now) \<and> re_token_id e = t"
proof -
  note r = reach_server [OF assms(1), of t e]
  have t: "re_token_id e = t" using assms(2,3) by (auto simp: store_wf_def dest: map_of_SomeD)
  have "\<not> entry_is_expired (au_server b) e now" using r assms(4-7) by (simp add: entry_is_expired_def)
  then show ?thesis using r assms(2,3) t by (simp add: set_current live_entries_iff)
qed

section \<open>Properties\<close>

text \<open>
  The Authority keeps sending a revocation for as long as any sidecar could accept the token. Once the
  server has ingested a revocation, then whatever commands, edits, compactions and failed reloads follow,
  every set it streams names the token while the token is unexpired on a sidecar clock that lags by at most
  the margin, given a token no longer lived than the configured maximum.
\<close>

theorem live_revocation_delivered:
  assumes "(authority_step lib in_async ttl)\<^sup>*\<^sup>* a b" and "store_wf (au_server a)"
    and "map_of (rv_entries (au_server a)) t = Some e"
    and "issued_at \<le> re_timestamp e" and "expiry \<le> issued_at + rv_token_ttl (au_server a)"
    and "now \<le> sidecar_clock + rv_skew_margin (au_server a)" and "sidecar_clock < expiry"
  shows "t \<in> ev_token_id ` set (set_to_proto (current_set (au_server b) now))"
  using delivered_while_live [OF assms] by (force simp: set_to_proto_def entry_to_proto_def)

lemma first_live_distinct:
  assumes "distinct (map re_token_id es)"
  shows "first_live self now t es = Some e \<longleftrightarrow> e \<in> set es \<and> re_token_id e = t \<and> \<not> entry_is_expired self e now"
  using assms by (induction es) (auto simp: first_live_def)

lemma option_eqI: "(\<And>e. a = Some e \<longleftrightarrow> b = Some e) \<Longrightarrow> a = b"
  by (cases a; cases b) auto

lemma compacted_lines:
  obtains es where "compacted lib self now = concat (map (\<lambda>e. print_entry_line lib e @ [CHR 0x0A]) es)"
    and "mset es = mset (live_entries self now)"
proof -
  let ?p = "\<lambda>e. print_entry_line lib e @ [CHR 0x0A]" and ?live = "live_entries self now"
  have "sort (map ?p ?live) = map ?p (sort_key ?p ?live)"
    by (rule properties_for_sort) simp_all
  then show ?thesis by (intro that [of "sort_key ?p ?live"]) (simp_all add: compacted_def)
qed

text \<open>
  C36. Compacting the file loses nothing that is still needed: loading the compacted file into a fresh store,
  then or later, gives for every token exactly the entry the store had, with its time and reason, unless
  that entry has expired by then.
\<close>

theorem compaction_preserves:
  assumes "store_wf self" and "\<forall>e \<in> set (live_entries self now). entry_prints lib e" and "now \<le> later"
  shows "map_of (rv_entries (snd (load_from_content lib later (self\<lparr>rv_entries := []\<rparr>) (compacted lib self now)))) t =
    (case map_of (rv_entries self) t of
       None \<Rightarrow> None
     | Some e \<Rightarrow> if entry_is_expired self e later then None else Some e)"
proof -
  obtain es where es: "compacted lib self now = concat (map (\<lambda>e. print_entry_line lib e @ [CHR 0x0A]) es)"
      "mset es = mset (live_entries self now)" by (rule compacted_lines)
  have mem: "set es = set (live_entries self now)" using es(2) by (rule mset_eq_setD)
  have "mset (map re_token_id es) = mset (map re_token_id (live_entries self now))" using es(2) by simp
  then have dist: "distinct (map re_token_id es)"
    using live_entries_distinct [OF assms(1)] mset_eq_imp_distinct_iff by blast
  have prints: "\<forall>e \<in> set es. entry_prints lib e" using assms(2) mem by simp
  have "read_lines (compacted lib self now) = map (print_entry_line lib) es"
    unfolding es(1) by (rule revocation_file.printed_file [OF prints])
  moreover have "List.map_filter (\<lambda>line. parse_line lib line later) (map (print_entry_line lib) es) = es"
    by (rule revocation_file.entries_printed [OF prints])
  ultimately have load: "map_of (rv_entries (snd (load_from_content lib later (self\<lparr>rv_entries := []\<rparr>) (compacted lib self now)))) t
      = first_live self later t es"
    using ingest_lookup [of lib later "map (print_entry_line lib) es" "self\<lparr>rv_entries := []\<rparr>" "[]" t]
    by (simp add: load_from_content_def split_beta ingest_same)
  have "first_live self later t es = Some e \<longleftrightarrow> map_of (rv_entries self) t = Some e \<and> \<not> entry_is_expired self e later" for e
    unfolding first_live_distinct [OF dist] mem live_entries_iff [OF assms(1)]
    using assms(1,3) by (auto simp: entry_is_expired_def store_wf_def dest: map_of_SomeD)
  then show ?thesis unfolding load by (intro option_eqI) (simp split: option.split, blast)
qed

lemma first_live_mem:
  assumes "e \<in> set es" and "\<not> entry_is_expired self e now"
  shows "first_live self now (re_token_id e) es \<noteq> None"
  using assms by (auto simp: first_live_def find_None_iff)

lemma revoke_line:
  assumes "\<not> contains_key cli t" and "newline_terminated (unwrap_or [] file)"
    and "entry_prints lib \<lparr>re_token_id = t, re_reason = reason, re_timestamp = now\<rparr>"
  shows "revoke lib now cli (Ok ()) None t reason file =
      (Ok (), Some (unwrap_or [] file @ entry_line_of lib t now reason @ [CHR 0x0A]))"
    and "read_lines (unwrap_or [] file @ entry_line_of lib t now reason @ [CHR 0x0A]) =
      read_lines (unwrap_or [] file) @ [entry_line_of lib t now reason]"
proof -
  show "revoke lib now cli (Ok ()) None t reason file =
      (Ok (), Some (unwrap_or [] file @ entry_line_of lib t now reason @ [CHR 0x0A]))"
    using assms(1) by (simp add: revoke_def Let_def)
  have "read_lines (entry_line_of lib t now reason @ [CHR 0x0A]) = [entry_line_of lib t now reason]"
    using revocation_file.printed_file [of "[\<lparr>re_token_id = t, re_reason = reason, re_timestamp = now\<rparr>]" lib] assms(3)
    by simp
  then show "read_lines (unwrap_or [] file @ entry_line_of lib t now reason @ [CHR 0x0A]) =
      read_lines (unwrap_or [] file) @ [entry_line_of lib t now reason]"
    using read_lines_newline_terminated [OF assms(2)] by simp
qed

text \<open>
  A revocation reaches the server: when the revoke command appended its line to a file that ends in a
  newline, the next reload the server makes within the lifetime of the entry knows the token as revoked,
  whatever else the file holds and whatever the server knew before.
\<close>

theorem revocation_ingested:
  assumes "\<not> contains_key cli t" and "newline_terminated (unwrap_or [] file)"
    and "entry_prints lib \<lparr>re_token_id = t, re_reason = reason, re_timestamp = now\<rparr>"
    and "later \<le> now + rv_token_ttl server + rv_skew_margin server"
  shows "case revoke lib now cli (Ok ()) None t reason file of (answer, file') \<Rightarrow>
     answer = Ok () \<and>
     (case reload_from_file lib later server (file_contents file') of (r, server') \<Rightarrow>
        is_ok r \<and> is_revoked_token server' t)"
proof -
  let ?e = "\<lparr>re_token_id = t, re_reason = reason, re_timestamp = now\<rparr>"
  let ?c = "unwrap_or [] file @ entry_line_of lib t now reason @ [CHR 0x0A]"
  let ?es = "List.map_filter (\<lambda>line. parse_line lib line later) (read_lines ?c)"
  note l = revoke_line [OF assms(1-3)]
  have "parse_line lib (entry_line_of lib t now reason) later = Some ?e"
    using parse_printed_entry [OF assms(3)] by simp
  then have "?es = List.map_filter (\<lambda>line. parse_line lib line later) (read_lines (unwrap_or [] file)) @ [?e]"
    unfolding l(2) by (simp add: List.map_filter_def)
  then have "?e \<in> set ?es" by simp
  moreover have "\<not> entry_is_expired server ?e later" using assms(4) by (simp add: entry_is_expired_def)
  ultimately have "first_live server later t ?es \<noteq> None" using first_live_mem [of ?e ?es server later] by simp
  then have known: "map_of (rv_entries (fst (fold (ingest_line lib later) (read_lines ?c) (server, [])))) t \<noteq> None"
    unfolding ingest_lookup by (metis option.case_eq_if option.distinct(1))
  obtain server' new where ing: "fold (ingest_line lib later) (read_lines ?c) (server, []) = (server', new)"
    by (cases "fold (ingest_line lib later) (read_lines ?c) (server, [])")
  have "reload_from_file lib later server (file_contents (Some ?c)) = (Ok new, server')"
    unfolding reload_from_file_def file_contents_def option.case file_read.case ing prod.case ..
  moreover have "is_revoked_token server' t"
    using known unfolding ing fst_conv is_revoked_token_def contains_key_def .
  ultimately show ?thesis unfolding l(1) prod.case by simp
qed

section \<open>A concrete file\<close>

definition sample_rl :: revocation_lib where
  "sample_rl =
     \<lparr>rl_parse_token_id = (\<lambda>s. if s \<in> {''ctok_1'', ''ctok_2''} then Some s else None),
      rl_to_rfc3339 = (\<lambda>t. show_nat (nat t)),
      rl_parse_from_rfc3339 = (\<lambda>s. map_option int (parse_uint u64_max s))\<rparr>"

definition fresh_store :: RevocationStore where
  "fresh_store = \<lparr>rv_entries = [], rv_token_ttl = 100, rv_skew_margin = 10\<rparr>"

definition one_revoked :: RevocationStore where
  "one_revoked =
     fresh_store\<lparr>rv_entries :=
       [(''ctok_1'', \<lparr>re_token_id = ''ctok_1'', re_reason = ''leaked'', re_timestamp = 5\<rparr>)]\<rparr>"

lemma one_revoked_wf: "store_wf one_revoked"
  by (simp add: store_wf_def one_revoked_def)

theorem live_revocation_delivered_witness:
  "''ctok_1'' \<in> ev_token_id ` set (set_to_proto (current_set one_revoked 95))"
proof -
  let ?a = "\<lparr>au_file = Some ''ctok_1'', au_server = one_revoked, au_compactor = None\<rparr>"
  have "authority_step sample_rl False 100 ?a (?a\<lparr>au_file := None\<rparr>)" by (rule authority_step.edited)
  then have "(authority_step sample_rl False 100)\<^sup>*\<^sup>* ?a (?a\<lparr>au_file := None\<rparr>)"
    by (rule r_into_rtranclp [of "authority_step sample_rl False 100"])
  from live_revocation_delivered [OF this, of "''ctok_1''" _ 3 100 95 90] one_revoked_wf
  show ?thesis by (simp add: one_revoked_def fresh_store_def)
qed

theorem compaction_preserves_witness:
  "map_of (rv_entries (snd (load_from_content sample_rl 20 (one_revoked\<lparr>rv_entries := []\<rparr>) (compacted sample_rl one_revoked 10))))
     ''ctok_1'' = Some \<lparr>re_token_id = ''ctok_1'', re_reason = ''leaked'', re_timestamp = 5\<rparr>"
proof -
  have "list_all (entry_prints sample_rl) (live_entries one_revoked 10)" by code_simp
  then show ?thesis
    using compaction_preserves [OF one_revoked_wf, of 10 sample_rl 20 "''ctok_1''"]
    by (simp add: list_all_iff one_revoked_def fresh_store_def entry_is_expired_def)
qed

theorem revocation_ingested_witness:
  "case revoke sample_rl 7 one_revoked (Ok ()) None ''ctok_2'' ''lost laptop'' (Some [CHR 0x0A]) of (answer, file') \<Rightarrow>
     answer = Ok () \<and>
     (case reload_from_file sample_rl 50 one_revoked (file_contents file') of (r, server') \<Rightarrow>
        is_ok r \<and> is_revoked_token server' ''ctok_2'')"
proof -
  have "entry_prints sample_rl \<lparr>re_token_id = ''ctok_2'', re_reason = ''lost laptop'', re_timestamp = 7\<rparr>"
    by code_simp
  then show ?thesis
    by (intro revocation_ingested) (simp_all add: contains_key_def one_revoked_def fresh_store_def newline_terminated_def)
qed

section \<open>Where the file is lossy\<close>

text \<open>
  A revocation appended to a file whose last line has no newline is glued to that line, and neither of the
  two is read back.
\<close>

lemma append_without_newline_loses_both:
  "case revoke sample_rl 5 fresh_store (Ok ()) None ''ctok_2'' ''r'' (Some ''ctok_1'') of (answer, file') \<Rightarrow>
     answer = Ok () \<and> rv_entries (snd (reload_from_file sample_rl 6 fresh_store (file_contents (Some ''ctok_1'')))) \<noteq> []
   \<and> rv_entries (snd (reload_from_file sample_rl 6 fresh_store (file_contents file'))) = []"
  by code_simp

text \<open>A revocation made between the reading and the writing of a compaction is dropped from the file.\<close>

lemma compaction_drops_concurrent_revocation:
  "case RevocationStore_try_new sample_rl False 1 100 (FileContent []) of
     Returned (Inr store) \<Rightarrow>
       (case run_revoke sample_rl False 2 100 (Ok ()) None ''ctok_2'' ''r'' (Some []) of (answer, file1) \<Rightarrow>
        case compact_file sample_rl 3 store (Ok ()) None file1 of (_, file2) \<Rightarrow>
          answer = Returned (Ok ()) \<and> file_entries sample_rl 4 (unwrap_or [] file1) \<noteq> []
        \<and> file_entries sample_rl 4 (unwrap_or [] file2) = [])
   | _ \<Rightarrow> False"
  by code_simp

text \<open>
  The commands run on the asynchronous runtime, where loading a file that has a revocation panics: neither
  command touches the file then.
\<close>

lemma commands_panic_on_used_file:
  assumes "list_ex (\<lambda>l. trim l \<noteq> []) (read_lines content)"
  shows "run_revoke lib True now ttl opened written t reason (Some content) = (Panicked, Some content)"
    and "run_compact lib True now ttl opened written (Some content) = (Panicked, Some content)"
  using assms by (simp_all add: run_revoke_def run_compact_def RevocationStore_try_new_def file_contents_def Let_def)

text \<open>A revocation without a reason loses the time it was made.\<close>

lemma empty_reason_loses_timestamp:
  "parse_line sample_rl (entry_line_of sample_rl ''ctok_1'' 5 []) 9 =
     Some \<lparr>re_token_id = ''ctok_1'', re_reason = ''file-based revocation'', re_timestamp = 9\<rparr>"
  by code_simp

end
