(* ===== verification/Authority_Issuance.thy ===== *)
theory Authority_Issuance
  imports Authority_Policies Authority_Revocation
begin

text \<open>
  Issuing a capability: the evaluation of the issuance policies that narrows a request to what they permit
  (\<^verbatim>\<open>firma-authority/src/service.rs\<close>), the helper that clamps, assembles and signs
  (\<^verbatim>\<open>firma-authority/src/issuance.rs\<close>) and the RPC handler.  The identifiers a call generates, its clock
  readings and SHA-256 are parameters; a set of strings is a sorted list without duplicates, the order in
  which a \<^verbatim>\<open>BTreeSet\<close> is iterated.
\<close>

section \<open>Evaluation\<close>

datatype CedarDecision = IssueAllow "string list" | IssueDeny string string

definition no_policies :: CedarDecision where
  "no_policies = IssueDeny ''NO_POLICIES'' ''no Cedar policies loaded''"

definition no_action :: CedarDecision where
  "no_action = IssueDeny ''NO_ACTIONS'' ''no actions requested''"

definition no_authorized_actions :: CedarDecision where
  "no_authorized_actions =
     IssueDeny ''NO_AUTHORIZED_ACTIONS'' ''no requested action classes are authorized by policy''"

definition invalid_request :: "string \<Rightarrow> CedarDecision" where
  "invalid_request msg = IssueDeny ''INVALID_REQUEST'' msg"

definition context_build :: "string \<Rightarrow> string \<Rightarrow> CedarDecision" where
  "context_build action reason =
     IssueDeny ''CONTEXT_BUILD_FAILED''
       (''failed to build Cedar context for '' @ CHR 0x27 # action @ CHR 0x27 # '': '' @ reason)"

definition evaluation_failed :: CedarDecision where
  "evaluation_failed = IssueDeny ''INVALID_REQUEST'' ''Cedar policy evaluation failed''"

text \<open>\<open>il_errors\<close> are the errors among the diagnostics of an authorization.\<close>

record ('ps, 'sc, 'cx) issuance_lib =
  il_cedar :: "('ps, 'sc, 'cx) cedar_lib"
  il_errors :: "'cx CedarRequest \<Rightarrow> 'ps \<Rightarrow> Entity list \<Rightarrow> string list"
  il_sha256_hex :: "string \<Rightarrow> string"

definition issuance_context :: "session_id \<Rightarrow> int \<Rightarrow> json" where
  "issuance_context session timestamp_ms =
     JObject
       [(''session_id'', JString session), (''timestamp_ms'', JInt timestamp_ms), (''params'', JString ''{}''),
        (''risk_score'', JInt 0), (''session_duration_s'', JInt 0), (''action_count'', JInt 0),
        (''raw_transport'', JString ''https''), (''deny_count'', JInt 0), (''prior_action_classes'', JArray []),
        (''last_resource'', JString []), (''transfer_amount'', JInt 0), (''daily_cumulative_amount'', JInt 0),
        (''transfers_last_10m'', JInt 0), (''same_payee_count_30m'', JInt 0), (''session_transfer_count'', JInt 0)]"

text \<open>The outcome for one action: a hard failure, or whether it is authorised.\<close>

definition evaluate_action ::
  "('ps, 'sc, 'cx) issuance_lib \<Rightarrow> 'ps \<Rightarrow> 'sc \<Rightarrow> EntityUid \<Rightarrow> Entity \<Rightarrow> Entity list \<Rightarrow> json \<Rightarrow> string
    \<Rightarrow> (CedarDecision, bool) result" where
  "evaluate_action lib policy_set schema principal_uid entity entities context_json action =
     (let cedar = il_cedar lib in
      and_then (map_err (\<lambda>e. invalid_request (''invalid action: '' @ e)) (entity_uid cedar (ActionUid action))) (\<lambda>action_entity.
      and_then (map_err (context_build action) (context_from_json cedar context_json schema action_entity)) (\<lambda>cedar_context.
      and_then (map_err invalid_request
        (request_new cedar principal_uid action_entity (fst entity) cedar_context schema)) (\<lambda>request.
      if il_errors lib request policy_set entities \<noteq> [] then Err evaluation_failed
      else Ok (resp_allow (is_authorized cedar request policy_set entities))))))"

fun narrow_actions :: "(string \<Rightarrow> (CedarDecision, bool) result) \<Rightarrow> string list \<Rightarrow> string list \<Rightarrow> CedarDecision" where
  "narrow_actions ev [] granted = (if granted = [] then no_authorized_actions else IssueAllow granted)"
| "narrow_actions ev (action # requested) granted =
     (case ev action of
        Inl failure \<Rightarrow> failure
      | Inr allowed \<Rightarrow> narrow_actions ev requested (if allowed then granted @ [action] else granted))"

definition evaluate_cedar_policy ::
  "('ps, 'sc, 'cx) issuance_lib \<Rightarrow> int \<Rightarrow> 'ps \<Rightarrow> 'sc \<Rightarrow> agent_id \<Rightarrow> session_id \<Rightarrow> string list \<Rightarrow> string \<Rightarrow> CedarDecision" where
  "evaluate_cedar_policy lib timestamp_ms policy_set schema agent session actions resource =
     (let cedar = il_cedar lib in
      if set_policies cedar policy_set = [] then no_policies
      else if actions = [] then no_action
      else
        (case entity_uid cedar (AgentUid agent) of
           Inl e \<Rightarrow> invalid_request (''invalid agent_id: '' @ e)
         | Inr principal_uid \<Rightarrow>
             (case resource_entity cedar resource of
                Inl e \<Rightarrow> invalid_request (''invalid resource: '' @ ResourceEntityError_display e)
              | Inr entity \<Rightarrow>
                  (case entities_from cedar entity of
                     Inl e \<Rightarrow> invalid_request (''invalid resource entity store: '' @ e)
                   | Inr entities \<Rightarrow>
                       narrow_actions
                         (evaluate_action lib policy_set schema principal_uid entity entities
                            (issuance_context session timestamp_ms))
                         (sort (remdups actions)) []))))"

definition clamp_ttl :: "int \<Rightarrow> nat \<Rightarrow> nat" where
  "clamp_ttl requested mx = (if requested \<le> 0 then mx else min (nat requested) mx)"

definition compute_context_hash ::
  "('ps, 'sc, 'cx) issuance_lib \<Rightarrow> string \<Rightarrow> string list \<Rightarrow> string \<Rightarrow> string \<Rightarrow> string" where
  "compute_context_hash lib agent actions resource version =
     il_sha256_hex lib
       (agent @ ''|'' @ concat (map (\<lambda>a. a @ '','') actions) @ ''|'' @ resource @ ''|'' @ version)"

section \<open>Issuance\<close>

record IssuanceRequest =
  ir_agent_id :: agent_id
  ir_session_id :: session_id
  ir_requested_actions :: "string list"
  ir_resource_scope :: string
  ir_requested_ttl_seconds :: int

record IssuanceResult =
  is_raw_token :: string
  is_claims :: CapabilityClaims

datatype IssuanceError = IssuanceDenied string string | SignFailed string

text \<open>
  \<open>store\<close> is the policy store when its snapshot is taken and \<open>store'\<close> when the version of its bundle is
  read; \<open>now_ms\<close> and \<open>now\<close> are the clock readings, \<open>token\<close> the identifier generated.
\<close>

definition issue_capability ::
  "('ps, 'sc, 'cx) issuance_lib \<Rightarrow> ('sk, 'pk, 'u) paseto_lib \<Rightarrow> 'sk \<Rightarrow> nat \<Rightarrow> int \<Rightarrow> datetime \<Rightarrow> token_id
    \<Rightarrow> ('ps, 'sc) CedarPolicyStore \<Rightarrow> ('ps, 'sc) CedarPolicyStore \<Rightarrow> IssuanceRequest
    \<Rightarrow> (IssuanceError, IssuanceResult) result" where
  "issue_capability lib paseto secret_key max_ttl_seconds now_ms now token store store' req =
     (case evaluate_cedar_policy lib now_ms (cs_policy_set store) (cs_schema store) (ir_agent_id req) (ir_session_id req)
             (ir_requested_actions req) (ir_resource_scope req) of
        IssueDeny reason msg \<Rightarrow> Err (IssuanceDenied reason msg)
      | IssueAllow granted \<Rightarrow>
          (let ttl = clamp_ttl (ir_requested_ttl_seconds req) max_ttl_seconds;
               claims = \<lparr>claim_token_id = token, claim_agent_id = ir_agent_id req, claim_session_id = ir_session_id req,
                 claim_action_set = granted, claim_resource_scope = ir_resource_scope req, claim_issued_at = now,
                 claim_expiry = now + int ttl * 1000000000,
                 claim_context_hash = compute_context_hash lib (ir_agent_id req) granted (ir_resource_scope req)
                   (msg_version (cs_bundle store'))\<rparr>
           in and_then (map_err (\<lambda>e. SignFailed (TokenError_display e)) (PasetoV4Signer_sign paseto secret_key claims)) (\<lambda>raw.
              Ok \<lparr>is_raw_token = raw, is_claims = claims\<rparr>)))"

section \<open>The handler\<close>

datatype TokenFormat = TokenFormatUnspecified | PasetoV4 | JwtRs256

record CapabilityTokenMsg =
  ct_token_id :: string
  ct_agent_id :: string
  ct_session_id :: string
  ct_action_set :: "string list"
  ct_resource_scope :: string
  ct_issued_at :: "proto_timestamp option"
  ct_expiry :: "proto_timestamp option"
  ct_context_hash :: string
  ct_signature :: string
  ct_format :: TokenFormat
  ct_policy_bundle_version :: "string option"
  ct_approver_id :: "string option"
  ct_approval_id :: "string option"

definition build_proto_token :: "CapabilityClaims \<Rightarrow> string \<Rightarrow> string \<Rightarrow> CapabilityTokenMsg" where
  "build_proto_token claims signature policy_bundle_version =
     \<lparr>ct_token_id = claim_token_id claims, ct_agent_id = claim_agent_id claims, ct_session_id = claim_session_id claims,
      ct_action_set = claim_action_set claims, ct_resource_scope = claim_resource_scope claims,
      ct_issued_at = Some (to_proto_timestamp (claim_issued_at claims)),
      ct_expiry = Some (to_proto_timestamp (claim_expiry claims)), ct_context_hash = claim_context_hash claims,
      ct_signature = signature, ct_format = PasetoV4, ct_policy_bundle_version = Some policy_bundle_version,
      ct_approver_id = None, ct_approval_id = None\<rparr>"

record IssueCapabilityRequest =
  icr_agent_id :: string
  icr_session_id :: string
  icr_requested_actions :: "string list"
  icr_resource_scope :: string
  icr_requested_ttl_seconds :: int

datatype IssueDecision = IssueDecisionUnspecified | IssueDecisionAllow | IssueDecisionDeny | IssueDecisionPendingApproval

record IssueCapabilityResponse =
  resp_granted :: bool
  resp_token :: "CapabilityTokenMsg option"
  resp_deny_reason :: string
  resp_deny_message :: string
  resp_decision :: IssueDecision
  resp_approval_id :: "string option"
  resp_approval_url :: "string option"
  resp_approval_expiry :: "proto_timestamp option"

datatype rpc_status = InvalidArgument string | Internal string

text \<open>\<open>store\<close>, \<open>store'\<close> are the issuance policies as above and \<open>policies\<close> the enforcement policies.\<close>

definition issue_capability_rpc ::
  "('ps, 'sc, 'cx) issuance_lib \<Rightarrow> ('sk, 'pk, 'u) paseto_lib \<Rightarrow> 'sk \<Rightarrow> nat \<Rightarrow> int \<Rightarrow> datetime \<Rightarrow> token_id
    \<Rightarrow> ('ps, 'sc) CedarPolicyStore \<Rightarrow> ('ps, 'sc) CedarPolicyStore \<Rightarrow> ('ps, 'sc) CedarPolicyStore
    \<Rightarrow> IssueCapabilityRequest \<Rightarrow> (rpc_status, IssueCapabilityResponse) result" where
  "issue_capability_rpc lib paseto secret_key max_ttl_seconds now_ms now token store store' policies req =
     and_then (map_err (\<lambda>e. InvalidArgument (''invalid agent_id: '' @ e)) (parse_agent_id paseto (icr_agent_id req))) (\<lambda>agent.
     and_then (map_err (\<lambda>e. InvalidArgument (''invalid session_id: '' @ e)) (parse_session_id (icr_session_id req))) (\<lambda>session.
     case issue_capability lib paseto secret_key max_ttl_seconds now_ms now token store store'
            \<lparr>ir_agent_id = agent, ir_session_id = session, ir_requested_actions = icr_requested_actions req,
             ir_resource_scope = icr_resource_scope req, ir_requested_ttl_seconds = icr_requested_ttl_seconds req\<rparr> of
       Inr out \<Rightarrow>
         Ok \<lparr>resp_granted = True,
             resp_token = Some (build_proto_token (is_claims out) (is_raw_token out) (msg_version (cs_bundle policies))),
             resp_deny_reason = [], resp_deny_message = [], resp_decision = IssueDecisionAllow,
             resp_approval_id = None, resp_approval_url = None, resp_approval_expiry = None\<rparr>
     | Inl (IssuanceDenied reason msg) \<Rightarrow>
         Ok \<lparr>resp_granted = False, resp_token = None, resp_deny_reason = reason, resp_deny_message = msg,
             resp_decision = IssueDecisionDeny,
             resp_approval_id = None, resp_approval_url = None, resp_approval_expiry = None\<rparr>
     | Inl (SignFailed e) \<Rightarrow> Err (Internal ''token signing failed'')))"

section \<open>Narrowing\<close>

text \<open>What the issuance policies say of one action of the request: a failure, or whether they permit it.\<close>

definition action_verdict ::
  "('ps, 'sc, 'cx) issuance_lib \<Rightarrow> int \<Rightarrow> 'ps \<Rightarrow> 'sc \<Rightarrow> agent_id \<Rightarrow> session_id \<Rightarrow> string \<Rightarrow> string \<Rightarrow> bool option" where
  "action_verdict lib timestamp_ms policy_set schema agent session resource action =
     (case (entity_uid (il_cedar lib) (AgentUid agent), resource_entity (il_cedar lib) resource) of
        (Inr principal_uid, Inr entity) \<Rightarrow>
          (case entities_from (il_cedar lib) entity of
             Inr entities \<Rightarrow>
               (case evaluate_action lib policy_set schema principal_uid entity entities
                       (issuance_context session timestamp_ms) action of
                  Inr b \<Rightarrow> Some b
                | Inl _ \<Rightarrow> None)
           | Inl _ \<Rightarrow> None)
      | _ \<Rightarrow> None)"

lemma narrow_actions_Allow:
  assumes "\<And>a d. ev a = Err d \<Longrightarrow> d \<noteq> IssueAllow g"
  shows "narrow_actions ev requested granted = IssueAllow g \<longleftrightarrow>
     (\<forall>a \<in> set requested. is_ok (ev a)) \<and> g = granted @ filter (\<lambda>a. ev a = Ok True) requested \<and> g \<noteq> []"
proof (induction requested arbitrary: granted)
  case Nil
  then show ?case by (auto simp: no_authorized_actions_def)
next
  case (Cons a requested)
  show ?case
  proof (cases "ev a")
    case (Inl e)
    then show ?thesis using assms [OF Inl] by auto
  next
    case (Inr b)
    then show ?thesis using Cons.IH [of "if b then granted @ [a] else granted"] by simp
  qed
qed

lemma evaluate_action_Err:
  "evaluate_action lib ps sc p e es ctx a = Err d \<Longrightarrow> d \<noteq> IssueAllow g"
  by (auto simp: evaluate_action_def Let_def and_then_Err map_err_def invalid_request_def context_build_def
      evaluation_failed_def split: if_split_asm sum.split_asm)

lemmas narrow_evaluated = narrow_actions_Allow [OF evaluate_action_Err]

text \<open>The request is evaluated action by action when there are policies, actions and entities.\<close>

lemma evaluate_parts:
  obtains (stop) r m where "evaluate_cedar_policy lib timestamp_ms policy_set schema agent session actions resource = IssueDeny r m"
      "set_policies (il_cedar lib) policy_set = [] \<or> actions = []
        \<or> (\<forall>a. action_verdict lib timestamp_ms policy_set schema agent session resource a = None)"
  | (go) principal_uid entity entities where "set_policies (il_cedar lib) policy_set \<noteq> []" "actions \<noteq> []"
      "entity_uid (il_cedar lib) (AgentUid agent) = Ok principal_uid" "resource_entity (il_cedar lib) resource = Ok entity"
      "entities_from (il_cedar lib) entity = Ok entities"
proof (cases "set_policies (il_cedar lib) policy_set = [] \<or> actions = []")
  case True
  then have "\<exists>r m. evaluate_cedar_policy lib timestamp_ms policy_set schema agent session actions resource = IssueDeny r m"
    by (auto simp: evaluate_cedar_policy_def no_policies_def no_action_def Let_def)
  then show ?thesis using True stop by blast
next
  case False
  note defs = evaluate_cedar_policy_def action_verdict_def invalid_request_def
  show ?thesis
  proof (cases "entity_uid (il_cedar lib) (AgentUid agent)")
    case (Inl e)
    then show ?thesis using False by (intro stop) (simp_all add: defs)
  next
    case (Inr p)
    note p = this
    show ?thesis
    proof (cases "resource_entity (il_cedar lib) resource")
      case (Inl e)
      then show ?thesis using False p by (intro stop) (simp_all add: defs)
    next
      case (Inr entity)
      show ?thesis
      proof (cases "entities_from (il_cedar lib) entity")
        case (Inl e)
        then show ?thesis using False p Inr by (intro stop) (simp_all add: defs)
      next
        case (Inr es)
        then show ?thesis using False p \<open>resource_entity (il_cedar lib) resource = Inr entity\<close> by (intro go) simp_all
      qed
    qed
  qed
qed

text \<open>
  C17. Issuance grants exactly what is both requested and permitted. A request is granted when there are
  policies, every requested action evaluates without a failure and the policies permit at least one of
  them; the grant is then the sorted set of the permitted ones. In every other case it is denied.
\<close>

theorem issuance_narrows:
  "evaluate_cedar_policy lib timestamp_ms policy_set schema agent session actions resource = IssueAllow granted \<longleftrightarrow>
     set_policies (il_cedar lib) policy_set \<noteq> []
   \<and> list_all (\<lambda>a. action_verdict lib timestamp_ms policy_set schema agent session resource a \<noteq> None) actions
   \<and> granted = filter (\<lambda>a. action_verdict lib timestamp_ms policy_set schema agent session resource a = Some True)
       (sort (remdups actions))
   \<and> granted \<noteq> []"
proof -
  let ?v = "action_verdict lib timestamp_ms policy_set schema agent session resource"
  show ?thesis
  proof (cases rule: evaluate_parts [of lib timestamp_ms policy_set schema agent session actions resource])
    case (stop r m)
    then show ?thesis by (cases actions) auto
  next
    case (go principal_uid entity entities)
    let ?e = "evaluate_action lib policy_set schema principal_uid entity entities (issuance_context session timestamp_ms)"
    have v: "?v a = (case ?e a of Inr b \<Rightarrow> Some b | Inl _ \<Rightarrow> None)" for a using go by (simp add: action_verdict_def)
    have "(?v a = Some True) = (?e a = Ok True)" "(?v a \<noteq> None) = is_ok (?e a)" for a
      unfolding v by (cases "?e a"; simp)+
    moreover have "evaluate_cedar_policy lib timestamp_ms policy_set schema agent session actions resource =
        narrow_actions ?e (sort (remdups actions)) []"
      using go by (simp add: evaluate_cedar_policy_def Let_def)
    ultimately show ?thesis using go by (simp only: narrow_evaluated) (simp add: list_all_iff)
  qed
qed

section \<open>From issuance to verification\<close>

lemma clamp_ttl_bounds:
  assumes "0 < mx"
  shows "1 \<le> clamp_ttl requested mx" "clamp_ttl requested mx \<le> mx"
    "0 < requested \<Longrightarrow> int (clamp_ttl requested mx) \<le> requested"
  using assms by (auto simp: clamp_ttl_def)

lemma issue_capability_Ok:
  assumes "issue_capability lib paseto sk mx now_ms now token store store' req = Ok out"
  shows "claim_token_id (is_claims out) = token" "claim_agent_id (is_claims out) = ir_agent_id req"
    "claim_session_id (is_claims out) = ir_session_id req" "claim_resource_scope (is_claims out) = ir_resource_scope req"
    "claim_issued_at (is_claims out) = now"
    "claim_expiry (is_claims out) = now + int (clamp_ttl (ir_requested_ttl_seconds req) mx) * 1000000000"
    "evaluate_cedar_policy lib now_ms (cs_policy_set store) (cs_schema store) (ir_agent_id req) (ir_session_id req)
       (ir_requested_actions req) (ir_resource_scope req) = IssueAllow (claim_action_set (is_claims out))"
    "PasetoV4Signer_sign paseto sk (is_claims out) = Ok (is_raw_token out)"
    "claim_context_hash (is_claims out) = compute_context_hash lib (ir_agent_id req) (claim_action_set (is_claims out))
       (ir_resource_scope req) (msg_version (cs_bundle store'))"
  using assms by (auto simp: issue_capability_def Let_def and_then_Ok split: CedarDecision.split_asm)

lemma granted_permitted:
  assumes "evaluate_cedar_policy lib ms ps sc agent session actions resource = IssueAllow granted" and "a \<in> set granted"
  shows "a \<in> set actions \<and> action_verdict lib ms ps sc agent session resource a = Some True"
proof (cases rule: evaluate_parts [of lib ms ps sc agent session actions resource])
  case (go principal_uid entity entities)
  let ?e = "evaluate_action lib ps sc principal_uid entity entities (issuance_context session ms)"
  have "evaluate_cedar_policy lib ms ps sc agent session actions resource = narrow_actions ?e (sort (remdups actions)) []"
    using go by (simp add: evaluate_cedar_policy_def Let_def)
  then have "narrow_actions ?e (sort (remdups actions)) [] = IssueAllow granted" using assms(1) by simp
  then have "granted = filter (\<lambda>a. ?e a = Ok True) (sort (remdups actions))"
    by (simp only: narrow_evaluated append_Nil)
  then have "a \<in> set actions \<and> ?e a = Ok True" using assms(2) by simp
  then show ?thesis using go by (simp add: action_verdict_def)
qed (use assms in simp_all)

text \<open>
  C18. A capability the Authority issues is one a sidecar verifies, to the same claims, until it expires; it
  names the requesting agent and session, lives between one second and the configured maximum and no longer
  than asked for, and every action in it was requested and is permitted by the issuance policies.
\<close>

theorem issued_token_verifies:
  assumes "issue_capability lib paseto sk mx now_ms now token store store' req = Ok out" and "0 < mx"
    and "paseto_laws paseto sk pk (is_claims out)" and "parse_token_id paseto token = Ok token"
    and "parse_agent_id paseto (ir_agent_id req) = Ok (ir_agent_id req)"
    and "session_id_try_from (ir_session_id req) = Ok (ir_session_id req)"
    and "verifier_public_key verifier = pk" and "at_time < claim_expiry (is_claims out) + verifier_leeway verifier"
  shows "PasetoV4Verifier_verify paseto verifier at_time (is_raw_token out) = Ok (is_claims out)
    \<and> claim_agent_id (is_claims out) = ir_agent_id req \<and> claim_session_id (is_claims out) = ir_session_id req
    \<and> now + 1000000000 \<le> claim_expiry (is_claims out) \<and> claim_expiry (is_claims out) \<le> now + int mx * 1000000000
    \<and> (0 < ir_requested_ttl_seconds req \<longrightarrow>
         claim_expiry (is_claims out) \<le> now + ir_requested_ttl_seconds req * 1000000000)
    \<and> (\<forall>a \<in> set (claim_action_set (is_claims out)). a \<in> set (ir_requested_actions req)
         \<and> action_verdict lib now_ms (cs_policy_set store) (cs_schema store) (ir_agent_id req) (ir_session_id req)
             (ir_resource_scope req) a = Some True)"
proof -
  note out = issue_capability_Ok [OF assms(1)]
  have "PasetoV4Verifier_verify paseto verifier at_time (is_raw_token out) = Ok (is_claims out)"
    using sign_verify [OF assms(3), of verifier at_time] assms(4-8) out(1-3,8) by auto
  moreover note clamp = clamp_ttl_bounds [OF assms(2), of "ir_requested_ttl_seconds req"]
  ultimately show ?thesis
    using out(2,3,6) granted_permitted [OF out(7)] by auto
qed

text \<open>The context hash names the version read after the evaluation, whatever generation was evaluated.\<close>

lemma context_hash_of_later_version:
  assumes "issue_capability lib paseto sk mx now_ms now token store store' req = Ok out"
  shows "claim_context_hash (is_claims out) = compute_context_hash lib (ir_agent_id req) (claim_action_set (is_claims out))
       (ir_resource_scope req) (msg_version (cs_bundle store'))"
  using assms by (rule issue_capability_Ok(9))

section \<open>A concrete issuance\<close>

definition issue_permit :: CedarPolicy where
  "issue_permit = \<lparr>cp_id = ''policy0'', cp_effect = Permit, cp_annotation = Map.empty\<rparr>"

text \<open>Policies that permit every action but \<open>code.write\<close>.\<close>

definition sample_issuance :: "(CedarPolicy list, unit, json) issuance_lib" where
  "sample_issuance =
     \<lparr>il_cedar = (sample_cedar_lib [issue_permit])\<lparr>is_authorized :=
        (\<lambda>req ps es. \<lparr>resp_allow = snd (creq_action req) \<noteq> ''code.write'', resp_reason = []\<rparr>)\<rparr>,
      il_errors = (\<lambda>req ps es. []), il_sha256_hex = (\<lambda>s. ''h'')\<rparr>"

definition issue_store :: "(CedarPolicy list, unit) CedarPolicyStore" where
  "issue_store = \<lparr>cs_policy_set = [issue_permit], cs_schema = (), cs_bundle = sample_msg, cs_ttl_seconds = 60\<rparr>"

definition issue_request :: IssuanceRequest where
  "issue_request =
     \<lparr>ir_agent_id = ''agt_1'', ir_session_id = ''ses_1'',
      ir_requested_actions = [''document.read'', ''code.write'', ''code.read'', ''document.read''],
      ir_resource_scope = ''api.x.com/*'', ir_requested_ttl_seconds = 90\<rparr>"

definition issued_claims :: CapabilityClaims where
  "issued_claims = sample_claims\<lparr>claim_expiry := 60000000000\<rparr>"

definition issue_paseto :: "(unit, unit, string) paseto_lib" where
  "issue_paseto =
     sample_paseto_lib\<lparr>claims_from_string := (\<lambda>s. Ok (sample_claims_map(''exp'' \<mapsto> JString ''60000000000'')))\<rparr>"

lemma issue_paseto_laws: "paseto_laws issue_paseto () () issued_claims"
proof -
  have times: "show_nat 0 = ''0''" "show_nat 60000000000 = ''60000000000''" by code_simp+
  have "build_paseto_claims issue_paseto issued_claims = Ok (sample_claims_map(''exp'' \<mapsto> JString ''60000000000''))"
    by (simp add: build_paseto_claims_def issue_paseto_def sample_paseto_lib_def issued_claims_def sample_claims_def
        sample_claims_map_def times fun_upd_twist)
  moreover have "parse_uint u64_max ''60000000000'' = Some 60000000000" "parse_uint u64_max ''0'' = Some 0"
    by code_simp+
  ultimately show ?thesis
    unfolding paseto_laws_def by (simp add: issue_paseto_def sample_paseto_lib_def issued_claims_def sample_claims_def times)
qed

lemma sample_issue:
  "issue_capability sample_issuance issue_paseto () 60 0 0 ''tok_1'' issue_store issue_store issue_request =
     Ok \<lparr>is_raw_token = ''claims'', is_claims = issued_claims\<rparr>"
proof -
  have "case issue_capability sample_issuance issue_paseto () 60 0 0 ''tok_1'' issue_store issue_store issue_request of
      Ok out \<Rightarrow> is_raw_token out = ''claims'' \<and> is_claims out = issued_claims | Err e \<Rightarrow> False"
    by code_simp
  then show ?thesis by (simp split: sum.splits)
qed

theorem issued_token_verifies_witness:
  "PasetoV4Verifier_verify issue_paseto \<lparr>verifier_public_key = (), verifier_leeway = default_leeway\<rparr> 59000000000 ''claims''
     = Ok issued_claims
   \<and> claim_action_set issued_claims = [''code.read'', ''document.read'']"
proof -
  have "session_id_try_from ''ses_1'' = Ok ''ses_1''" by code_simp
  then show ?thesis
    using issued_token_verifies [OF sample_issue, of "()" "\<lparr>verifier_public_key = (), verifier_leeway = default_leeway\<rparr>" 59000000000]
      issue_paseto_laws
    by (simp add: issue_paseto_def sample_paseto_lib_def issue_request_def issued_claims_def sample_claims_def default_leeway_def)
qed

end
