(* ===== verification/Audit_Event.thy ===== *)
theory Audit_Event
  imports Pipeline "HOL-Library.Word"
begin

text \<open>
  Signed audit events: the record of the audit log (\<^verbatim>\<open>firma-audit-schema/src/lib.rs\<close>), the builder that
  turns an audit payload into a signed event (\<^verbatim>\<open>firma-sidecar/src/audit/builder.rs\<close>) and its transport
  form (\<^verbatim>\<open>firma-sidecar/src/audit/sink/mod.rs\<close>).  SHA-256 and ECDSA are parameters, as are the
  identifier and the time an event is built with.
\<close>

section \<open>Events\<close>

primrec decision_repr :: "Decision \<Rightarrow> int" where
  "decision_repr DecAllow = 1"
| "decision_repr DecDeny = 2"
| "decision_repr DecAbort = 3"
| "decision_repr DecModify = 4"
| "decision_repr DecStepUp = 5"
| "decision_repr DecDefer = 6"

record ExecutionEvent =
  ee_event_id :: string
  ee_session_id :: string
  ee_token_id :: string
  ee_agent_id :: string
  ee_action :: string
  ee_resource :: string
  ee_decision :: Decision
  ee_deny_reason :: string
  ee_enforcement_latency_us :: int
  ee_context_hash :: string
  ee_bundle_version :: string
  ee_timestamp :: "nat option"
  ee_dispatch_status :: int
  ee_dispatch_latency_us :: int
  ee_response_size :: int
  ee_sandbox_id :: string
  ee_provenance :: string
  ee_thread_id :: string
  ee_parent_action_id :: string
  ee_signature :: string
  ee_run_evidence :: "string option"

definition show_int :: "int \<Rightarrow> string" where
  "show_int i = (if i < 0 then CHR ''-'' # show_nat (nat (- i)) else show_nat (nat i))"

section \<open>Signing\<close>

record 'sk audit_lib =
  al_sha256 :: "string \<Rightarrow> string"
  al_ecdsa_sign :: "'sk \<Rightarrow> string \<Rightarrow> string"
  al_parse_key :: "string \<Rightarrow> (string, 'sk) result"

record 'sk EventBuilder =
  eb_signing_key :: 'sk
  eb_sandbox_id :: "string option"

definition EventBuilder_new :: "'sk audit_lib \<Rightarrow> string \<Rightarrow> (string, 'sk EventBuilder) result" where
  "EventBuilder_new lib pem =
     and_then (map_err ((@) ''invalid signing key: '') (al_parse_key lib pem)) (\<lambda>key.
     Ok \<lparr>eb_signing_key = key, eb_sandbox_id = None\<rparr>)"

definition with_sandbox_id :: "'sk EventBuilder \<Rightarrow> string option \<Rightarrow> 'sk EventBuilder" where
  "with_sandbox_id self sandbox = self\<lparr>eb_sandbox_id := sandbox\<rparr>"

text \<open>The signed fields in declaration order.\<close>

definition signed_fields :: "ExecutionEvent \<Rightarrow> string list" where
  "signed_fields event =
     [ee_event_id event, ee_session_id event, ee_token_id event, ee_agent_id event, ee_action event, ee_resource event,
      show_int (decision_repr (ee_decision event)), ee_deny_reason event, show_int (ee_enforcement_latency_us event),
      ee_context_hash event, ee_bundle_version event,
      (case ee_timestamp event of None \<Rightarrow> ''0'' | Some n \<Rightarrow> show_nat n),
      show_int (ee_dispatch_status event), show_int (ee_dispatch_latency_us event), show_int (ee_response_size event),
      ee_sandbox_id event, ee_provenance event, ee_thread_id event, ee_parent_action_id event]"

definition signing_payload :: "'sk audit_lib \<Rightarrow> ExecutionEvent \<Rightarrow> string" where
  "signing_payload lib event = al_sha256 lib (join_with (CHR 0x0A) (signed_fields event))"

definition sign_event :: "'sk audit_lib \<Rightarrow> 'sk EventBuilder \<Rightarrow> ExecutionEvent \<Rightarrow> string" where
  "sign_event lib self event = al_ecdsa_sign lib (eb_signing_key self) (signing_payload lib event)"

text \<open>\<^verbatim>\<open>timestamp_nanos_opt\<close> is \<open>None\<close> for a time out of range.\<close>

definition timestamp_nanos :: "int option \<Rightarrow> nat" where
  "timestamp_nanos now = (case now of None \<Rightarrow> 0 | Some ns \<Rightarrow> unat (word_of_int ns :: 128 word))"

definition build_event :: "'sk audit_lib \<Rightarrow> string \<Rightarrow> int option \<Rightarrow> 'sk EventBuilder \<Rightarrow> AuditPayload \<Rightarrow> ExecutionEvent" where
  "build_event lib event_id now self payload =
     (let event =
        \<lparr>ee_event_id = event_id, ee_session_id = au_session_id payload, ee_token_id = au_token_id payload,
         ee_agent_id = au_agent_id payload, ee_action = au_action payload, ee_resource = au_resource payload,
         ee_decision = au_decision payload, ee_deny_reason = au_deny_reason payload,
         ee_enforcement_latency_us = au_enforcement_latency_us payload, ee_context_hash = au_context_hash payload,
         ee_bundle_version = au_bundle_version payload, ee_timestamp = Some (timestamp_nanos now),
         ee_dispatch_status = au_dispatch_status payload, ee_dispatch_latency_us = au_dispatch_latency_us payload,
         ee_response_size = au_response_size payload, ee_sandbox_id = unwrap_or [] (eb_sandbox_id self),
         ee_provenance = au_provenance payload, ee_thread_id = au_thread_id payload,
         ee_parent_action_id = au_parent_action_id payload, ee_signature = [], ee_run_evidence = None\<rparr>
      in event\<lparr>ee_signature := sign_event lib self event\<rparr>)"

section \<open>Transport form\<close>

record ExecutionEventMsg = ExecutionEvent +
  em_decision :: int
  em_timestamp :: "(int \<times> int) option"

text \<open>\<open>seconds\<close> is a cast of a 128-bit number to 64 bits, \<open>nanos\<close> one to 32 bits.\<close>

definition proto_time :: "nat \<Rightarrow> int \<times> int" where
  "proto_time nanos =
     (sint (of_nat (nanos div 1000000000) :: 64 word), sint (of_nat (nanos mod 1000000000) :: 32 word))"

definition execution_event_to_proto :: "ExecutionEvent \<Rightarrow> ExecutionEventMsg" where
  "execution_event_to_proto value =
     ExecutionEvent.extend value \<lparr>em_decision = decision_repr (ee_decision value),
       em_timestamp = map_option proto_time (ee_timestamp value)\<rparr>"

section \<open>What the signature covers\<close>

lemma decision_repr_inject: "decision_repr d = decision_repr d' \<Longrightarrow> d = d'"
  by (cases d; cases d') simp_all

lemma show_int_free: "CHR 0x0A \<notin> set (show_int i)"
  by (auto simp: show_int_def is_ascii_digit_def byte_val_def dest: show_nat_free [THEN notE, rotated])

lemma show_int_inject:
  assumes "show_int i = show_int j"
  shows "i = j"
proof -
  have minus: "show_nat n \<noteq> CHR ''-'' # s" for n s
  proof
    assume "show_nat n = CHR ''-'' # s"
    then have "CHR ''-'' \<in> set (show_nat n)" by simp
    moreover have "\<not> is_ascii_digit (CHR ''-'')" by (simp add: is_ascii_digit_def byte_val_def)
    ultimately show False using show_nat_free by blast
  qed
  have "nat (- i) = nat (- j)" if "i < 0" "j < 0"
    using assms that by (intro show_nat_inject) (simp add: show_int_def)
  moreover have "nat i = nat j" if "\<not> i < 0" "\<not> j < 0"
    using assms that by (intro show_nat_inject) (simp add: show_int_def)
  moreover have "(i < 0) = (j < 0)"
    using assms minus by (auto simp: show_int_def split: if_split_asm) (metis minus)+
  ultimately show ?thesis by linarith
qed

text \<open>Every signed field that is a string of the event's own.\<close>

definition text_fields :: "ExecutionEvent \<Rightarrow> string list" where
  "text_fields e =
     [ee_event_id e, ee_session_id e, ee_token_id e, ee_agent_id e, ee_action e, ee_resource e, ee_deny_reason e,
      ee_context_hash e, ee_bundle_version e, ee_sandbox_id e, ee_provenance e, ee_thread_id e, ee_parent_action_id e]"

definition single_line :: "ExecutionEvent \<Rightarrow> bool" where
  "single_line e \<longleftrightarrow> list_all (\<lambda>s. CHR 0x0A \<notin> set s) (text_fields e)"

lemma signed_fields_free:
  assumes "single_line e" and "s \<in> set (signed_fields e)"
  shows "CHR 0x0A \<notin> set s"
proof -
  have "\<not> is_ascii_digit (CHR 0x0A)" by (simp add: is_ascii_digit_def byte_val_def)
  then have "CHR 0x0A \<notin> set (case ee_timestamp e of None \<Rightarrow> ''0'' | Some n \<Rightarrow> show_nat n)"
    by (simp add: show_nat_free split: option.split)
  then show ?thesis
    using assms show_int_free by (auto simp: single_line_def text_fields_def signed_fields_def)
qed

lemma preimage_inject:
  assumes "single_line e" and "single_line e'"
    and "join_with (CHR 0x0A) (signed_fields e) = join_with (CHR 0x0A) (signed_fields e')"
  shows "signed_fields e = signed_fields e'"
proof -
  have "split_on (CHR 0x0A) (join_with (CHR 0x0A) (signed_fields x)) = signed_fields x" if "single_line x" for x
    using signed_fields_free [OF that] by (intro split_on_join) (auto simp: signed_fields_def)
  then show ?thesis using assms by metis
qed


section \<open>A concrete event\<close>

definition sample_audit_lib :: "unit audit_lib" where
  "sample_audit_lib = \<lparr>al_sha256 = id, al_ecdsa_sign = (\<lambda>k m. m), al_parse_key = (\<lambda>pem. Ok ())\<rparr>"

definition sample_payload :: AuditPayload where
  "sample_payload =
     \<lparr>au_session_id = ''ses_1'', au_token_id = ''tok_1'', au_agent_id = ''agt_1'', au_action = ''code.read'',
      au_resource = ''api.x.com/a'', au_decision = DecAllow, au_deny_reason = [], au_enforcement_latency_us = 42,
      au_context_hash = ''h'', au_bundle_version = ''v1'', au_dispatch_status = 200, au_dispatch_latency_us = 7,
      au_response_size = 0, au_provenance = ''p'', au_thread_id = ''t'', au_parent_action_id = []\<rparr>"

definition sample_event :: ExecutionEvent where
  "sample_event = build_event sample_audit_lib ''aevt_1'' (Some 1000) \<lparr>eb_signing_key = (), eb_sandbox_id = None\<rparr> sample_payload"


text \<open>
  A line break in a text moves the boundary between fields: two events that differ in action and resource
  have the same signature.
\<close>

lemma newline_shifts_fields:
  "signing_payload lib (e\<lparr>ee_action := ''a'' @ CHR 0x0A # ''b'', ee_resource := ''c''\<rparr>) =
   signing_payload lib (e\<lparr>ee_action := ''a'', ee_resource := ''b'' @ CHR 0x0A # ''c''\<rparr>)"
  by (simp add: signing_payload_def signed_fields_def)

text \<open>The transport time is exact for times whose seconds fit in 63 bits.\<close>

lemma proto_time_exact:
  assumes "n div 1000000000 < 2 ^ 63"
  shows "fst (proto_time n) * 1000000000 + snd (proto_time n) = int n"
proof -
  have "sint (word_of_nat m :: 64 word) = int m" if "m < 2 ^ 63" for m
    using that by (simp add: signed_of_nat signed_take_bit_int_eq_self_iff)
  moreover have "sint (word_of_nat m :: 32 word) = int m" if "m < 1000000000" for m
    using that by (simp add: signed_of_nat signed_take_bit_int_eq_self_iff)
  ultimately have "fst (proto_time n) * 1000000000 + snd (proto_time n) =
      int (n div 1000000000) * 1000000000 + int (n mod 1000000000)"
    using assms by (simp add: proto_time_def)
  also have "\<dots> = int (n div 1000000000 * 1000000000 + n mod 1000000000)" by (simp only: of_nat_add of_nat_mult of_nat_numeral)
  finally show ?thesis by (simp only: div_mult_mod_eq)
qed

end
