(* ===== verification/Audit_Wal.thy ===== *)
theory Audit_Wal
  imports Audit_Event Line_Log
begin

text \<open>
  The durable audit sink (\<^verbatim>\<open>firma-sidecar/src/audit/sink/wal/mod.rs\<close>), its journal
  (\<^verbatim>\<open>wal/journal.rs\<close>) and the delivery of one event (\<^verbatim>\<open>submission.rs\<close>).

  Files are their durable contents.  A write that fails, or a crash during one, leaves a prefix of what was
  to be written; replacing a file is atomic.  The JSON encoding is a parameter, the answers of the audit
  service and the outcome of every write are inputs of the operations.
\<close>

section \<open>Records\<close>

record wal_lib =
  wl_encode :: "ExecutionEvent \<Rightarrow> (string, string) result"
  wl_decode :: "string \<Rightarrow> ExecutionEvent option"
  wl_archive_line :: "string \<Rightarrow> string \<Rightarrow> string \<Rightarrow> string"

text \<open>\<^verbatim>\<open>split_inclusive\<close>: each piece ends in its newline, the last one perhaps not.\<close>

fun split_inclusive :: "string \<Rightarrow> string list" where
  "split_inclusive [] = []"
| "split_inclusive (b # bytes) =
     (if b = CHR 0x0A then [b] # split_inclusive bytes
      else (case split_inclusive bytes of [] \<Rightarrow> [[b]] | piece # pieces \<Rightarrow> (b # piece) # pieces))"

definition repair_tail :: "string \<Rightarrow> string" where
  "repair_tail contents =
     (if contents = [] then contents else if last contents \<noteq> CHR 0x0A then contents @ [CHR 0x0A] else contents)"

text \<open>A write of some bytes at the end of a file succeeds, or stops after so many of them.\<close>

datatype write_outcome = Written | WriteFailed nat

definition write_end :: "write_outcome \<Rightarrow> string \<Rightarrow> string \<Rightarrow> string" where
  "write_end w bytes contents = contents @ (case w of Written \<Rightarrow> bytes | WriteFailed n \<Rightarrow> take n bytes)"

section \<open>Scope\<close>

record Scope =
  sc_version :: nat
  sc_endpoint :: string
  sc_sidecar :: "(string \<times> string) option"
  sc_run :: "string option"

text \<open>The credential's workspace, sidecar and run.\<close>

definition Scope_new :: "string \<Rightarrow> (string \<times> string \<times> string option) option \<Rightarrow> Scope" where
  "Scope_new endpoint credentials =
     \<lparr>sc_version = 1, sc_endpoint = endpoint,
      sc_sidecar = map_option (\<lambda>(workspace, sidecar, run). (workspace, sidecar)) credentials,
      sc_run = Option.bind credentials (\<lambda>(workspace, sidecar, run). run)\<rparr>"

definition same_sidecar :: "Scope \<Rightarrow> Scope \<Rightarrow> bool" where
  "same_sidecar self other \<longleftrightarrow>
     sc_version self = sc_version other \<and> sc_endpoint self = sc_endpoint other \<and> sc_sidecar self = sc_sidecar other"

section \<open>The journal\<close>

datatype scope_file = ScopeMissing | ScopeInvalid | ScopeStored Scope

record wal_disk =
  wd_journal :: string
  wd_scope :: scope_file
  wd_archive :: string

record Journal =
  jr_max_bytes :: nat
  jr_size :: nat
  jr_records :: "string list"

definition scope_check :: "Scope \<Rightarrow> wal_disk \<Rightarrow> (string, scope_file) result" where
  "scope_check scope disk =
     (case wd_scope disk of
        ScopeStored stored \<Rightarrow>
          if stored \<noteq> scope
          then if \<not> (wd_journal disk = [] \<and> same_sidecar stored scope)
               then Err ''audit WAL destination does not match its stored scope''
               else Ok (ScopeStored scope)
          else Ok (ScopeStored stored)
      | ScopeInvalid \<Rightarrow> Err ''invalid audit WAL scope''
      | ScopeMissing \<Rightarrow>
          if wd_journal disk \<noteq> []
          then Err ''nonempty legacy audit WAL has no scope; explicit migration is required''
          else Ok (ScopeStored scope))"

text \<open>\<open>locked\<close> tells that another writer holds the lock.\<close>

definition Journal_open :: "bool \<Rightarrow> nat \<Rightarrow> Scope \<Rightarrow> wal_disk \<Rightarrow> (string, Journal) result \<times> wal_disk" where
  "Journal_open locked max_bytes scope disk =
     (if locked then (Err ''audit WAL is already in use'', disk)
      else
        (case scope_check scope disk of
           Inl e \<Rightarrow> (Err e, disk)
         | Inr stored \<Rightarrow>
             let contents = repair_tail (wd_journal disk);
                 disk' = disk\<lparr>wd_scope := stored, wd_journal := contents\<rparr>
             in if max_bytes < length contents
                then (Err ''audit WAL exceeds configured capacity; retained without eviction'', disk')
                else (Ok \<lparr>jr_max_bytes = max_bytes, jr_size = length contents,
                          jr_records = split_inclusive contents\<rparr>, disk')))"

definition Journal_append ::
  "wal_lib \<Rightarrow> write_outcome \<Rightarrow> Journal \<Rightarrow> ExecutionEvent \<Rightarrow> wal_disk \<Rightarrow> (string, Journal) result \<times> wal_disk" where
  "Journal_append lib w self event disk =
     (case wl_encode lib event of
        Inl e \<Rightarrow> (Err ''cannot encode audit WAL event'', disk)
      | Inr json \<Rightarrow>
          let bytes = json @ [CHR 0x0A] in
          if jr_max_bytes self < sat_add (jr_size self) (length bytes)
          then (Err ''audit WAL capacity exhausted; pending records retained'', disk)
          else
            let disk' = disk\<lparr>wd_journal := write_end w bytes (repair_tail (wd_journal disk))\<rparr> in
            (case w of
               WriteFailed _ \<Rightarrow> (Err ''write failed'', disk')
             | Written \<Rightarrow>
                 (Ok (self\<lparr>jr_size := jr_size self + length bytes, jr_records := jr_records self @ [bytes]\<rparr>), disk')))"

definition Journal_reject ::
  "wal_lib \<Rightarrow> write_outcome \<Rightarrow> string \<Rightarrow> string \<Rightarrow> string \<Rightarrow> wal_disk \<Rightarrow> (string, unit) result \<times> wal_disk" where
  "Journal_reject lib w bytes code reason disk =
     (let disk' = disk\<lparr>wd_archive :=
            write_end w (wl_archive_line lib bytes code reason @ [CHR 0x0A]) (repair_tail (wd_archive disk))\<rparr>
      in case w of
           WriteFailed _ \<Rightarrow> (Err ''cannot write audit rejection archive'', disk')
         | Written \<Rightarrow> (Ok (), disk'))"

text \<open>
  The replacement is atomic: \<open>replaced\<close> tells whether the rename took effect and \<open>synced\<close> whether syncing the
  directory after it succeeded.
\<close>

definition Journal_reclaim ::
  "bool \<Rightarrow> bool \<Rightarrow> Journal \<Rightarrow> nat \<Rightarrow> wal_disk \<Rightarrow> (string, Journal) result \<times> wal_disk" where
  "Journal_reclaim replaced synced self count disk =
     (if count = 0 then (Ok self, disk)
      else
        let bytes = concat (drop count (jr_records self)) in
        if \<not> replaced then (Err ''cannot replace audit WAL'', disk)
        else if \<not> synced then (Err ''cannot sync audit WAL directory'', disk\<lparr>wd_journal := bytes\<rparr>)
        else (Ok (self\<lparr>jr_records := drop count (jr_records self), jr_size := length bytes\<rparr>),
              disk\<lparr>wd_journal := bytes\<rparr>))"

section \<open>Delivery\<close>

datatype Submission = Persisted | SubmissionRejected string | Retry | RunRejected

text \<open>
  How one submission can end: no connection, credentials that make no valid request, no answer in time, a
  receipt with its three fields, or a status.  gRPC's code for an invalid argument is 3.
\<close>

datatype rpc_answer =
    NoConnection
  | BadCredentials
  | TimedOut
  | Receipt bool nat string
  | RpcStatus status_code string

definition submit :: "SidecarCredential option \<Rightarrow> ExecutionEvent \<Rightarrow> rpc_answer \<Rightarrow> Submission" where
  "submit credentials event answer =
     (case answer of
        NoConnection \<Rightarrow> Retry
      | BadCredentials \<Rightarrow> Retry
      | TimedOut \<Rightarrow> Retry
      | Receipt durably_persisted events_received last_event_id \<Rightarrow>
          if durably_persisted \<and> events_received = 1 \<and> last_event_id = ee_event_id event then Persisted else Retry
      | RpcStatus code msg \<Rightarrow>
          if code = OtherStatus 3 then SubmissionRejected msg
          else if rejects_run code credentials then RunRejected
          else Retry)"

section \<open>Replay\<close>

definition REPLAY_LIMIT :: nat where "REPLAY_LIMIT = 32"

text \<open>
  What happens when one record is replayed: whether the exit token is cancelled, the answer of the service,
  and the outcome of a write to the archive.
\<close>

record turn =
  tn_cancelled :: bool
  tn_answer :: rpc_answer
  tn_archive :: write_outcome

text \<open>
  The loop: the number of records consumed, or the error that ends it; whether the run was rejected; the
  events the service persisted and the records archived.  A turn that does not come is a crash.
\<close>

record replay_result =
  rr_consumed :: "(string, nat) result"
  rr_run_rejected :: bool
  rr_persisted :: "ExecutionEvent list"
  rr_archived :: "string list"
  rr_disk :: wal_disk

definition stop_replay :: "(string, nat) result \<Rightarrow> bool \<Rightarrow> wal_disk \<Rightarrow> replay_result" where
  "stop_replay r rejected disk =
     \<lparr>rr_consumed = r, rr_run_rejected = rejected, rr_persisted = [], rr_archived = [], rr_disk = disk\<rparr>"

fun replay_loop ::
  "wal_lib \<Rightarrow> SidecarCredential option \<Rightarrow> string list \<Rightarrow> turn list \<Rightarrow> nat \<Rightarrow> wal_disk \<Rightarrow> replay_result" where
  "replay_loop lib credentials [] turns consumed disk = stop_replay (Ok consumed) False disk"
| "replay_loop lib credentials (r # rs) [] consumed disk = stop_replay (Err ''crashed'') False disk"
| "replay_loop lib credentials (r # rs) (t # ts) consumed disk =
     (if tn_cancelled t then stop_replay (Ok consumed) False disk
      else
        (case wl_decode lib r of
           None \<Rightarrow>
             (case Journal_reject lib (tn_archive t) r ''malformed_record'' ''invalid audit JSON record'' disk of
                (Inl e, disk') \<Rightarrow> stop_replay (Err e) False disk'
              | (Inr _, disk') \<Rightarrow>
                  let rest = replay_loop lib credentials rs ts (consumed + 1) disk'
                  in rest\<lparr>rr_archived := r # rr_archived rest\<rparr>)
         | Some event \<Rightarrow>
             (case submit credentials event (tn_answer t) of
                Persisted \<Rightarrow>
                  let rest = replay_loop lib credentials rs ts (consumed + 1) disk
                  in rest\<lparr>rr_persisted := event # rr_persisted rest\<rparr>
              | SubmissionRejected msg \<Rightarrow>
                  (case Journal_reject lib (tn_archive t) r ''invalid_argument'' msg disk of
                     (Inl e, disk') \<Rightarrow> stop_replay (Err e) False disk'
                   | (Inr _, disk') \<Rightarrow>
                       let rest = replay_loop lib credentials rs ts (consumed + 1) disk'
                       in rest\<lparr>rr_archived := r # rr_archived rest\<rparr>)
              | Retry \<Rightarrow> stop_replay (Ok consumed) False disk
              | RunRejected \<Rightarrow> stop_replay (Ok consumed) True disk)))"

text \<open>\<^verbatim>\<open>replay\<close>: the loop over the first records and the reclamation of those consumed.\<close>

definition wal_replay ::
  "wal_lib \<Rightarrow> SidecarCredential option \<Rightarrow> turn list \<Rightarrow> bool \<Rightarrow> bool \<Rightarrow> Journal \<Rightarrow> wal_disk
    \<Rightarrow> (string, Journal) result \<times> replay_result" where
  "wal_replay lib credentials turns replaced synced self disk =
     (let loop = replay_loop lib credentials (take REPLAY_LIMIT (jr_records self)) turns 0 disk in
      case rr_consumed loop of
        Inl e \<Rightarrow> (Err e, loop)
      | Inr consumed \<Rightarrow>
          (case Journal_reclaim replaced synced self consumed (rr_disk loop) of
             (r, disk') \<Rightarrow> (r, loop\<lparr>rr_disk := disk'\<rparr>)))"

section \<open>The sink as a step relation\<close>

text \<open>
  The disk, the journal while the process runs, and two histories: the events whose append returned, and the
  events the service acknowledged as persisted.
\<close>

record wal_state =
  ws_disk :: wal_disk
  ws_journal :: "Journal option"
  ws_accepted :: "ExecutionEvent list"
  ws_persisted :: "ExecutionEvent list"

fun ok_option :: "('e, 'a) result \<Rightarrow> 'a option" where
  "ok_option (Inl e) = None"
| "ok_option (Inr a) = Some a"

text \<open>
  The arms of the run loop. An operation that fails ends the sink, as a crash does at any moment; the next
  process opens the journal again.
\<close>

inductive wal_step :: "wal_lib \<Rightarrow> SidecarCredential option \<Rightarrow> nat \<Rightarrow> Scope \<Rightarrow> wal_state \<Rightarrow> wal_state \<Rightarrow> bool"
  for lib credentials max_bytes scope where
  opened: "ws_journal s = None \<Longrightarrow> Journal_open locked max_bytes scope (ws_disk s) = (r, disk') \<Longrightarrow>
     wal_step lib credentials max_bytes scope s (s\<lparr>ws_disk := disk', ws_journal := ok_option r\<rparr>)"
| received: "ws_journal s = Some j \<Longrightarrow> Journal_append lib w j event (ws_disk s) = (r, disk') \<Longrightarrow>
     wal_step lib credentials max_bytes scope s
       (s\<lparr>ws_disk := disk', ws_journal := ok_option r,
          ws_accepted := ws_accepted s @ (if is_ok r then [event] else [])\<rparr>)"
| ticked: "ws_journal s = Some j \<Longrightarrow> wal_replay lib credentials turns replaced synced j (ws_disk s) = (r, loop) \<Longrightarrow>
     wal_step lib credentials max_bytes scope s
       (s\<lparr>ws_disk := rr_disk loop, ws_journal := ok_option r, ws_persisted := ws_persisted s @ rr_persisted loop\<rparr>)"
| crashed: "wal_step lib credentials max_bytes scope s (s\<lparr>ws_journal := None\<rparr>)"

text \<open>What the code relies on of the JSON encoding.\<close>

definition wal_laws :: "wal_lib \<Rightarrow> bool" where
  "wal_laws lib \<longleftrightarrow>
     (\<forall>e json. wl_encode lib e = Ok json \<longrightarrow> CHR 0x0A \<notin> set json \<and> wl_decode lib (json @ [CHR 0x0A]) = Some e)
   \<and> (\<forall>r code reason. CHR 0x0A \<notin> set (wl_archive_line lib r code reason))"

section \<open>Pieces\<close>

definition complete :: "string \<Rightarrow> bool" where
  "complete r \<longleftrightarrow> (\<exists>l. r = l @ [CHR 0x0A] \<and> CHR 0x0A \<notin> set l)"

lemma complete_Cons: "b \<noteq> CHR 0x0A \<Longrightarrow> complete (b # p) \<longleftrightarrow> complete p"
  by (auto simp: complete_def Cons_eq_append_conv)

lemma concat_split_inclusive [simp]: "concat (split_inclusive c) = c"
proof (induction c)
  case (Cons b c)
  then show ?case by (cases "split_inclusive c") auto
qed simp

lemma split_inclusive_line: "CHR 0x0A \<notin> set l \<Longrightarrow> split_inclusive (l @ CHR 0x0A # x) = (l @ [CHR 0x0A]) # split_inclusive x"
  by (induction l) auto

lemma split_inclusive_concat:
  "\<forall>r \<in> set rs. complete r \<Longrightarrow> split_inclusive (concat rs @ x) = rs @ split_inclusive x"
  by (induction rs) (auto simp: complete_def split_inclusive_line)

lemma split_inclusive_records: "\<forall>r \<in> set rs. complete r \<Longrightarrow> split_inclusive (concat rs) = rs"
  using split_inclusive_concat [of rs "[]"] by simp

lemma butlast_complete: "p \<in> set (butlast (split_inclusive c)) \<Longrightarrow> complete p"
proof (induction c arbitrary: p)
  case (Cons b c)
  show ?case
  proof (cases "b = CHR 0x0A")
    case True
    then show ?thesis
      using Cons by (cases "split_inclusive c") (auto simp: complete_def split: if_split_asm)
  next
    case False
    then show ?thesis
      using Cons by (cases "split_inclusive c") (auto simp: complete_Cons split: if_split_asm)
  qed
qed simp

lemma terminated_complete: "newline_terminated c \<Longrightarrow> \<forall>p \<in> set (split_inclusive c). complete p"
proof (induction c)
  case (Cons b c)
  show ?case
  proof (cases "c = []")
    case True
    then show ?thesis using Cons.prems by (auto simp: newline_terminated_def complete_def)
  next
    case False
    then have "newline_terminated c" using Cons.prems by (simp add: newline_terminated_def)
    note IH = Cons.IH [OF this]
    obtain p ps where split: "split_inclusive c = p # ps" using False by (cases "split_inclusive c"; cases c) (auto split: list.splits if_splits)
    show ?thesis using IH unfolding split by (cases "b = CHR 0x0A") (auto simp: split complete_Cons complete_def)
  qed
qed simp

lemma complete_terminated: "\<forall>p \<in> set ps. complete p \<Longrightarrow> newline_terminated (concat ps)"
  by (cases ps rule: rev_cases) (auto simp: newline_terminated_def complete_def)

text \<open>A complete piece of a file is a line of it, and stays one when bytes are appended.\<close>

lemma complete_piece_iff:
  assumes "complete r"
  shows "r \<in> set (split_inclusive c) \<longleftrightarrow> (\<exists>a b. c = a @ r @ b \<and> newline_terminated a)"
proof
  assume "r \<in> set (split_inclusive c)"
  then obtain ps qs where split: "split_inclusive c = ps @ r # qs" by (meson split_list)
  then have "set ps \<subseteq> set (butlast (split_inclusive c))" by (simp add: butlast_append)
  then have "\<forall>p \<in> set ps. complete p" using butlast_complete by blast
  moreover have "c = concat ps @ r @ concat qs"
    using concat_split_inclusive [of c] unfolding split by simp
  ultimately show "\<exists>a b. c = a @ r @ b \<and> newline_terminated a" using complete_terminated by blast
next
  assume "\<exists>a b. c = a @ r @ b \<and> newline_terminated a"
  then obtain a b where c: "c = a @ r @ b" "newline_terminated a" by blast
  have "split_inclusive (concat (split_inclusive a @ [r]) @ b) = (split_inclusive a @ [r]) @ split_inclusive b"
    using terminated_complete [OF c(2)] assms by (intro split_inclusive_concat) auto
  then show "r \<in> set (split_inclusive c)" using c(1) by simp
qed

lemma split_inclusive_keeps:
  assumes "complete r" and "r \<in> set (split_inclusive c)"
  shows "r \<in> set (split_inclusive (c @ x))"
proof -
  obtain a b where "c = a @ r @ b" "newline_terminated a" using assms by (auto simp: complete_piece_iff)
  then have "c @ x = a @ r @ (b @ x) \<and> newline_terminated a" by simp
  then show ?thesis using assms(1) complete_piece_iff by blast
qed

lemma repair_tail_append: "\<exists>x. repair_tail c = c @ x"
  by (auto simp: repair_tail_def)

lemma repair_tail_terminated: "newline_terminated (repair_tail c)"
  by (simp add: repair_tail_def newline_terminated_def)

lemma write_end_keeps:
  assumes "complete r" and "r \<in> set (split_inclusive c)"
  shows "r \<in> set (split_inclusive (write_end w bytes (repair_tail c)))"
  using repair_tail_append [of c] split_inclusive_keeps [OF assms] by (auto simp: write_end_def)

lemma write_end_line:
  assumes "CHR 0x0A \<notin> set l"
  shows "l @ [CHR 0x0A] \<in> set (split_inclusive (write_end Written (l @ [CHR 0x0A]) (repair_tail c)))"
proof -
  have "complete (l @ [CHR 0x0A])" using assms by (simp add: complete_def)
  then show ?thesis
    using repair_tail_terminated [of c] by (simp add: complete_piece_iff write_end_def) (metis append.right_neutral)
qed

section \<open>Nothing is lost\<close>

definition event_record :: "wal_lib \<Rightarrow> ExecutionEvent \<Rightarrow> string" where
  "event_record lib e = (case wl_encode lib e of Inr json \<Rightarrow> json @ [CHR 0x0A] | Inl _ \<Rightarrow> [])"

definition archived :: "wal_lib \<Rightarrow> string \<Rightarrow> wal_disk \<Rightarrow> bool" where
  "archived lib r disk \<longleftrightarrow>
     (\<exists>code reason. wl_archive_line lib r code reason @ [CHR 0x0A] \<in> set (split_inclusive (wd_archive disk)))"

text \<open>Where an accepted event can be.\<close>

definition safe :: "wal_lib \<Rightarrow> wal_disk \<Rightarrow> ExecutionEvent list \<Rightarrow> ExecutionEvent \<Rightarrow> bool" where
  "safe lib disk persisted e \<longleftrightarrow>
     e \<in> set persisted
   \<or> event_record lib e \<in> set (split_inclusive (wd_journal disk))
   \<or> archived lib (event_record lib e) disk"

definition journal_inv :: "Journal \<Rightarrow> wal_disk \<Rightarrow> bool" where
  "journal_inv j disk \<longleftrightarrow>
     wd_journal disk = concat (jr_records j) \<and> (\<forall>r \<in> set (jr_records j). complete r)
   \<and> jr_size j = length (wd_journal disk) \<and> (jr_max_bytes j < u64_max \<longrightarrow> jr_size j \<le> jr_max_bytes j)"

definition wal_inv :: "wal_lib \<Rightarrow> nat \<Rightarrow> wal_state \<Rightarrow> bool" where
  "wal_inv lib max_bytes s \<longleftrightarrow>
     (\<forall>j. ws_journal s = Some j \<longrightarrow> journal_inv j (ws_disk s) \<and> jr_max_bytes j = max_bytes)
   \<and> (\<forall>e \<in> set (ws_accepted s). complete (event_record lib e) \<and> wl_decode lib (event_record lib e) = Some e
        \<and> safe lib (ws_disk s) (ws_persisted s) e)"

lemma archived_write:
  assumes "wal_laws lib" and "archived lib r disk"
  shows "archived lib r (disk\<lparr>wd_archive := write_end w bytes (repair_tail (wd_archive disk))\<rparr>)"
proof -
  obtain code reason where "wl_archive_line lib r code reason @ [CHR 0x0A] \<in> set (split_inclusive (wd_archive disk))"
    using assms(2) by (auto simp: archived_def)
  moreover have "complete (wl_archive_line lib r code reason @ [CHR 0x0A])"
    using assms(1) by (auto simp: complete_def wal_laws_def)
  ultimately have "wl_archive_line lib r code reason @ [CHR 0x0A]
      \<in> set (split_inclusive (write_end w bytes (repair_tail (wd_archive disk))))"
    by (rule write_end_keeps [rotated])
  then show ?thesis by (auto simp: archived_def)
qed

lemma reject_facts:
  assumes "wal_laws lib" and "Journal_reject lib w bytes code reason disk = (r, disk')"
  shows "wd_journal disk' = wd_journal disk" and "archived lib x disk \<Longrightarrow> archived lib x disk'"
    and "r = Ok () \<Longrightarrow> archived lib bytes disk'"
proof -
  let ?line = "wl_archive_line lib bytes code reason"
  have d: "disk' = disk\<lparr>wd_archive := write_end w (?line @ [CHR 0x0A]) (repair_tail (wd_archive disk))\<rparr>"
    using assms(2) by (cases w) (auto simp: Journal_reject_def)
  show "wd_journal disk' = wd_journal disk" by (simp add: d)
  show "archived lib x disk \<Longrightarrow> archived lib x disk'" unfolding d by (rule archived_write [OF assms(1)])
  assume "r = Ok ()"
  then have "w = Written" using assms(2) by (cases w) (auto simp: Journal_reject_def)
  moreover have "CHR 0x0A \<notin> set ?line" using assms(1) by (simp add: wal_laws_def)
  ultimately show "archived lib bytes disk'" using write_end_line [of ?line] by (auto simp: archived_def d)
qed

text \<open>What the replay loop leaves behind.\<close>

definition loop_ok :: "wal_lib \<Rightarrow> string list \<Rightarrow> nat \<Rightarrow> wal_disk \<Rightarrow> replay_result \<Rightarrow> bool" where
  "loop_ok lib rs consumed disk loop \<longleftrightarrow>
     wd_journal (rr_disk loop) = wd_journal disk
   \<and> (\<forall>x. archived lib x disk \<longrightarrow> archived lib x (rr_disk loop))
   \<and> (\<forall>n. rr_consumed loop = Ok n \<longrightarrow> consumed \<le> n \<and> n \<le> consumed + length rs
        \<and> (\<forall>r \<in> set (take (n - consumed) rs).
              (\<exists>e \<in> set (rr_persisted loop). wl_decode lib r = Some e) \<or> archived lib r (rr_disk loop)))"

lemma loop_ok_stop:
  assumes "wd_journal disk' = wd_journal disk" and "\<And>x. archived lib x disk \<Longrightarrow> archived lib x disk'"
    and "r = Ok consumed \<or> (\<exists>e. r = Err e)"
  shows "loop_ok lib rs consumed disk (stop_replay r rejected disk')"
  using assms by (auto simp: loop_ok_def stop_replay_def)

lemma loop_ok_archive:
  assumes "loop_ok lib rs (consumed + 1) disk' rest" and "wal_laws lib"
    and "Journal_reject lib w r code reason disk = (Ok (), disk')"
  shows "loop_ok lib (r # rs) consumed disk (rest\<lparr>rr_archived := x\<rparr>)"
proof -
  note rej = reject_facts [OF assms(2,3)]
  have "archived lib r (rr_disk rest)" using assms(1) rej(3) by (simp add: loop_ok_def)
  moreover have "n - consumed = Suc (n - (consumed + 1))" if "consumed + 1 \<le> n" for n using that by simp
  ultimately show ?thesis using assms(1) rej(1,2) by (auto simp: loop_ok_def)
qed

lemma loop_ok_persisted:
  assumes "loop_ok lib rs (consumed + 1) disk rest" and "wl_decode lib r = Some e"
  shows "loop_ok lib (r # rs) consumed disk (rest\<lparr>rr_persisted := e # rr_persisted rest\<rparr>)"
proof -
  have "n - consumed = Suc (n - (consumed + 1))" if "consumed + 1 \<le> n" for n using that by simp
  then show ?thesis using assms by (auto simp: loop_ok_def)
qed

lemma replay_loop_ok:
  assumes "wal_laws lib"
  shows "loop_ok lib rs consumed disk (replay_loop lib credentials rs turns consumed disk)"
proof (induction rs arbitrary: turns consumed disk)
  case Nil
  then show ?case by (simp add: loop_ok_stop)
next
  case (Cons r rs)
  show ?case
  proof (cases turns)
    case Nil
    then show ?thesis by (simp add: loop_ok_stop)
  next
    case (Cons t ts)
    have rejects: "loop_ok lib (r # rs) consumed disk
        (case Journal_reject lib (tn_archive t) r code reason disk of
           (Inl e, disk') \<Rightarrow> stop_replay (Err e) False disk'
         | (Inr _, disk') \<Rightarrow>
             let rest = replay_loop lib credentials rs ts (consumed + 1) disk'
             in rest\<lparr>rr_archived := r # rr_archived rest\<rparr>)" for code reason
    proof -
      obtain res disk' where j: "Journal_reject lib (tn_archive t) r code reason disk = (res, disk')"
        by (cases "Journal_reject lib (tn_archive t) r code reason disk")
      note facts = reject_facts [OF assms j]
      show ?thesis
      proof (cases res)
        case (Inl e)
        then show ?thesis using j facts by (simp add: loop_ok_stop)
      next
        case (Inr u)
        have "loop_ok lib rs (consumed + 1) disk' (replay_loop lib credentials rs ts (consumed + 1) disk')"
          by (rule Cons.IH)
        then show ?thesis using loop_ok_archive [OF _ assms] j Inr by (simp add: Let_def)
      qed
    qed
    show ?thesis
      unfolding Cons replay_loop.simps
      using rejects loop_ok_persisted [OF Cons.IH]
      by (auto simp: loop_ok_stop Let_def split: option.split Submission.split)
  qed
qed

lemma safe_mono:
  assumes "safe lib disk persisted e" and "set persisted \<subseteq> set persisted'"
    and "event_record lib e \<in> set (split_inclusive (wd_journal disk)) \<Longrightarrow> safe lib disk' persisted' e"
    and "\<And>x. archived lib x disk \<Longrightarrow> archived lib x disk'"
  shows "safe lib disk' persisted' e"
  using assms by (auto simp: safe_def)

lemma archived_same [simp]: "archived lib x (disk\<lparr>wd_journal := c\<rparr>) = archived lib x disk"
  "archived lib x (disk\<lparr>wd_scope := sc\<rparr>) = archived lib x disk"
  by (simp_all add: archived_def)

lemma journal_inv_split:
  assumes "journal_inv j disk"
  shows "split_inclusive (wd_journal disk) = jr_records j" and "repair_tail (wd_journal disk) = wd_journal disk"
  using assms split_inclusive_records [of "jr_records j"] complete_terminated [of "jr_records j"]
  by (auto simp: journal_inv_def newline_terminated_def repair_tail_def)

lemma open_facts:
  assumes "Journal_open locked max_bytes scope disk = (r, disk')"
  shows "wd_journal disk' = wd_journal disk \<or> wd_journal disk' = repair_tail (wd_journal disk)"
    and "wd_archive disk' = wd_archive disk"
    and "r = Ok j \<Longrightarrow> journal_inv j disk' \<and> jr_max_bytes j = max_bytes"
  using assms terminated_complete [OF repair_tail_terminated [of "wd_journal disk"]]
  by (auto simp: Journal_open_def Let_def journal_inv_def split: if_split_asm sum.split_asm)

lemma append_facts:
  assumes "Journal_append lib w self event disk = (r, disk')" and "wal_laws lib"
  shows "wd_journal disk' = wd_journal disk \<or> (\<exists>bytes. wd_journal disk' = write_end w bytes (repair_tail (wd_journal disk)))"
    and "wd_archive disk' = wd_archive disk"
    and "r = Ok j \<Longrightarrow> journal_inv self disk \<Longrightarrow> journal_inv j disk' \<and> jr_max_bytes j = jr_max_bytes self"
    and "r = Ok j \<Longrightarrow> event_record lib event \<in> set (split_inclusive (wd_journal disk'))"
    and "r = Ok j \<Longrightarrow> complete (event_record lib event) \<and> wl_decode lib (event_record lib event) = Some event"
proof -
  show "wd_journal disk' = wd_journal disk \<or> (\<exists>bytes. wd_journal disk' = write_end w bytes (repair_tail (wd_journal disk)))"
    and "wd_archive disk' = wd_archive disk"
    using assms(1) by (auto simp: Journal_append_def Let_def split: if_split_asm sum.split_asm write_outcome.split_asm)
next
  assume "r = Ok j"
  then obtain json where json: "wl_encode lib event = Ok json" and w: "w = Written"
    and room: "sat_add (jr_size self) (length json + 1) \<le> jr_max_bytes self"
    and j: "j = self\<lparr>jr_size := jr_size self + (length json + 1), jr_records := jr_records self @ [json @ [CHR 0x0A]]\<rparr>"
    and d: "disk' = disk\<lparr>wd_journal := write_end w (json @ [CHR 0x0A]) (repair_tail (wd_journal disk))\<rparr>"
    using assms(1) by (auto simp: Journal_append_def Let_def split: if_split_asm sum.split_asm write_outcome.split_asm)
  have free: "CHR 0x0A \<notin> set json" "wl_decode lib (json @ [CHR 0x0A]) = Some event"
    using assms(2) json by (auto simp: wal_laws_def)
  show "event_record lib event \<in> set (split_inclusive (wd_journal disk'))"
    using write_end_line [OF free(1)] by (simp add: d w event_record_def json)
  show "complete (event_record lib event) \<and> wl_decode lib (event_record lib event) = Some event"
    using free by (auto simp: event_record_def json complete_def)
  assume "journal_inv self disk"
  then show "journal_inv j disk' \<and> jr_max_bytes j = jr_max_bytes self"
    using journal_inv_split(2) [of self disk] room free(1)
    by (auto simp: journal_inv_def j d w write_end_def complete_def sat_add_def)
qed

lemma reclaim_inv:
  assumes "journal_inv self disk" and "Journal_reclaim replaced synced self count disk = (r, disk')"
  shows "wd_archive disk' = wd_archive disk"
    and "wd_journal disk' = wd_journal disk \<or> wd_journal disk' = concat (drop count (jr_records self))"
    and "r = Ok j \<Longrightarrow> journal_inv j disk' \<and> jr_max_bytes j = jr_max_bytes self"
proof -
  show "wd_archive disk' = wd_archive disk"
    and "wd_journal disk' = wd_journal disk \<or> wd_journal disk' = concat (drop count (jr_records self))"
    using assms(2) by (auto simp: Journal_reclaim_def Let_def split: if_split_asm)
next
  assume ok: "r = Ok j"
  have "length (concat (take count (jr_records self)) @ concat (drop count (jr_records self))) = jr_size self"
    using assms(1) unfolding concat_append [symmetric] append_take_drop_id by (simp add: journal_inv_def)
  then have "length (concat (drop count (jr_records self))) \<le> jr_size self" by simp
  moreover have "\<forall>x \<in> set (drop count (jr_records self)). complete x"
    using assms(1) by (meson in_set_dropD journal_inv_def)
  ultimately show "journal_inv j disk' \<and> jr_max_bytes j = jr_max_bytes self"
  proof (cases "count = 0")
    case False
    then have j: "j = self\<lparr>jr_records := drop count (jr_records self), jr_size := length (concat (drop count (jr_records self)))\<rparr>"
      and d: "disk' = disk\<lparr>wd_journal := concat (drop count (jr_records self))\<rparr>"
      using assms(2) ok by (simp_all add: Journal_reclaim_def Let_def split: if_split_asm)
    show ?thesis using assms(1) \<open>length _ \<le> _\<close> \<open>\<forall>x \<in> _. _\<close> unfolding j d by (auto simp: journal_inv_def)
  qed (use assms ok in \<open>simp add: Journal_reclaim_def\<close>)
qed

lemma archived_cong: "wd_archive disk' = wd_archive disk \<Longrightarrow> archived lib x disk' = archived lib x disk"
  by (simp add: archived_def)

text \<open>A replay ends with its loop, or with the reclamation of what the loop consumed.\<close>

lemma replay_ends:
  assumes inv: "journal_inv self disk" and laws: "wal_laws lib"
    and replay: "wal_replay lib credentials turns replaced synced self disk = (r, result)"
  obtains loop where "loop_ok lib (take REPLAY_LIMIT (jr_records self)) 0 disk loop"
    and "wd_archive (rr_disk result) = wd_archive (rr_disk loop)" and "rr_persisted result = rr_persisted loop"
    and "wd_journal (rr_disk result) = wd_journal disk
       \<or> (\<exists>n. rr_consumed loop = Ok n \<and> wd_journal (rr_disk result) = concat (drop n (jr_records self)))"
    and "\<forall>j. r = Ok j \<longrightarrow> journal_inv j (rr_disk result) \<and> jr_max_bytes j = jr_max_bytes self"
proof -
  define loop where "loop = replay_loop lib credentials (take REPLAY_LIMIT (jr_records self)) turns 0 disk"
  have ok: "loop_ok lib (take REPLAY_LIMIT (jr_records self)) 0 disk loop"
    unfolding loop_def by (rule replay_loop_ok [OF laws])
  then have same: "wd_journal (rr_disk loop) = wd_journal disk" by (simp add: loop_ok_def)
  then have inv': "journal_inv self (rr_disk loop)" using inv by (auto simp: journal_inv_def)
  note res = replay [unfolded wal_replay_def Let_def, folded loop_def]
  show ?thesis
  proof (cases "rr_consumed loop")
    case (Inl e)
    then have "result = loop" "r = Err e" using res by simp_all
    then show ?thesis using ok same by (intro that [of loop]) simp_all
  next
    case (Inr n)
    obtain r' disk' where rec: "Journal_reclaim replaced synced self n (rr_disk loop) = (r', disk')"
      by (cases "Journal_reclaim replaced synced self n (rr_disk loop)")
    note facts = reclaim_inv [OF inv' rec]
    have res': "result = loop\<lparr>rr_disk := disk'\<rparr>" "r = r'" using res Inr rec by simp_all
    show ?thesis
    proof (rule that [OF ok])
      show "wd_journal (rr_disk result) = wd_journal disk
         \<or> (\<exists>n. rr_consumed loop = Ok n \<and> wd_journal (rr_disk result) = concat (drop n (jr_records self)))"
        using facts(2) Inr same by (simp add: res')
      show "\<forall>j. r = Ok j \<longrightarrow> journal_inv j (rr_disk result) \<and> jr_max_bytes j = jr_max_bytes self"
        unfolding res' by (intro allI impI) (drule facts(3), simp)
    qed (simp_all add: res' facts(1))
  qed
qed

lemma replay_facts:
  assumes inv: "journal_inv self disk" and laws: "wal_laws lib"
    and replay: "wal_replay lib credentials turns replaced synced self disk = (r, result)"
  shows "r = Ok j \<Longrightarrow> journal_inv j (rr_disk result) \<and> jr_max_bytes j = jr_max_bytes self"
    and "archived lib x disk \<Longrightarrow> archived lib x (rr_disk result)"
    and "\<lbrakk>x \<in> set (split_inclusive (wd_journal disk)); wl_decode lib x = Some e\<rbrakk> \<Longrightarrow>
           x \<in> set (split_inclusive (wd_journal (rr_disk result))) \<or> e \<in> set (rr_persisted result) \<or> archived lib x (rr_disk result)"
proof -
  obtain loop where ok: "loop_ok lib (take REPLAY_LIMIT (jr_records self)) 0 disk loop"
    and archive: "wd_archive (rr_disk result) = wd_archive (rr_disk loop)"
    and persisted: "rr_persisted result = rr_persisted loop"
    and journal: "wd_journal (rr_disk result) = wd_journal disk
       \<or> (\<exists>n. rr_consumed loop = Ok n \<and> wd_journal (rr_disk result) = concat (drop n (jr_records self)))"
    and kept: "\<forall>j. r = Ok j \<longrightarrow> journal_inv j (rr_disk result) \<and> jr_max_bytes j = jr_max_bytes self"
    by (rule replay_ends [OF assms])
  show "r = Ok j \<Longrightarrow> journal_inv j (rr_disk result) \<and> jr_max_bytes j = jr_max_bytes self" using kept by simp
  show "archived lib x disk \<Longrightarrow> archived lib x (rr_disk result)"
    using ok archived_cong [OF archive] by (simp add: loop_ok_def)
  assume x: "x \<in> set (split_inclusive (wd_journal disk))" "wl_decode lib x = Some e"
  show "x \<in> set (split_inclusive (wd_journal (rr_disk result))) \<or> e \<in> set (rr_persisted result) \<or> archived lib x (rr_disk result)"
  proof (cases "wd_journal (rr_disk result) = wd_journal disk")
    case False
    then obtain n where n: "rr_consumed loop = Ok n" and rest: "wd_journal (rr_disk result) = concat (drop n (jr_records self))"
      using journal by blast
    have "set (jr_records self) = set (take n (jr_records self)) \<union> set (drop n (jr_records self))"
      unfolding set_append [symmetric] append_take_drop_id ..
    then have "x \<in> set (take n (jr_records self)) \<or> x \<in> set (drop n (jr_records self))"
      using x(1) unfolding journal_inv_split(1) [OF inv] by blast
    then show ?thesis
    proof
      assume "x \<in> set (take n (jr_records self))"
      moreover have "n \<le> length (take REPLAY_LIMIT (jr_records self))" using ok n by (simp add: loop_ok_def)
      ultimately have "x \<in> set (take n (take REPLAY_LIMIT (jr_records self)))" by (simp add: min_absorb1)
      then have "(\<exists>e \<in> set (rr_persisted loop). wl_decode lib x = Some e) \<or> archived lib x (rr_disk loop)"
        using ok n by (simp add: loop_ok_def)
      then show ?thesis using x(2) archived_cong [OF archive] by (auto simp: persisted)
    next
      assume "x \<in> set (drop n (jr_records self))"
      moreover have "\<forall>y \<in> set (drop n (jr_records self)). complete y"
        using inv by (meson in_set_dropD journal_inv_def)
      ultimately show ?thesis by (simp add: rest split_inclusive_records)
    qed
  next
    case True
    then show ?thesis using x(1) by (simp only:) simp
  qed
qed

lemma step_journal_inv:
  assumes "wal_step lib credentials max_bytes scope s s'" and "wal_laws lib" and inv: "wal_inv lib max_bytes s"
    and "ws_journal s' = Some j"
  shows "journal_inv j (ws_disk s') \<and> jr_max_bytes j = max_bytes"
  using assms(1)
proof cases
  case (opened locked r disk')
  then show ?thesis using open_facts(3) [OF opened(3)] assms(4) by (cases r) simp_all
next
  case (received j0 w event r disk')
  have "journal_inv j0 (ws_disk s) \<and> jr_max_bytes j0 = max_bytes" using inv received(2) by (simp add: wal_inv_def)
  then show ?thesis using append_facts(3) [OF received(3) assms(2)] received(1) assms(4) by (cases r) simp_all
next
  case (ticked j0 turns replaced synced r loop)
  have "journal_inv j0 (ws_disk s) \<and> jr_max_bytes j0 = max_bytes" using inv ticked(2) by (simp add: wal_inv_def)
  then show ?thesis using replay_facts(1) [OF _ assms(2) ticked(3)] ticked(1) assms(4) by (cases r) simp_all
next
  case crashed
  then show ?thesis using assms(4) by simp
qed

text \<open>A step keeps an accepted event safe.\<close>

lemma step_keeps_safe:
  assumes "wal_step lib credentials max_bytes scope s s'" and laws: "wal_laws lib" and inv: "wal_inv lib max_bytes s"
    and event: "complete (event_record lib e)" "wl_decode lib (event_record lib e) = Some e"
    and safe: "safe lib (ws_disk s) (ws_persisted s) e"
  shows "safe lib (ws_disk s') (ws_persisted s') e"
  using assms(1)
proof cases
  case (opened locked r disk')
  note facts = open_facts(1,2) [OF opened(3)]
  have "event_record lib e \<in> set (split_inclusive (wd_journal (ws_disk s))) \<Longrightarrow> event_record lib e \<in> set (split_inclusive (wd_journal disk'))"
    using facts(1) repair_tail_append [of "wd_journal (ws_disk s)"] split_inclusive_keeps [OF event(1)] by metis
  then show ?thesis using safe archived_cong [OF facts(2)] opened(1) by (auto simp: safe_def)
next
  case (received j0 w event' r disk')
  note facts = append_facts(1,2) [OF received(3) laws]
  have "event_record lib e \<in> set (split_inclusive (wd_journal (ws_disk s))) \<Longrightarrow> event_record lib e \<in> set (split_inclusive (wd_journal disk'))"
    using facts(1) write_end_keeps [OF event(1)] by metis
  then show ?thesis using safe archived_cong [OF facts(2)] received(1) by (auto simp: safe_def)
next
  case (ticked j0 turns replaced synced r loop)
  have "journal_inv j0 (ws_disk s)" using inv ticked(2) by (simp add: wal_inv_def)
  note facts = replay_facts(2,3) [OF this laws ticked(3)]
  show ?thesis using safe facts(1) [of "event_record lib e"] facts(2) [OF _ event(2)] ticked(1) by (auto simp: safe_def)
next
  case crashed
  then show ?thesis using safe by simp
qed

lemma step_inv:
  assumes step: "wal_step lib credentials max_bytes scope s s'" and laws: "wal_laws lib" and inv: "wal_inv lib max_bytes s"
  shows "wal_inv lib max_bytes s'"
proof -
  have old: "complete (event_record lib e) \<and> wl_decode lib (event_record lib e) = Some e \<and> safe lib (ws_disk s') (ws_persisted s') e"
    if "e \<in> set (ws_accepted s)" for e
    using that inv step_keeps_safe [OF step laws inv] by (simp add: wal_inv_def)
  have new: "complete (event_record lib e) \<and> wl_decode lib (event_record lib e) = Some e \<and> safe lib (ws_disk s') (ws_persisted s') e"
    if mem: "e \<in> set (ws_accepted s')" "e \<notin> set (ws_accepted s)" for e
    using step
  proof cases
    case (received j0 w event r disk')
    have "e = event" "is_ok r" using mem received(1) by (simp_all split: if_split_asm)
    then obtain j where "r = Ok j" by (cases r) simp_all
    then show ?thesis using append_facts(4,5) [OF received(3) laws] received(1) \<open>e = event\<close> by (simp add: safe_def)
  qed (use mem in simp_all)
  show ?thesis using old new step_journal_inv [OF step laws inv] unfolding wal_inv_def by blast
qed

lemma reach_inv:
  assumes "(wal_step lib credentials max_bytes scope)\<^sup>*\<^sup>* s0 s" and "wal_laws lib"
    and "ws_journal s0 = None" and "ws_accepted s0 = []"
  shows "wal_inv lib max_bytes s"
  using assms(1)
proof induction
  case base
  then show ?case using assms(3,4) by (simp add: wal_inv_def)
next
  case (step t u)
  show ?case by (rule step_inv [OF step(2) assms(2) step.IH])
qed

text \<open>
  C7. No accepted audit event is lost. An event whose append returned is, at every later moment, one the audit
  service acknowledged as persisted, or a whole record of the journal file, or a line of the rejection archive;
  whatever the answers of the service, however often a write fails half way or the process dies and starts
  again.
\<close>

theorem no_event_lost:
  assumes "wal_laws lib" and "(wal_step lib credentials max_bytes scope)\<^sup>*\<^sup>* s0 s"
    and "ws_journal s0 = None" and "ws_accepted s0 = []" and "e \<in> set (ws_accepted s)"
  shows "e \<in> set (ws_persisted s)
       \<or> (\<exists>json. wl_encode lib e = Ok json
            \<and> (json @ [CHR 0x0A] \<in> set (split_inclusive (wd_journal (ws_disk s)))
             \<or> (\<exists>code reason. wl_archive_line lib (json @ [CHR 0x0A]) code reason @ [CHR 0x0A]
                   \<in> set (split_inclusive (wd_archive (ws_disk s))))))"
proof -
  have inv: "complete (event_record lib e)" "safe lib (ws_disk s) (ws_persisted s) e"
    using reach_inv [OF assms(2,1,3,4)] assms(5) by (simp_all add: wal_inv_def)
  obtain json where "wl_encode lib e = Ok json" "event_record lib e = json @ [CHR 0x0A]"
    using inv(1) by (cases "wl_encode lib e") (simp_all add: event_record_def complete_def)
  then show ?thesis using inv(2) by (simp add: safe_def archived_def)
qed

text \<open>
  C34. The journal in memory is the journal on disk and stays within its capacity: while the sink runs, its
  records are the lines of the file, every one of them ends in a newline, and the file has at most
  \<open>wal_max_bytes\<close> bytes.
\<close>

theorem journal_bounded:
  assumes "wal_laws lib" and "(wal_step lib credentials max_bytes scope)\<^sup>*\<^sup>* s0 s"
    and "ws_journal s0 = None" and "ws_accepted s0 = []"
    and "ws_journal s = Some j" and "max_bytes < u64_max"
  shows "jr_records j = split_inclusive (wd_journal (ws_disk s))
    \<and> newline_terminated (wd_journal (ws_disk s))
    \<and> jr_size j = length (wd_journal (ws_disk s)) \<and> length (wd_journal (ws_disk s)) \<le> max_bytes"
proof -
  have inv: "journal_inv j (ws_disk s)" "jr_max_bytes j = max_bytes"
    using reach_inv [OF assms(2,1,3,4)] assms(5) by (simp_all add: wal_inv_def)
  have "newline_terminated (concat (jr_records j))" using inv(1) complete_terminated by (simp add: journal_inv_def)
  then show ?thesis using inv journal_inv_split(1) [OF inv(1)] assms(6) by (simp add: journal_inv_def) metis
qed

text \<open>
  A journal goes out only under the scope that wrote it: opening a journal that still holds bytes succeeds
  only when no other writer holds it and the stored scope (endpoint, workspace and sidecar, run) is exactly the
  one it is opened for.  A successful open leaves that scope stored; a refused one deletes nothing.
\<close>

theorem foreign_journal_refused:
  "case Journal_open locked max_bytes scope disk of
     (Inr j, disk') \<Rightarrow> \<not> locked \<and> wd_scope disk' = ScopeStored scope
        \<and> (wd_journal disk = [] \<or> wd_scope disk = ScopeStored scope)
        \<and> concat (jr_records j) = repair_tail (wd_journal disk)
   | (Inl e, disk') \<Rightarrow> wd_archive disk' = wd_archive disk
        \<and> (wd_journal disk' = wd_journal disk \<or> wd_journal disk' = wd_journal disk @ [CHR 0x0A])"
  by (auto simp: Journal_open_def scope_check_def Let_def repair_tail_def split: scope_file.split sum.split)

section \<open>Progress\<close>

text \<open>A turn settles a record: it is acknowledged, or it is archived.\<close>

definition settles :: "wal_lib \<Rightarrow> string \<Rightarrow> turn \<Rightarrow> bool" where
  "settles lib r t \<longleftrightarrow>
     \<not> tn_cancelled t \<and> tn_archive t = Written
   \<and> (case wl_decode lib r of
        None \<Rightarrow> True
      | Some e \<Rightarrow> (case tn_answer t of
            Receipt d n i \<Rightarrow> d \<and> n = 1 \<and> i = ee_event_id e
          | RpcStatus code _ \<Rightarrow> code = OtherStatus 3
          | _ \<Rightarrow> False))"

lemma loop_settles:
  assumes "list_all2 (settles lib) rs (take (length rs) turns)"
  shows "rr_consumed (replay_loop lib credentials rs turns consumed disk) = Ok (consumed + length rs)
     \<and> \<not> rr_run_rejected (replay_loop lib credentials rs turns consumed disk)"
  using assms
proof (induction rs arbitrary: turns consumed disk)
  case (Cons r rs)
  then obtain t ts where turns: "turns = t # ts" and t: "settles lib r t" and rest: "list_all2 (settles lib) rs (take (length rs) ts)"
    by (cases turns) simp_all
  show ?case
    using Cons.IH [OF rest] t unfolding turns
    by (auto simp: settles_def submit_def Journal_reject_def Let_def split: option.split_asm rpc_answer.split_asm)
qed (simp add: stop_replay_def)

text \<open>
  C35. Replay makes progress: when every record of a batch is settled, one replay succeeds and the journal, in
  memory and on disk, has exactly the records after the batch left. So a queue of any length drains, a batch of
  \<open>REPLAY_LIMIT\<close> at a time, and a record the service refuses does not hold up the records behind it.
\<close>

theorem replay_progress:
  assumes "list_all2 (settles lib) (take REPLAY_LIMIT (jr_records j)) (take (min REPLAY_LIMIT (length (jr_records j))) turns)"
  shows "\<exists>j' result. wal_replay lib credentials turns True True j disk = (Ok j', result)
     \<and> jr_records j' = drop REPLAY_LIMIT (jr_records j)
     \<and> (jr_records j \<noteq> [] \<longrightarrow> wd_journal (rr_disk result) = concat (drop REPLAY_LIMIT (jr_records j)))"
proof -
  let ?batch = "take REPLAY_LIMIT (jr_records j)"
  have batch: "rr_consumed (replay_loop lib credentials ?batch turns 0 disk) = Ok (length ?batch)"
    using loop_settles [of lib ?batch turns] assms by (simp add: min.commute)
  have drop: "drop (length ?batch) (jr_records j) = drop REPLAY_LIMIT (jr_records j)"
    by (cases "length (jr_records j) \<le> REPLAY_LIMIT") (simp_all add: min_def)
  have replay: "wal_replay lib credentials turns True True j disk =
      (let loop = replay_loop lib credentials ?batch turns 0 disk in
       case Journal_reclaim True True j (length ?batch) (rr_disk loop) of (r, disk') \<Rightarrow> (r, loop\<lparr>rr_disk := disk'\<rparr>))"
    unfolding wal_replay_def Let_def batch by simp
  show ?thesis
  proof (cases "jr_records j = []")
    case False
    then have "length ?batch \<noteq> 0" by (simp add: REPLAY_LIMIT_def)
    then show ?thesis unfolding replay Journal_reclaim_def Let_def drop by (simp del: length_take)
  qed (simp add: replay Journal_reclaim_def Let_def)
qed

section \<open>A run\<close>

text \<open>An encoding that writes one event as a letter and reads nothing else.\<close>

definition sample_wal_lib :: wal_lib where
  "sample_wal_lib =
     \<lparr>wl_encode = (\<lambda>e. if e = sample_event then Ok ''e'' else Err ''no''),
      wl_decode = (\<lambda>r. if r = ''e'' @ [CHR 0x0A] then Some sample_event else None),
      wl_archive_line = (\<lambda>r code reason. ''archived'')\<rparr>"

definition sample_scope :: Scope where
  "sample_scope = Scope_new ''https://audit'' (Some (''wsp_1'', ''sdc_1'', None))"

text \<open>
  The sink opens an empty journal, an append is torn after the first byte and the process ends, a second
  process opens the journal, whose torn record it repairs, and appends the event.
\<close>

definition wal_at :: "string \<Rightarrow> scope_file \<Rightarrow> string list option \<Rightarrow> ExecutionEvent list \<Rightarrow> wal_state" where
  "wal_at contents scope records accepted =
     \<lparr>ws_disk = \<lparr>wd_journal = contents, wd_scope = scope, wd_archive = []\<rparr>,
      ws_journal = map_option (\<lambda>rs. \<lparr>jr_max_bytes = 100, jr_size = length (concat rs), jr_records = rs\<rparr>) records,
      ws_accepted = accepted, ws_persisted = []\<rparr>"

lemma sample_wal_laws: "wal_laws sample_wal_lib"
  by (simp add: wal_laws_def sample_wal_lib_def)

lemma sample_run:
  "(wal_step sample_wal_lib None 100 sample_scope)\<^sup>*\<^sup>* (wal_at [] ScopeMissing None [])
     (wal_at (''e'' @ [CHR 0x0A] @ ''e'' @ [CHR 0x0A]) (ScopeStored sample_scope)
        (Some [''e'' @ [CHR 0x0A], ''e'' @ [CHR 0x0A]]) [sample_event])"
proof -
  let ?step = "wal_step sample_wal_lib None 100 sample_scope" and ?sc = "ScopeStored sample_scope"
  have 1: "?step (wal_at [] ScopeMissing None []) (wal_at [] ?sc (Some []) [])"
    using wal_step.opened [of "wal_at [] ScopeMissing None []" False 100 sample_scope _ _ sample_wal_lib None, OF _ surjective_pairing]
    by (simp add: wal_at_def Journal_open_def scope_check_def repair_tail_def Let_def)
  have 2: "?step (wal_at [] ?sc (Some []) []) (wal_at ''e'' ?sc None [])"
    using wal_step.received [of "wal_at [] ?sc (Some []) []" _ sample_wal_lib "WriteFailed 1" sample_event _ _ None 100 sample_scope, OF _ surjective_pairing]
    by (simp add: wal_at_def Journal_append_def repair_tail_def write_end_def sample_wal_lib_def sat_add_def u64_max_def Let_def)
  have 3: "?step (wal_at ''e'' ?sc None []) (wal_at (''e'' @ [CHR 0x0A]) ?sc (Some [''e'' @ [CHR 0x0A]]) [])"
    using wal_step.opened [of "wal_at ''e'' ?sc None []" False 100 sample_scope _ _ sample_wal_lib None, OF _ surjective_pairing]
    by (simp add: wal_at_def Journal_open_def scope_check_def repair_tail_def Let_def)
  have 4: "?step (wal_at (''e'' @ [CHR 0x0A]) ?sc (Some [''e'' @ [CHR 0x0A]]) [])
     (wal_at (''e'' @ [CHR 0x0A] @ ''e'' @ [CHR 0x0A]) ?sc (Some [''e'' @ [CHR 0x0A], ''e'' @ [CHR 0x0A]]) [sample_event])"
    using wal_step.received [of "wal_at (''e'' @ [CHR 0x0A]) ?sc (Some [''e'' @ [CHR 0x0A]]) []" _ sample_wal_lib Written sample_event _ _ None 100 sample_scope, OF _ surjective_pairing]
    by (simp add: wal_at_def Journal_append_def repair_tail_def write_end_def sample_wal_lib_def sat_add_def u64_max_def Let_def)
  show ?thesis
    by (rule converse_rtranclp_into_rtranclp [of ?step, OF 1], rule converse_rtranclp_into_rtranclp [of ?step, OF 2],
        rule converse_rtranclp_into_rtranclp [of ?step, OF 3], rule r_into_rtranclp [of ?step, OF 4])
qed

abbreviation sample_wal_state :: wal_state where
  "sample_wal_state \<equiv> wal_at (''e'' @ [CHR 0x0A] @ ''e'' @ [CHR 0x0A]) (ScopeStored sample_scope)
     (Some [''e'' @ [CHR 0x0A], ''e'' @ [CHR 0x0A]]) [sample_event]"

theorem no_event_lost_witness:
  "sample_event \<in> set (ws_accepted sample_wal_state)
   \<and> (\<exists>json. wl_encode sample_wal_lib sample_event = Ok json
        \<and> json @ [CHR 0x0A] \<in> set (split_inclusive (wd_journal (ws_disk sample_wal_state))))"
proof -
  have "sample_event \<in> set (ws_accepted sample_wal_state)" by (simp add: wal_at_def)
  moreover note no_event_lost [OF sample_wal_laws sample_run _ _ this]
  ultimately show ?thesis by (simp add: wal_at_def)
qed

theorem journal_bounded_witness:
  "length (wd_journal (ws_disk sample_wal_state)) \<le> 100 \<and> newline_terminated (wd_journal (ws_disk sample_wal_state))"
  using journal_bounded [OF sample_wal_laws sample_run, of "\<lparr>jr_max_bytes = 100, jr_size = 4, jr_records = [''e'' @ [CHR 0x0A], ''e'' @ [CHR 0x0A]]\<rparr>"]
  by (simp add: wal_at_def u64_max_def)

theorem replay_progress_witness:
  "\<exists>j' result. wal_replay sample_wal_lib None
      [\<lparr>tn_cancelled = False, tn_answer = Receipt True 1 (ee_event_id sample_event), tn_archive = Written\<rparr>,
       \<lparr>tn_cancelled = False, tn_answer = RpcStatus (OtherStatus 3) ''no'', tn_archive = Written\<rparr>]
      True True \<lparr>jr_max_bytes = 100, jr_size = 4, jr_records = [''e'' @ [CHR 0x0A], ''x'' @ [CHR 0x0A]]\<rparr>
      \<lparr>wd_journal = ''e'' @ [CHR 0x0A] @ ''x'' @ [CHR 0x0A], wd_scope = ScopeMissing, wd_archive = []\<rparr> = (Ok j', result)
    \<and> jr_records j' = [] \<and> wd_journal (rr_disk result) = []"
  using replay_progress [of sample_wal_lib "\<lparr>jr_max_bytes = 100, jr_size = 4, jr_records = [''e'' @ [CHR 0x0A], ''x'' @ [CHR 0x0A]]\<rparr>"
    "[\<lparr>tn_cancelled = False, tn_answer = Receipt True 1 (ee_event_id sample_event), tn_archive = Written\<rparr>,
       \<lparr>tn_cancelled = False, tn_answer = RpcStatus (OtherStatus 3) ''no'', tn_archive = Written\<rparr>]" None
    "\<lparr>wd_journal = ''e'' @ [CHR 0x0A] @ ''x'' @ [CHR 0x0A], wd_scope = ScopeMissing, wd_archive = []\<rparr>"]
  by (simp add: REPLAY_LIMIT_def settles_def sample_wal_lib_def)

end
