(* ===== verification/Seccomp.thy ===== *)
theory Seccomp
  imports Firma_Prelude "HOL-Library.Word"
begin

text \<open>
  The managed seccomp policy of a sandboxed run (\<^verbatim>\<open>firma-run/src/seccomp.rs\<close>): the translation of denied action
  classes into system calls, the compiler that emits a classic BPF program byte by byte, and the artifacts it
  writes or loads.

  The program is emitted as bytes in the byte order of the machine, which is little endian on both targets.  What
  the bytes mean to the kernel is the reference semantics \<open>bpf_run\<close> below, for the three instructions the
  compiler uses.  Errors carry the values the messages print.  JSON, TOML and SHA-256 are parameters.
\<close>

section \<open>Architectures and system calls\<close>

datatype TargetArch = X86_64 | Aarch64

fun TargetArch_as_str :: "TargetArch \<Rightarrow> string" where
  "TargetArch_as_str X86_64 = ''x86_64''"
| "TargetArch_as_str Aarch64 = ''aarch64''"

fun audit_arch_value :: "TargetArch \<Rightarrow> 32 word" where
  "audit_arch_value X86_64 = 0xC000003E"
| "audit_arch_value Aarch64 = 0xC00000B7"

datatype SyscallId =
    Execve | Execveat | Rename | Renameat | Renameat2 | Rmdir | Setgid | Setresgid | Setresuid | Setuid | Unlink
  | Unlinkat

fun syscall_name :: "SyscallId \<Rightarrow> string" where
  "syscall_name Execve = ''execve''"
| "syscall_name Execveat = ''execveat''"
| "syscall_name Rename = ''rename''"
| "syscall_name Renameat = ''renameat''"
| "syscall_name Renameat2 = ''renameat2''"
| "syscall_name Rmdir = ''rmdir''"
| "syscall_name Setgid = ''setgid''"
| "syscall_name Setresgid = ''setresgid''"
| "syscall_name Setresuid = ''setresuid''"
| "syscall_name Setuid = ''setuid''"
| "syscall_name Unlink = ''unlink''"
| "syscall_name Unlinkat = ''unlinkat''"

fun number_for_arch :: "SyscallId \<Rightarrow> TargetArch \<Rightarrow> 32 word option" where
  "number_for_arch Execve X86_64 = Some 59"
| "number_for_arch Execveat X86_64 = Some 322"
| "number_for_arch Rename X86_64 = Some 82"
| "number_for_arch Renameat X86_64 = Some 264"
| "number_for_arch Renameat2 X86_64 = Some 316"
| "number_for_arch Rmdir X86_64 = Some 84"
| "number_for_arch Setgid X86_64 = Some 106"
| "number_for_arch Setresgid X86_64 = Some 119"
| "number_for_arch Setresuid X86_64 = Some 117"
| "number_for_arch Setuid X86_64 = Some 105"
| "number_for_arch Unlink X86_64 = Some 87"
| "number_for_arch Unlinkat X86_64 = Some 263"
| "number_for_arch Execve Aarch64 = Some 221"
| "number_for_arch Execveat Aarch64 = Some 281"
| "number_for_arch Rename Aarch64 = None"
| "number_for_arch Rmdir Aarch64 = None"
| "number_for_arch Unlink Aarch64 = None"
| "number_for_arch Renameat Aarch64 = Some 38"
| "number_for_arch Renameat2 Aarch64 = Some 276"
| "number_for_arch Setgid Aarch64 = Some 144"
| "number_for_arch Setresgid Aarch64 = Some 149"
| "number_for_arch Setresuid Aarch64 = Some 147"
| "number_for_arch Setuid Aarch64 = Some 146"
| "number_for_arch Unlinkat Aarch64 = Some 35"

text \<open>The derived order is the order of declaration.\<close>

fun syscall_index :: "SyscallId \<Rightarrow> nat" where
  "syscall_index Execve = 0"
| "syscall_index Execveat = 1"
| "syscall_index Rename = 2"
| "syscall_index Renameat = 3"
| "syscall_index Renameat2 = 4"
| "syscall_index Rmdir = 5"
| "syscall_index Setgid = 6"
| "syscall_index Setresgid = 7"
| "syscall_index Setresuid = 8"
| "syscall_index Setuid = 9"
| "syscall_index Unlink = 10"
| "syscall_index Unlinkat = 11"

lemma syscall_index_inject: "syscall_index a = syscall_index b \<Longrightarrow> a = b"
  by (cases a; cases b) simp_all

lemma syscall_index_bound: "syscall_index s < 12"
  by (cases s) simp_all

instantiation SyscallId :: linorder
begin

definition less_eq_SyscallId :: "SyscallId \<Rightarrow> SyscallId \<Rightarrow> bool" where
  "less_eq_SyscallId a b \<longleftrightarrow> syscall_index a \<le> syscall_index b"

definition less_SyscallId :: "SyscallId \<Rightarrow> SyscallId \<Rightarrow> bool" where
  "less_SyscallId a b \<longleftrightarrow> syscall_index a < syscall_index b"

instance
  by standard (auto simp: less_eq_SyscallId_def less_SyscallId_def dest: syscall_index_inject)

end

section \<open>From actions to system calls\<close>

text \<open>The system calls of one action, or the action itself when it is unsupported.\<close>

definition action_syscalls :: "string \<Rightarrow> SyscallId list option" where
  "action_syscalls action =
     (if action = ''system.execute'' then Some [Execve, Execveat]
      else if action = ''filesystem.delete'' then Some [Unlink, Unlinkat, Rmdir, Rename, Renameat, Renameat2]
      else if action = ''credential.write'' then Some [Setuid, Setgid, Setresuid, Setresgid]
      else None)"

text \<open>The set of calls is a \<^verbatim>\<open>BTreeSet\<close>, iterated in order.\<close>

definition map_actions_to_syscalls :: "string list \<Rightarrow> SyscallId list \<times> string list" where
  "map_actions_to_syscalls actions =
     (let (syscalls, unsupported) =
        fold (\<lambda>action (syscalls, unsupported).
          case action_syscalls action of
            Some calls \<Rightarrow> (syscalls @ calls, unsupported)
          | None \<Rightarrow> (syscalls, unsupported @ [action])) actions ([], [])
      in (sort (remdups syscalls), unsupported))"

definition expected_denied_syscalls :: "TargetArch \<Rightarrow> SyscallId list \<Rightarrow> string list" where
  "expected_denied_syscalls arch syscalls = map syscall_name (filter (\<lambda>s. number_for_arch s arch \<noteq> None) syscalls)"

section \<open>The compiler\<close>

type_synonym bytes = "8 word list"

definition FILTER_CODE_LD_W_ABS :: "16 word" where "FILTER_CODE_LD_W_ABS = 0x20"
definition FILTER_CODE_JMP_JEQ_K :: "16 word" where "FILTER_CODE_JMP_JEQ_K = 0x15"
definition FILTER_CODE_RET_K :: "16 word" where "FILTER_CODE_RET_K = 0x06"
definition SECCOMP_RET_KILL_PROCESS :: "32 word" where "SECCOMP_RET_KILL_PROCESS = 0x80000000"
definition SECCOMP_RET_ERRNO :: "32 word" where "SECCOMP_RET_ERRNO = 0x00050000"
definition SECCOMP_RET_ALLOW :: "32 word" where "SECCOMP_RET_ALLOW = 0x7fff0000"
definition SECCOMP_DATA_NR_OFFSET :: "32 word" where "SECCOMP_DATA_NR_OFFSET = 0"
definition SECCOMP_DATA_ARCH_OFFSET :: "32 word" where "SECCOMP_DATA_ARCH_OFFSET = 4"
definition EPERM_ERRNO :: "32 word" where "EPERM_ERRNO = 1"

lemmas seccomp_constants =
  FILTER_CODE_LD_W_ABS_def FILTER_CODE_JMP_JEQ_K_def FILTER_CODE_RET_K_def SECCOMP_RET_KILL_PROCESS_def
  SECCOMP_RET_ERRNO_def SECCOMP_RET_ALLOW_def SECCOMP_DATA_NR_OFFSET_def SECCOMP_DATA_ARCH_OFFSET_def EPERM_ERRNO_def

unbundle bit_operations_syntax

definition u16_to_ne_bytes :: "16 word \<Rightarrow> bytes" where
  "u16_to_ne_bytes w = [ucast w, ucast (drop_bit 8 w)]"

definition u32_to_ne_bytes :: "32 word \<Rightarrow> bytes" where
  "u32_to_ne_bytes w = [ucast w, ucast (drop_bit 8 w), ucast (drop_bit 16 w), ucast (drop_bit 24 w)]"

definition emit_jump :: "bytes \<Rightarrow> 16 word \<Rightarrow> 32 word \<Rightarrow> 8 word \<Rightarrow> 8 word \<Rightarrow> bytes" where
  "emit_jump out code k jt jf = out @ u16_to_ne_bytes code @ [jt] @ [jf] @ u32_to_ne_bytes k"

definition emit_stmt :: "bytes \<Rightarrow> 16 word \<Rightarrow> 32 word \<Rightarrow> bytes" where
  "emit_stmt out code k = out @ u16_to_ne_bytes code @ [0] @ [0] @ u32_to_ne_bytes k"

text \<open>One turn of the loop over the denied calls.\<close>

definition emit_denial :: "TargetArch \<Rightarrow> SyscallId \<Rightarrow> bytes \<times> string list \<Rightarrow> bytes \<times> string list" where
  "emit_denial arch syscall = (\<lambda>(out, effective).
     case number_for_arch syscall arch of
       None \<Rightarrow> (out, effective)
     | Some nr \<Rightarrow>
         (emit_stmt (emit_jump out FILTER_CODE_JMP_JEQ_K nr 0 1) FILTER_CODE_RET_K (SECCOMP_RET_ERRNO OR EPERM_ERRNO),
          effective @ [syscall_name syscall]))"

definition emit_bpf_program :: "TargetArch \<Rightarrow> SyscallId list \<Rightarrow> bytes \<times> string list" where
  "emit_bpf_program arch denied =
     (let out = emit_stmt [] FILTER_CODE_LD_W_ABS SECCOMP_DATA_ARCH_OFFSET;
          out = emit_jump out FILTER_CODE_JMP_JEQ_K (audit_arch_value arch) 1 0;
          out = emit_stmt out FILTER_CODE_RET_K SECCOMP_RET_KILL_PROCESS;
          out = emit_stmt out FILTER_CODE_LD_W_ABS SECCOMP_DATA_NR_OFFSET;
          (out, effective) = fold (emit_denial arch) denied (out, [])
      in (emit_stmt out FILTER_CODE_RET_K SECCOMP_RET_ALLOW, effective))"

section \<open>What the bytes mean\<close>

text \<open>A classic BPF instruction is eight bytes: code, two jump offsets and an operand.\<close>

record sock_filter =
  sf_code :: "16 word"
  sf_jt :: "8 word"
  sf_jf :: "8 word"
  sf_k :: "32 word"

definition u16_of :: "8 word \<Rightarrow> 8 word \<Rightarrow> 16 word" where
  "u16_of a b = ucast a OR push_bit 8 (ucast b)"

definition u32_of :: "8 word \<Rightarrow> 8 word \<Rightarrow> 8 word \<Rightarrow> 8 word \<Rightarrow> 32 word" where
  "u32_of a b c d = ucast a OR push_bit 8 (ucast b) OR push_bit 16 (ucast c) OR push_bit 24 (ucast d)"

fun bpf_decode :: "bytes \<Rightarrow> sock_filter list option" where
  "bpf_decode [] = Some []"
| "bpf_decode (c0 # c1 # jt # jf # k0 # k1 # k2 # k3 # rest) =
     map_option (Cons \<lparr>sf_code = u16_of c0 c1, sf_jt = jt, sf_jf = jf, sf_k = u32_of k0 k1 k2 k3\<rparr>) (bpf_decode rest)"
| "bpf_decode _ = None"

text \<open>
  A run over what the kernel shows of a system call, as a function from the offset of a word to the word: an
  absolute load fills the accumulator, a jump skips instructions, a return ends the run with its operand.  A
  program that runs off its end, or has another instruction, gives no answer.
\<close>

function bpf_run :: "(32 word \<Rightarrow> 32 word) \<Rightarrow> 32 word \<Rightarrow> sock_filter list \<Rightarrow> 32 word option" where
  "bpf_run d a [] = None"
| "bpf_run d a (i # is) =
     (if sf_code i = 0x20 then bpf_run d (d (sf_k i)) is
      else if sf_code i = 0x15 then bpf_run d a (drop (unat (if a = sf_k i then sf_jt i else sf_jf i)) is)
      else if sf_code i = 0x06 then Some (sf_k i)
      else None)"
  by pat_completeness auto
termination
  by (relation "measure (\<lambda>(d, a, is). length is)") auto

definition seccomp_verdict :: "bytes \<Rightarrow> (32 word \<Rightarrow> 32 word) \<Rightarrow> 32 word option" where
  "seccomp_verdict program d = Option.bind (bpf_decode program) (bpf_run d 0)"

lemma u16_bytes: "u16_of (ucast w) (ucast (drop_bit 8 w)) = w"
  by (rule bit_word_eqI) (auto simp: u16_of_def bit_simps)

lemma u32_bytes: "u32_of (ucast w) (ucast (drop_bit 8 w)) (ucast (drop_bit 16 w)) (ucast (drop_bit 24 w)) = w"
proof (rule bit_word_eqI)
  fix n :: nat
  assume "n < LENGTH(32)"
  then consider "n < 8" | "8 \<le> n \<and> n < 16" | "16 \<le> n \<and> n < 24" | "24 \<le> n \<and> n < 32" by fastforce
  then show "bit (u32_of (ucast w) (ucast (drop_bit 8 w)) (ucast (drop_bit 16 w)) (ucast (drop_bit 24 w))) n = bit w n"
    by cases (auto simp: u32_of_def bit_simps)
qed

abbreviation stmt :: "16 word \<Rightarrow> 32 word \<Rightarrow> sock_filter" where
  "stmt code k \<equiv> \<lparr>sf_code = code, sf_jt = 0, sf_jf = 0, sf_k = k\<rparr>"

abbreviation jump :: "16 word \<Rightarrow> 32 word \<Rightarrow> 8 word \<Rightarrow> 8 word \<Rightarrow> sock_filter" where
  "jump code k jt jf \<equiv> \<lparr>sf_code = code, sf_jt = jt, sf_jf = jf, sf_k = k\<rparr>"

lemma bpf_decode_append:
  "bpf_decode p = Some is \<Longrightarrow> bpf_decode (p @ q) = (case bpf_decode q of None \<Rightarrow> None | Some js \<Rightarrow> Some (is @ js))"
  by (induction p arbitrary: "is" rule: bpf_decode.induct) (auto split: option.splits)

lemma emit_decode [simp]:
  assumes "bpf_decode out = Some is"
  shows "bpf_decode (emit_stmt out code k) = Some (is @ [stmt code k])"
    and "bpf_decode (emit_jump out code k jt jf) = Some (is @ [jump code k jt jf])"
  using bpf_decode_append [OF assms]
  by (simp_all add: emit_stmt_def emit_jump_def u16_to_ne_bytes_def u32_to_ne_bytes_def u16_bytes u32_bytes)

text \<open>The instructions of the loop, and the whole program.\<close>

definition denial_code :: "TargetArch \<Rightarrow> SyscallId \<Rightarrow> sock_filter list" where
  "denial_code arch syscall =
     (case number_for_arch syscall arch of
        None \<Rightarrow> []
      | Some nr \<Rightarrow> [jump FILTER_CODE_JMP_JEQ_K nr 0 1, stmt FILTER_CODE_RET_K (SECCOMP_RET_ERRNO OR EPERM_ERRNO)])"

definition program_code :: "TargetArch \<Rightarrow> SyscallId list \<Rightarrow> sock_filter list" where
  "program_code arch denied =
     [stmt FILTER_CODE_LD_W_ABS SECCOMP_DATA_ARCH_OFFSET, jump FILTER_CODE_JMP_JEQ_K (audit_arch_value arch) 1 0,
      stmt FILTER_CODE_RET_K SECCOMP_RET_KILL_PROCESS, stmt FILTER_CODE_LD_W_ABS SECCOMP_DATA_NR_OFFSET]
     @ concat (map (denial_code arch) denied) @ [stmt FILTER_CODE_RET_K SECCOMP_RET_ALLOW]"

lemma emit_denials:
  assumes "bpf_decode out = Some is"
  shows "\<exists>out'. fold (emit_denial arch) denied (out, names) = (out', names @ expected_denied_syscalls arch denied)
     \<and> bpf_decode out' = Some (is @ concat (map (denial_code arch) denied))"
  using assms
proof (induction denied arbitrary: out "is" names)
  case (Cons s denied)
  show ?case
  proof (cases "number_for_arch s arch")
    case None
    then show ?thesis
      using Cons.IH [OF Cons.prems] by (simp add: emit_denial_def denial_code_def expected_denied_syscalls_def)
  next
    case (Some nr)
    let ?out = "emit_stmt (emit_jump out FILTER_CODE_JMP_JEQ_K nr 0 1) FILTER_CODE_RET_K (SECCOMP_RET_ERRNO OR EPERM_ERRNO)"
    have "bpf_decode ?out = Some (is @ denial_code arch s)" using Cons.prems Some by (simp add: denial_code_def)
    from Cons.IH [OF this, of "names @ [syscall_name s]"] Some
    show ?thesis by (simp add: emit_denial_def expected_denied_syscalls_def)
  qed
qed (simp add: expected_denied_syscalls_def)

lemma emitted_program:
  "\<exists>program. emit_bpf_program arch denied = (program, expected_denied_syscalls arch denied)
     \<and> bpf_decode program = Some (program_code arch denied)"
proof -
  let ?out = "emit_stmt (emit_stmt (emit_jump (emit_stmt [] FILTER_CODE_LD_W_ABS SECCOMP_DATA_ARCH_OFFSET)
     FILTER_CODE_JMP_JEQ_K (audit_arch_value arch) 1 0) FILTER_CODE_RET_K SECCOMP_RET_KILL_PROCESS)
     FILTER_CODE_LD_W_ABS SECCOMP_DATA_NR_OFFSET"
  have "bpf_decode ?out = Some (take 4 (program_code arch denied))" by (simp add: program_code_def)
  from emit_denials [OF this, of arch denied "[]"]
  obtain out' where o: "fold (emit_denial arch) denied (?out, []) = (out', expected_denied_syscalls arch denied)"
    "bpf_decode out' = Some (take 4 (program_code arch denied) @ concat (map (denial_code arch) denied))" by auto
  then show ?thesis by (simp add: emit_bpf_program_def Let_def) (simp add: program_code_def)
qed

section \<open>Running the program\<close>

lemma run_denials:
  "bpf_run d nr (concat (map (denial_code arch) denied) @ [stmt FILTER_CODE_RET_K SECCOMP_RET_ALLOW]) =
     Some (if \<exists>s \<in> set denied. number_for_arch s arch = Some nr then SECCOMP_RET_ERRNO OR EPERM_ERRNO else SECCOMP_RET_ALLOW)"
proof (induction denied)
  case Nil
  then show ?case by (simp add: seccomp_constants)
next
  case (Cons s denied)
  show ?case
  proof (cases "number_for_arch s arch")
    case None
    then show ?thesis using Cons.IH by (simp add: denial_code_def)
  next
    case (Some n)
    have "bpf_run d nr (denial_code arch s @ rest) = (if nr = n then Some (SECCOMP_RET_ERRNO OR EPERM_ERRNO) else bpf_run d nr rest)" for rest
      using Some by (simp add: denial_code_def seccomp_constants)
    then show ?thesis using Cons.IH Some by simp
  qed
qed

lemma run_program:
  "bpf_run d a (program_code arch denied) =
     Some (if d 4 \<noteq> audit_arch_value arch then SECCOMP_RET_KILL_PROCESS
           else if \<exists>s \<in> set denied. number_for_arch s arch = Some (d 0) then SECCOMP_RET_ERRNO OR EPERM_ERRNO
           else SECCOMP_RET_ALLOW)"
proof -
  let ?rest = "concat (map (denial_code arch) denied) @ [stmt FILTER_CODE_RET_K SECCOMP_RET_ALLOW]"
  have "bpf_run d a (program_code arch denied) =
      (if d 4 = audit_arch_value arch then bpf_run d (d 0) ?rest else Some SECCOMP_RET_KILL_PROCESS)"
    by (simp add: program_code_def FILTER_CODE_LD_W_ABS_def FILTER_CODE_JMP_JEQ_K_def SECCOMP_DATA_NR_OFFSET_def
        SECCOMP_DATA_ARCH_OFFSET_def FILTER_CODE_RET_K_def)
  then show ?thesis by (simp add: run_denials)
qed

section \<open>Artifacts\<close>

record CedarSubsetPolicyFile =
  pf_policy_id :: string
  pf_policy_version :: string
  pf_default_action :: string
  pf_deny_actions :: "string list"
  pf_source_policy_refs :: "string list"

record SeccompArtifactMetadata =
  md_policy_schema_version :: nat
  md_policy_id :: string
  md_policy_version :: string
  md_sha256 :: string
  md_generated_at :: string
  md_compiler_version :: string
  md_target_arch :: string
  md_default_action :: string
  md_source_policy_refs :: "string list"
  md_source_policy_sha256 :: string
  md_denied_syscalls :: "string list"

definition COMPILER_VERSION :: string where "COMPILER_VERSION = ''managed-seccomp-v2''"
definition POLICY_SCHEMA_VERSION :: nat where "POLICY_SCHEMA_VERSION = 1"

text \<open>The failures, each with the values its message shows.\<close>

datatype SeccompError =
    ReadFailed string
  | InvalidPolicy string
  | EmptyPolicyId
  | EmptyPolicyVersion
  | UnsupportedDefaultAction string
  | UnsupportedActions "string list"
  | UnsupportedTarget
  | WriteFailed string
  | SerializeFailed string
  | MetadataParse string
  | MetadataMismatch string
  | ChecksumMismatch string string
  | StatFailed string
  | IsSymlink string
  | NotDirectory string
  | NotRegularFile string
  | OwnerMismatch string nat nat
  | InsecurePermissions string nat

definition validate_policy_source :: "CedarSubsetPolicyFile \<Rightarrow> (SeccompError, unit) result" where
  "validate_policy_source parsed =
     (if trim (pf_policy_id parsed) = [] then Err EmptyPolicyId
      else if trim (pf_policy_version parsed) = [] then Err EmptyPolicyVersion
      else if pf_default_action parsed \<noteq> ''allow'' then Err (UnsupportedDefaultAction (pf_default_action parsed))
      else Ok ())"

definition is_valid_sha256_hex :: "string \<Rightarrow> bool" where
  "is_valid_sha256_hex value \<longleftrightarrow> length value = 64 \<and> list_all is_ascii_hexdigit value"

definition validate_metadata_contract ::
  "SeccompArtifactMetadata \<Rightarrow> TargetArch \<Rightarrow> CedarSubsetPolicyFile \<Rightarrow> string \<Rightarrow> string list \<Rightarrow> (SeccompError, unit) result" where
  "validate_metadata_contract md arch parsed source_sha expected =
     (if md_policy_schema_version md \<noteq> POLICY_SCHEMA_VERSION then Err (MetadataMismatch ''policy_schema_version'')
      else if md_policy_id md \<noteq> pf_policy_id parsed then Err (MetadataMismatch ''policy_id'')
      else if md_policy_version md \<noteq> pf_policy_version parsed then Err (MetadataMismatch ''policy_version'')
      else if md_default_action md \<noteq> pf_default_action parsed then Err (MetadataMismatch ''default_action'')
      else if md_target_arch md \<noteq> TargetArch_as_str arch then Err (MetadataMismatch ''target_arch'')
      else if trim (md_compiler_version md) = [] then Err (MetadataMismatch ''compiler_version'')
      else if trim (md_generated_at md) = [] then Err (MetadataMismatch ''generated_at'')
      else if md_source_policy_refs md = [] then Err (MetadataMismatch ''source_policy_refs'')
      else if md_source_policy_sha256 md \<noteq> source_sha then Err (MetadataMismatch ''source_policy_sha256'')
      else if md_denied_syscalls md \<noteq> expected then Err (MetadataMismatch ''denied_syscalls'')
      else if \<not> is_valid_sha256_hex (md_sha256 md) then Err (MetadataMismatch ''sha256'')
      else Ok ())"

text \<open>
  What is on disk: a path is the list of its segments below the artifact directory, a node has its kind, owner,
  mode and bytes.
\<close>

datatype node_kind = Directory | RegularFile bytes | Symlink

record node =
  nd_kind :: node_kind
  nd_uid :: nat
  nd_mode :: nat

type_synonym path = "string list"
type_synonym art_fs = "path \<rightharpoonup> node"

record seccomp_lib =
  sc_sha256_hex :: "bytes \<Rightarrow> string"
  sc_json_print :: "SeccompArtifactMetadata \<Rightarrow> (string, bytes) result"
  sc_json_parse :: "bytes \<Rightarrow> (string, SeccompArtifactMetadata) result"

definition read_non_symlink :: "art_fs \<Rightarrow> path \<Rightarrow> string \<Rightarrow> (SeccompError, node) result" where
  "read_non_symlink fs path label =
     (case fs path of
        None \<Rightarrow> Err (StatFailed label)
      | Some meta \<Rightarrow> if nd_kind meta = Symlink then Err (IsSymlink label) else Ok meta)"

text \<open>The bit that lets others write is bit 1 of the mode.\<close>

definition verify_owner_and_mode :: "string \<Rightarrow> nat \<Rightarrow> nat \<Rightarrow> nat \<Rightarrow> (SeccompError, unit) result" where
  "verify_owner_and_mode label current_uid owner_uid mode =
     (if owner_uid \<noteq> current_uid then Err (OwnerMismatch label current_uid owner_uid)
      else let perms = mode AND 0x1FF in
        if perms AND 2 \<noteq> 0 then Err (InsecurePermissions label perms)
        else Ok ())"

definition verify_secure_dir :: "art_fs \<Rightarrow> path \<Rightarrow> nat \<Rightarrow> string \<Rightarrow> (SeccompError, unit) result" where
  "verify_secure_dir fs path current_uid label =
     and_then (read_non_symlink fs path label) (\<lambda>meta.
     if nd_kind meta \<noteq> Directory then Err (NotDirectory label)
     else verify_owner_and_mode label current_uid (nd_uid meta) (nd_mode meta))"

definition verify_secure_file :: "art_fs \<Rightarrow> path \<Rightarrow> nat \<Rightarrow> string \<Rightarrow> (SeccompError, unit) result" where
  "verify_secure_file fs path current_uid label =
     and_then (read_non_symlink fs path label) (\<lambda>meta.
     case nd_kind meta of
       RegularFile _ \<Rightarrow> verify_owner_and_mode label current_uid (nd_uid meta) (nd_mode meta)
     | _ \<Rightarrow> Err (NotRegularFile label))"

text \<open>A character of a text begins at each byte that does not continue one.\<close>

definition sanitize_path_segment :: "string \<Rightarrow> string" where
  "sanitize_path_segment value =
     (let chars = filter (\<lambda>c. \<not> (128 \<le> byte_val c \<and> byte_val c < 192)) value;
          out = map (\<lambda>c. if is_ascii_alphanumeric c \<or> c \<in> {CHR ''-'', CHR ''_'', CHR ''.''} then c else CHR ''_'') chars;
          trimmed = trim_end_matches (CHR ''.'') (trim_start_matches (CHR ''.'') out)
      in if out = [] \<or> trimmed = [] \<or> out = ''.'' \<or> out = ''..'' then ''_'' else out)"

text \<open>The layout is its directory; the artifact directory itself is the empty path.\<close>

definition SeccompArtifactLayout_new :: "string \<Rightarrow> string \<Rightarrow> TargetArch \<Rightarrow> path" where
  "SeccompArtifactLayout_new policy_id policy_version arch =
     [sanitize_path_segment policy_id, sanitize_path_segment policy_version, TargetArch_as_str arch]"

definition layout_bpf :: "path \<Rightarrow> path" where "layout_bpf directory = directory @ [''policy.bpf'']"
definition layout_metadata :: "path \<Rightarrow> path" where "layout_metadata directory = directory @ [''policy.metadata.json'']"

definition verify_artifact_trust_paths :: "art_fs \<Rightarrow> nat \<Rightarrow> path \<Rightarrow> (SeccompError, unit) result" where
  "verify_artifact_trust_paths fs current_uid directory =
     and_then (verify_secure_dir fs [] current_uid ''seccomp artifact_dir'') (\<lambda>_.
     and_then (verify_secure_dir fs directory current_uid ''seccomp artifact leaf directory'') (\<lambda>_.
     and_then (verify_secure_file fs (layout_bpf directory) current_uid ''seccomp artifact'') (\<lambda>_.
     verify_secure_file fs (layout_metadata directory) current_uid ''seccomp metadata'')))"

text \<open>Reading follows the node at the path; a link is outside the model and cannot be read.\<close>

definition read_file :: "art_fs \<Rightarrow> path \<Rightarrow> bytes option" where
  "read_file fs path = (case fs path of Some n \<Rightarrow> (case nd_kind n of RegularFile b \<Rightarrow> Some b | _ \<Rightarrow> None) | None \<Rightarrow> None)"

definition verify_artifact_checksum ::
  "seccomp_lib \<Rightarrow> art_fs \<Rightarrow> path \<Rightarrow> SeccompArtifactMetadata \<Rightarrow> (SeccompError, unit) result" where
  "verify_artifact_checksum lib fs bpf md =
     (case read_file fs bpf of
        None \<Rightarrow> Err (ReadFailed ''seccomp artifact'')
      | Some file_bytes \<Rightarrow>
          let actual = sc_sha256_hex lib file_bytes in
          if actual \<noteq> md_sha256 md then Err (ChecksumMismatch (md_sha256 md) actual) else Ok ())"

definition read_metadata :: "seccomp_lib \<Rightarrow> art_fs \<Rightarrow> path \<Rightarrow> (SeccompError, SeccompArtifactMetadata) result" where
  "read_metadata lib fs path =
     (case read_file fs path of
        None \<Rightarrow> Err (ReadFailed ''seccomp metadata'')
      | Some b \<Rightarrow> map_err MetadataParse (sc_json_parse lib b))"

record SeccompMaterialized =
  sm_bpf_path :: path
  sm_metadata_path :: path
  sm_metadata :: SeccompArtifactMetadata

definition load_precompiled_artifact ::
  "seccomp_lib \<Rightarrow> nat \<Rightarrow> TargetArch \<Rightarrow> CedarSubsetPolicyFile \<Rightarrow> string \<Rightarrow> string list \<Rightarrow> path \<Rightarrow> art_fs
    \<Rightarrow> (SeccompError, SeccompMaterialized) result" where
  "load_precompiled_artifact lib current_uid arch parsed source_sha expected directory fs =
     and_then (read_metadata lib fs (layout_metadata directory)) (\<lambda>md.
     and_then (verify_artifact_trust_paths fs current_uid directory) (\<lambda>_.
     and_then (validate_metadata_contract md arch parsed source_sha expected) (\<lambda>_.
     and_then (verify_artifact_checksum lib fs (layout_bpf directory) md) (\<lambda>_.
     Ok \<lparr>sm_bpf_path = layout_bpf directory, sm_metadata_path = layout_metadata directory, sm_metadata = md\<rparr>))))"

text \<open>
  What the operating system does during a compilation: the file system after the directories were created, the
  outcome of each of the two writes, and the owner and mode of a file that is created.  A write makes a temporary
  file and renames it to its path; it fails before the rename, or after it when the directory cannot be synced.
\<close>

datatype atomic_outcome = NotReplaced string | ReplacedUnsynced string | Replaced

record compile_io =
  io_mkdir :: "(string, art_fs) result"
  io_write_bpf :: atomic_outcome
  io_write_metadata :: atomic_outcome
  io_uid :: nat
  io_mode :: nat

definition write_atomic ::
  "atomic_outcome \<Rightarrow> nat \<Rightarrow> nat \<Rightarrow> path \<Rightarrow> bytes \<Rightarrow> art_fs \<Rightarrow> (SeccompError, unit) result \<times> art_fs" where
  "write_atomic outcome uid mode path b fs =
     (let fs' = fs(path \<mapsto> \<lparr>nd_kind = RegularFile b, nd_uid = uid, nd_mode = mode\<rparr>) in
      case outcome of
        NotReplaced e \<Rightarrow> (Err (WriteFailed e), fs)
      | ReplacedUnsynced e \<Rightarrow> (Err (WriteFailed e), fs')
      | Replaced \<Rightarrow> (Ok (), fs'))"

definition compiled_metadata ::
  "seccomp_lib \<Rightarrow> string \<Rightarrow> string \<Rightarrow> TargetArch \<Rightarrow> CedarSubsetPolicyFile \<Rightarrow> string \<Rightarrow> SyscallId list \<Rightarrow> SeccompArtifactMetadata" where
  "compiled_metadata lib source_path generated_at arch parsed source_sha syscalls =
     (let (bpf_bytes, effective) = emit_bpf_program arch syscalls in
      \<lparr>md_policy_schema_version = POLICY_SCHEMA_VERSION, md_policy_id = pf_policy_id parsed,
       md_policy_version = pf_policy_version parsed, md_sha256 = sc_sha256_hex lib bpf_bytes,
       md_generated_at = generated_at, md_compiler_version = COMPILER_VERSION, md_target_arch = TargetArch_as_str arch,
       md_default_action = pf_default_action parsed,
       md_source_policy_refs = (if pf_source_policy_refs parsed = [] then [source_path] else pf_source_policy_refs parsed),
       md_source_policy_sha256 = source_sha, md_denied_syscalls = effective\<rparr>)"

definition compile_and_write_artifact ::
  "seccomp_lib \<Rightarrow> compile_io \<Rightarrow> nat \<Rightarrow> string \<Rightarrow> string \<Rightarrow> TargetArch \<Rightarrow> CedarSubsetPolicyFile \<Rightarrow> string \<Rightarrow> SyscallId list
    \<Rightarrow> string list \<Rightarrow> path \<Rightarrow> art_fs \<Rightarrow> (SeccompError, SeccompMaterialized) result \<times> art_fs" where
  "compile_and_write_artifact lib io current_uid source_path generated_at arch parsed source_sha syscalls expected directory fs =
     (case io_mkdir io of
        Inl e \<Rightarrow> (Err (WriteFailed e), fs)
      | Inr fs0 \<Rightarrow>
        (case write_atomic (io_write_bpf io) (io_uid io) (io_mode io) (layout_bpf directory) (fst (emit_bpf_program arch syscalls)) fs0 of
           (Inl e, fs1) \<Rightarrow> (Err e, fs1)
         | (Inr _, fs1) \<Rightarrow>
             let md = compiled_metadata lib source_path generated_at arch parsed source_sha syscalls in
             (case sc_json_print lib md of
                Inl e \<Rightarrow> (Err (SerializeFailed e), fs1)
              | Inr md_bytes \<Rightarrow>
                  (case write_atomic (io_write_metadata io) (io_uid io) (io_mode io) (layout_metadata directory) md_bytes fs1 of
                     (Inl e, fs2) \<Rightarrow> (Err e, fs2)
                   | (Inr _, fs2) \<Rightarrow>
                       (and_then (verify_artifact_trust_paths fs2 current_uid directory) (\<lambda>_.
                        and_then (validate_metadata_contract md arch parsed source_sha expected) (\<lambda>_.
                        and_then (verify_artifact_checksum lib fs2 (layout_bpf directory) md) (\<lambda>_.
                        Ok \<lparr>sm_bpf_path = layout_bpf directory, sm_metadata_path = layout_metadata directory,
                            sm_metadata = md\<rparr>))), fs2)))))"

datatype SeccompRuntimeMode = CompileOnLaunch | PrecompiledOnly

text \<open>\<open>source\<close> is what reading and parsing the policy source gives, with the hash of its text.\<close>

definition plan_policy ::
  "TargetArch option \<Rightarrow> (SeccompError, CedarSubsetPolicyFile \<times> string) result
    \<Rightarrow> (SeccompError, TargetArch \<times> CedarSubsetPolicyFile \<times> string \<times> SyscallId list) result" where
  "plan_policy target source =
     and_then (ok_or UnsupportedTarget target) (\<lambda>arch.
     and_then source (\<lambda>(parsed, source_sha).
     and_then (validate_policy_source parsed) (\<lambda>_.
     let (syscalls, unsupported) = map_actions_to_syscalls (pf_deny_actions parsed) in
     if unsupported \<noteq> [] then Err (UnsupportedActions unsupported)
     else Ok (arch, parsed, source_sha, syscalls))))"

definition materialize_seccomp_policy ::
  "seccomp_lib \<Rightarrow> compile_io \<Rightarrow> nat \<Rightarrow> string \<Rightarrow> string \<Rightarrow> TargetArch option \<Rightarrow> SeccompRuntimeMode
    \<Rightarrow> (SeccompError, CedarSubsetPolicyFile \<times> string) result \<Rightarrow> art_fs
    \<Rightarrow> (SeccompError, SeccompMaterialized) result \<times> art_fs" where
  "materialize_seccomp_policy lib io current_uid source_path generated_at target mode source fs =
     (case plan_policy target source of
        Inl e \<Rightarrow> (Err e, fs)
      | Inr (arch, parsed, source_sha, syscalls) \<Rightarrow>
          let expected = expected_denied_syscalls arch syscalls;
              directory = SeccompArtifactLayout_new (pf_policy_id parsed) (pf_policy_version parsed) arch
          in (case mode of
                CompileOnLaunch \<Rightarrow>
                  compile_and_write_artifact lib io current_uid source_path generated_at arch parsed source_sha syscalls
                    expected directory fs
              | PrecompiledOnly \<Rightarrow>
                  (load_precompiled_artifact lib current_uid arch parsed source_sha expected directory fs, fs)))"

section \<open>Properties\<close>

text \<open>What a list of denied actions asks for.\<close>

definition asks_to_deny :: "string list \<Rightarrow> TargetArch \<Rightarrow> 32 word \<Rightarrow> bool" where
  "asks_to_deny actions arch nr \<longleftrightarrow>
     (\<exists>action \<in> set actions. \<exists>calls. action_syscalls action = Some calls \<and> (\<exists>s \<in> set calls. number_for_arch s arch = Some nr))"

lemma mapped_syscalls:
  "fold (\<lambda>action (syscalls, unsupported).
      case action_syscalls action of
        Some calls \<Rightarrow> (syscalls @ calls, unsupported)
      | None \<Rightarrow> (syscalls, unsupported @ [action])) actions (syscalls, unsupported) =
   (syscalls @ concat (List.map_filter action_syscalls actions),
    unsupported @ filter (\<lambda>a. action_syscalls a = None) actions)"
  by (induction actions arbitrary: syscalls unsupported) (auto simp: List.map_filter_simps split: option.split)

lemma map_actions_eq:
  "map_actions_to_syscalls actions =
     (sort (remdups (concat (List.map_filter action_syscalls actions))), filter (\<lambda>a. action_syscalls a = None) actions)"
  by (simp add: map_actions_to_syscalls_def mapped_syscalls)

lemma set_mapped: "set (List.map_filter f xs) = {y. \<exists>x \<in> set xs. f x = Some y}"
  by (induction xs) (auto simp: List.map_filter_simps split: option.split)

lemma asks_mapped:
  "asks_to_deny actions arch nr \<longleftrightarrow> (\<exists>s \<in> set (fst (map_actions_to_syscalls actions)). number_for_arch s arch = Some nr)"
  by (auto simp: asks_to_deny_def map_actions_eq set_mapped)

lemma verdict_emitted:
  "seccomp_verdict (fst (emit_bpf_program arch denied)) d =
     Some (if d 4 \<noteq> audit_arch_value arch then SECCOMP_RET_KILL_PROCESS
           else if \<exists>s \<in> set denied. number_for_arch s arch = Some (d 0) then SECCOMP_RET_ERRNO OR EPERM_ERRNO
           else SECCOMP_RET_ALLOW)"
proof -
  obtain program where "emit_bpf_program arch denied = (program, expected_denied_syscalls arch denied)"
    "bpf_decode program = Some (program_code arch denied)" using emitted_program by blast
  then show ?thesis by (simp add: seccomp_verdict_def run_program)
qed

text \<open>
  C14. The compiler is correct, down to the bytes. For every list of denied actions and both architectures, the
  kernel's reading of the emitted program kills a process of another architecture, answers EPERM to exactly the
  system calls the denied actions stand for on this one, and allows every other call.
\<close>

theorem filter_correct:
  "seccomp_verdict (fst (emit_bpf_program arch (fst (map_actions_to_syscalls actions)))) d =
     Some (if d SECCOMP_DATA_ARCH_OFFSET \<noteq> audit_arch_value arch then SECCOMP_RET_KILL_PROCESS
           else if asks_to_deny actions arch (d SECCOMP_DATA_NR_OFFSET) then SECCOMP_RET_ERRNO OR EPERM_ERRNO
           else SECCOMP_RET_ALLOW)"
  by (simp add: verdict_emitted asks_mapped SECCOMP_DATA_ARCH_OFFSET_def SECCOMP_DATA_NR_OFFSET_def)

lemma length_denials: "length (concat (map (denial_code arch) denied)) \<le> 2 * length denied"
  by (induction denied) (auto simp: denial_code_def split: option.split)

lemma length_mapped: "length (fst (map_actions_to_syscalls actions)) \<le> 12"
proof -
  let ?xs = "fst (map_actions_to_syscalls actions)"
  have "distinct (map syscall_index ?xs)" by (auto simp: map_actions_eq distinct_map inj_on_def dest: syscall_index_inject)
  moreover have "set (map syscall_index ?xs) \<subseteq> {..<12}" using syscall_index_bound by auto
  ultimately have "card (set (map syscall_index ?xs)) = length ?xs" "card (set (map syscall_index ?xs)) \<le> card {..<12 :: nat}"
    using distinct_card [of "map syscall_index ?xs"] card_mono [of "{..<12 :: nat}" "set (map syscall_index ?xs)"] by simp_all
  then show ?thesis by simp
qed

text \<open>
  C39. The filter always answers. Whatever the policy denies, the emitted bytes are whole instructions, at most
  twenty-nine of them, and on every system call the kernel's run of them ends at a return, never past the end and
  never at an instruction it does not know.
\<close>

theorem filter_terminates:
  "\<exists>code. bpf_decode (fst (emit_bpf_program arch (fst (map_actions_to_syscalls actions)))) = Some code
     \<and> length code \<le> 29 \<and> (\<forall>d a. \<exists>v. bpf_run d a code = Some v)"
proof -
  let ?denied = "fst (map_actions_to_syscalls actions)"
  obtain program where "emit_bpf_program arch ?denied = (program, expected_denied_syscalls arch ?denied)"
    "bpf_decode program = Some (program_code arch ?denied)" using emitted_program by blast
  moreover have "length (program_code arch ?denied) \<le> 29"
    using length_denials [of arch ?denied] length_mapped [of actions] by (simp add: program_code_def)
  ultimately show ?thesis by (simp add: run_program)
qed

text \<open>
  The check of the architecture does not tell the x32 calls of an x86-64 kernel apart, whose numbers have bit 30
  set: a policy that denies execution lets the x32 \<open>execve\<close> pass.
\<close>

lemma x32_execve_passes:
  assumes "d 4 = audit_arch_value X86_64" and "d 0 = 0x40000000 OR 520"
  shows "seccomp_verdict (fst (emit_bpf_program X86_64 (fst (map_actions_to_syscalls [''system.execute''])))) d = Some SECCOMP_RET_ALLOW"
proof -
  have "fst (map_actions_to_syscalls [''system.execute'']) = [Execve, Execveat]" by code_simp
  then show ?thesis using assms by (simp add: verdict_emitted)
qed

section \<open>Artifacts that are accepted\<close>

text \<open>A node only its owner's group can write: no link, owned by the user, without the write bit of others.\<close>

definition trusted_node :: "nat \<Rightarrow> node \<Rightarrow> bool" where
  "trusted_node uid n \<longleftrightarrow> nd_kind n \<noteq> Symlink \<and> nd_uid n = uid \<and> (nd_mode n AND 0x1FF) AND 2 = 0"

lemma secure_dir_Ok:
  "verify_secure_dir fs path uid label = Ok () \<longleftrightarrow> (\<exists>n. fs path = Some n \<and> nd_kind n = Directory \<and> trusted_node uid n)"
  by (auto simp: verify_secure_dir_def read_non_symlink_def verify_owner_and_mode_def trusted_node_def and_then_Ok Let_def
      split: option.splits if_splits)

lemma secure_file_Ok:
  "verify_secure_file fs path uid label = Ok () \<longleftrightarrow>
     (\<exists>n b. fs path = Some n \<and> nd_kind n = RegularFile b \<and> trusted_node uid n)"
  by (auto simp: verify_secure_file_def read_non_symlink_def verify_owner_and_mode_def trusted_node_def and_then_Ok Let_def
      split: option.splits if_splits node_kind.splits)

lemma trust_Ok:
  "verify_artifact_trust_paths fs uid directory = Ok () \<longleftrightarrow>
     (\<exists>n. fs [] = Some n \<and> nd_kind n = Directory \<and> trusted_node uid n)
   \<and> (\<exists>n. fs directory = Some n \<and> nd_kind n = Directory \<and> trusted_node uid n)
   \<and> (\<exists>n b. fs (layout_bpf directory) = Some n \<and> nd_kind n = RegularFile b \<and> trusted_node uid n)
   \<and> (\<exists>n b. fs (layout_metadata directory) = Some n \<and> nd_kind n = RegularFile b \<and> trusted_node uid n)"
  unfolding verify_artifact_trust_paths_def by (simp add: and_then_Ok secure_dir_Ok secure_file_Ok)

lemma contract_Ok:
  "validate_metadata_contract md arch parsed source_sha expected = Ok () \<longleftrightarrow>
     md_policy_schema_version md = POLICY_SCHEMA_VERSION \<and> md_policy_id md = pf_policy_id parsed
   \<and> md_policy_version md = pf_policy_version parsed \<and> md_default_action md = pf_default_action parsed
   \<and> md_target_arch md = TargetArch_as_str arch \<and> trim (md_compiler_version md) \<noteq> [] \<and> trim (md_generated_at md) \<noteq> []
   \<and> md_source_policy_refs md \<noteq> [] \<and> md_source_policy_sha256 md = source_sha \<and> md_denied_syscalls md = expected
   \<and> is_valid_sha256_hex (md_sha256 md)"
  by (simp add: validate_metadata_contract_def)

lemma checksum_Ok:
  "verify_artifact_checksum lib fs bpf md = Ok () \<longleftrightarrow> (\<exists>b. read_file fs bpf = Some b \<and> sc_sha256_hex lib b = md_sha256 md)"
  by (auto simp: verify_artifact_checksum_def Let_def split: option.split)

lemma plan_Ok:
  assumes "plan_policy target source = Ok (arch, parsed, source_sha, syscalls)"
  shows "target = Some arch" "source = Ok (parsed, source_sha)" "validate_policy_source parsed = Ok ()"
    "syscalls = fst (map_actions_to_syscalls (pf_deny_actions parsed))"
    "list_all (\<lambda>a. action_syscalls a \<noteq> None) (pf_deny_actions parsed)"
proof -
  obtain a where a: "target = Some a" using assms by (cases target) (simp_all add: plan_policy_def)
  obtain p sha where p: "source = Ok (p, sha)" using assms a by (cases source) (auto simp: plan_policy_def)
  have v: "validate_policy_source p = Ok ()" "snd (map_actions_to_syscalls (pf_deny_actions p)) = []"
      "(arch, parsed, source_sha, syscalls) = (a, p, sha, fst (map_actions_to_syscalls (pf_deny_actions p)))"
    using assms a p by (cases "validate_policy_source p"; auto simp: plan_policy_def split: prod.splits if_splits)+
  then show "target = Some arch" "source = Ok (parsed, source_sha)" "validate_policy_source parsed = Ok ()"
    "syscalls = fst (map_actions_to_syscalls (pf_deny_actions parsed))"
    "list_all (\<lambda>a. action_syscalls a \<noteq> None) (pf_deny_actions parsed)"
    using a p by (auto simp: map_actions_eq list_all_iff filter_empty_conv)
qed

lemma load_Ok:
  assumes "load_precompiled_artifact lib uid arch parsed source_sha expected dir fs = Ok m"
  obtains md where "read_metadata lib fs (layout_metadata dir) = Ok md" and "verify_artifact_trust_paths fs uid dir = Ok ()"
    and "validate_metadata_contract md arch parsed source_sha expected = Ok ()"
    and "verify_artifact_checksum lib fs (layout_bpf dir) md = Ok ()"
    and "m = \<lparr>sm_bpf_path = layout_bpf dir, sm_metadata_path = layout_metadata dir, sm_metadata = md\<rparr>"
  using assms by (auto simp: load_precompiled_artifact_def and_then_Ok)

text \<open>
  C20. A precompiled filter is loaded only when it is the one the policy asks for. What is accepted is two regular
  files, in directories and with owners the run trusts, whose metadata name this policy, version, source text and
  architecture and exactly the system calls its denied actions stand for, and whose program has the recorded
  hash; a policy with an unsupported action is never loaded.
\<close>

theorem precompiled_accepted_sound:
  assumes "materialize_seccomp_policy lib io uid source_path generated_at target PrecompiledOnly source fs = (Ok m, fs')"
  shows "fs' = fs \<and> (\<exists>arch parsed source_sha program. target = Some arch \<and> source = Ok (parsed, source_sha)
    \<and> list_all (\<lambda>a. action_syscalls a \<noteq> None) (pf_deny_actions parsed) \<and> pf_default_action parsed = ''allow''
    \<and> md_policy_id (sm_metadata m) = pf_policy_id parsed \<and> md_policy_version (sm_metadata m) = pf_policy_version parsed
    \<and> md_source_policy_sha256 (sm_metadata m) = source_sha \<and> md_target_arch (sm_metadata m) = TargetArch_as_str arch
    \<and> md_denied_syscalls (sm_metadata m) = snd (emit_bpf_program arch (fst (map_actions_to_syscalls (pf_deny_actions parsed))))
    \<and> (\<exists>n. fs (sm_bpf_path m) = Some n \<and> nd_kind n = RegularFile program \<and> trusted_node uid n)
    \<and> (\<exists>n b. fs (sm_metadata_path m) = Some n \<and> nd_kind n = RegularFile b \<and> trusted_node uid n)
    \<and> sc_sha256_hex lib program = md_sha256 (sm_metadata m))"
proof -
  obtain arch parsed source_sha syscalls where plan: "plan_policy target source = Ok (arch, parsed, source_sha, syscalls)"
    using assms by (cases "plan_policy target source") (auto simp: materialize_seccomp_policy_def)
  note src = plan_Ok [OF plan]
  let ?dir = "SeccompArtifactLayout_new (pf_policy_id parsed) (pf_policy_version parsed) arch"
  have fs: "fs' = fs" and load: "load_precompiled_artifact lib uid arch parsed source_sha (expected_denied_syscalls arch syscalls) ?dir fs = Ok m"
    using assms by (auto simp: materialize_seccomp_policy_def plan Let_def)
  from load obtain md where md: "verify_artifact_trust_paths fs uid ?dir = Ok ()"
    "validate_metadata_contract md arch parsed source_sha (expected_denied_syscalls arch syscalls) = Ok ()"
    "verify_artifact_checksum lib fs (layout_bpf ?dir) md = Ok ()"
    "m = \<lparr>sm_bpf_path = layout_bpf ?dir, sm_metadata_path = layout_metadata ?dir, sm_metadata = md\<rparr>"
    by (rule load_Ok)
  obtain program where p: "read_file fs (layout_bpf ?dir) = Some program" "sc_sha256_hex lib program = md_sha256 md"
    using md(3) by (auto simp: checksum_Ok)
  have "pf_default_action parsed = ''allow''"
    using src(3) by (simp add: validate_policy_source_def split: if_split_asm)
  moreover have "snd (emit_bpf_program arch syscalls) = expected_denied_syscalls arch syscalls"
    using emitted_program [of arch syscalls] by auto
  moreover obtain n where "fs (layout_bpf ?dir) = Some n" "nd_kind n = RegularFile program" "trusted_node uid n"
    using md(1) p(1) by (auto simp: trust_Ok read_file_def)
  moreover obtain n' b where "fs (layout_metadata ?dir) = Some n'" "nd_kind n' = RegularFile b" "trusted_node uid n'"
    using md(1) by (auto simp: trust_Ok)
  ultimately show ?thesis
    using fs src md(2) p(2) unfolding md(4) contract_Ok
    by (intro conjI exI [of _ arch] exI [of _ parsed] exI [of _ source_sha] exI [of _ program] exI [of _ n] exI [of _ n'] exI [of _ b]) simp_all
qed

lemma compile_bpf_Ok:
  assumes "compile_and_write_artifact lib io uid source_path generated_at arch parsed source_sha syscalls expected dir fs = (Ok m, fs')"
  obtains md md_bytes where "md = compiled_metadata lib source_path generated_at arch parsed source_sha syscalls"
    and "sc_json_print lib md = Ok md_bytes"
    and "read_file fs' (layout_bpf dir) = Some (fst (emit_bpf_program arch syscalls))"
    and "read_file fs' (layout_metadata dir) = Some md_bytes"
    and "verify_artifact_trust_paths fs' uid dir = Ok ()"
    and "validate_metadata_contract md arch parsed source_sha expected = Ok ()"
    and "verify_artifact_checksum lib fs' (layout_bpf dir) md = Ok ()"
    and "m = \<lparr>sm_bpf_path = layout_bpf dir, sm_metadata_path = layout_metadata dir, sm_metadata = md\<rparr>"
proof -
  let ?md = "compiled_metadata lib source_path generated_at arch parsed source_sha syscalls"
  let ?w = "write_atomic (io_write_bpf io) (io_uid io) (io_mode io) (layout_bpf dir) (fst (emit_bpf_program arch syscalls))"
  note c = assms [unfolded compile_and_write_artifact_def Let_def]
  obtain fs0 where 0: "io_mkdir io = Ok fs0" using c by (cases "io_mkdir io") simp_all
  have 1: "io_write_bpf io = Replaced" using c 0 by (cases "io_write_bpf io") (simp_all add: write_atomic_def Let_def)
  obtain b where 2: "sc_json_print lib ?md = Ok b" using c 0 1 by (cases "sc_json_print lib ?md") (simp_all add: write_atomic_def Let_def)
  have 3: "io_write_metadata io = Replaced" using c 0 1 2 by (cases "io_write_metadata io") (simp_all add: write_atomic_def Let_def)
  have ne: "layout_bpf dir \<noteq> layout_metadata dir" by (simp add: layout_bpf_def layout_metadata_def)
  have files: "read_file fs' (layout_bpf dir) = Some (fst (emit_bpf_program arch syscalls))"
      "read_file fs' (layout_metadata dir) = Some b"
    using c 0 1 2 3 ne by (auto simp: write_atomic_def Let_def read_file_def)
  have "and_then (verify_artifact_trust_paths fs' uid dir) (\<lambda>_.
        and_then (validate_metadata_contract ?md arch parsed source_sha expected) (\<lambda>_.
        and_then (verify_artifact_checksum lib fs' (layout_bpf dir) ?md) (\<lambda>_.
        Ok \<lparr>sm_bpf_path = layout_bpf dir, sm_metadata_path = layout_metadata dir, sm_metadata = ?md\<rparr>))) = Ok m"
    using c 0 1 2 3 by (auto simp: write_atomic_def Let_def)
  then show ?thesis using that [OF refl 2 files] by (auto simp: and_then_Ok)
qed

lemma compiled_loads:
  assumes "materialize_seccomp_policy lib io uid source_path generated_at (Some arch) CompileOnLaunch (Ok (parsed, source_sha)) fs = (Ok m, fs')"
    and "\<And>md b. sc_json_print lib md = Ok b \<Longrightarrow> sc_json_parse lib b = Ok md"
  shows "materialize_seccomp_policy lib io' uid source_path' generated_at' (Some arch) PrecompiledOnly (Ok (parsed, source_sha)) fs' = (Ok m, fs')
    \<and> read_file fs' (sm_bpf_path m) = Some (fst (emit_bpf_program arch (fst (map_actions_to_syscalls (pf_deny_actions parsed)))))"
proof -
  let ?dir = "SeccompArtifactLayout_new (pf_policy_id parsed) (pf_policy_version parsed) arch"
  obtain syscalls where plan: "plan_policy (Some arch) (Ok (parsed, source_sha)) = Ok (arch, parsed, source_sha, syscalls)"
    using assms(1) plan_Ok(1,2) by (cases "plan_policy (Some arch) (Ok (parsed, source_sha))") (fastforce simp: materialize_seccomp_policy_def)+
  have "compile_and_write_artifact lib io uid source_path generated_at arch parsed source_sha syscalls
      (expected_denied_syscalls arch syscalls) ?dir fs = (Ok m, fs')"
    using assms(1) by (simp add: materialize_seccomp_policy_def plan Let_def)
  then obtain md md_bytes where md: "sc_json_print lib md = Ok md_bytes"
    "read_file fs' (layout_bpf ?dir) = Some (fst (emit_bpf_program arch syscalls))"
    "read_file fs' (layout_metadata ?dir) = Some md_bytes"
    "verify_artifact_trust_paths fs' uid ?dir = Ok ()"
    "validate_metadata_contract md arch parsed source_sha (expected_denied_syscalls arch syscalls) = Ok ()"
    "verify_artifact_checksum lib fs' (layout_bpf ?dir) md = Ok ()"
    "m = \<lparr>sm_bpf_path = layout_bpf ?dir, sm_metadata_path = layout_metadata ?dir, sm_metadata = md\<rparr>"
    by (rule compile_bpf_Ok)
  have "read_metadata lib fs' (layout_metadata ?dir) = Ok md" using md(3) assms(2) [OF md(1)] by (simp add: read_metadata_def map_err_def)
  then show ?thesis
    using md plan_Ok(4) [OF plan] by (simp add: materialize_seccomp_policy_def plan Let_def load_precompiled_artifact_def)
qed

text \<open>
  C38. What one launch compiles the next one loads. After a launch that compiled the policy, a launch that only loads
  accepts the same artifact under the same policy, and the file it hands to the sandbox holds the bytes the
  compiler emits for that policy.
\<close>

theorem compiled_then_loaded:
  assumes "materialize_seccomp_policy lib io uid source_path generated_at (Some arch) CompileOnLaunch (Ok (parsed, source_sha)) fs = (Ok m, fs')"
    and "\<And>md b. sc_json_print lib md = Ok b \<Longrightarrow> sc_json_parse lib b = Ok md"
  shows "materialize_seccomp_policy lib io' uid source_path' generated_at' (Some arch) PrecompiledOnly (Ok (parsed, source_sha)) fs' = (Ok m, fs')
    \<and> read_file fs' (sm_bpf_path m) = Some (fst (emit_bpf_program arch (fst (map_actions_to_syscalls (pf_deny_actions parsed)))))"
  using assms by (rule compiled_loads)

text \<open>
  The artifact of a policy stays inside the artifact directory: a sanitised segment is not empty, has no separator
  and is no dot segment.
\<close>

lemma sanitize_confined:
  "sanitize_path_segment value \<noteq> [] \<and> CHR ''/'' \<notin> set (sanitize_path_segment value)
   \<and> sanitize_path_segment value \<notin> {''.'', ''..''}"
  by (auto simp: sanitize_path_segment_def Let_def is_ascii_alphanumeric_def is_ascii_digit_def is_ascii_upper_def
      is_ascii_lower_def byte_val_def split: if_split_asm)

section \<open>A launch\<close>

definition sample_sha :: string where
  "sample_sha = replicate 64 (CHR ''0'')"

text \<open>Metadata are printed to one byte, which is read back as the metadata of the sample policy.\<close>

definition sample_policy_file :: CedarSubsetPolicyFile where
  "sample_policy_file =
     \<lparr>pf_policy_id = ''base'', pf_policy_version = ''1'', pf_default_action = ''allow'',
      pf_deny_actions = [''system.execute'', ''credential.write''], pf_source_policy_refs = []\<rparr>"

definition sample_metadata :: SeccompArtifactMetadata where
  "sample_metadata =
     \<lparr>md_policy_schema_version = 1, md_policy_id = ''base'', md_policy_version = ''1'', md_sha256 = sample_sha,
      md_generated_at = ''now'', md_compiler_version = ''managed-seccomp-v2'', md_target_arch = ''x86_64'',
      md_default_action = ''allow'', md_source_policy_refs = [''p.toml''], md_source_policy_sha256 = ''s'',
      md_denied_syscalls = [''execve'', ''execveat'', ''setgid'', ''setresgid'', ''setresuid'', ''setuid'']\<rparr>"

definition sample_seccomp_lib :: seccomp_lib where
  "sample_seccomp_lib =
     \<lparr>sc_sha256_hex = (\<lambda>b. sample_sha), sc_json_print = (\<lambda>md. if md = sample_metadata then Ok [123] else Err ''no''),
      sc_json_parse = (\<lambda>b. Ok sample_metadata)\<rparr>"

definition sample_dirs :: art_fs where
  "sample_dirs path =
     (if path \<in> {[], [''base''], [''base'', ''1''], [''base'', ''1'', ''x86_64'']}
      then Some \<lparr>nd_kind = Directory, nd_uid = 1000, nd_mode = 0x1ED\<rparr> else None)"

definition sample_io :: compile_io where
  "sample_io =
     \<lparr>io_mkdir = Ok sample_dirs, io_write_bpf = Replaced, io_write_metadata = Replaced, io_uid = 1000, io_mode = 0x1A4\<rparr>"

lemma sample_syscalls:
  "map_actions_to_syscalls [''system.execute'', ''credential.write''] =
     ([Execve, Execveat, Setgid, Setresgid, Setresuid, Setuid], [])"
  by code_simp

lemma sample_plan:
  "plan_policy (Some X86_64) (Ok (sample_policy_file, ''s'')) =
     Ok (X86_64, sample_policy_file, ''s'', [Execve, Execveat, Setgid, Setresgid, Setresuid, Setuid])"
proof -
  have "validate_policy_source sample_policy_file = Ok ()" by code_simp
  then show ?thesis by (simp add: plan_policy_def sample_syscalls) (simp add: sample_policy_file_def sample_syscalls)
qed

lemma sample_layout: "SeccompArtifactLayout_new (pf_policy_id sample_policy_file) (pf_policy_version sample_policy_file) X86_64 =
    [''base'', ''1'', ''x86_64'']"
  by code_simp

lemma sample_contract:
  "validate_metadata_contract sample_metadata X86_64 sample_policy_file ''s''
     (expected_denied_syscalls X86_64 [Execve, Execveat, Setgid, Setresgid, Setresuid, Setuid]) = Ok ()"
  by code_simp

lemma sample_compiled_metadata:
  "compiled_metadata sample_seccomp_lib ''p.toml'' ''now'' X86_64 sample_policy_file ''s''
     [Execve, Execveat, Setgid, Setresgid, Setresuid, Setuid] = sample_metadata"
proof -
  have "snd (emit_bpf_program X86_64 [Execve, Execveat, Setgid, Setresgid, Setresuid, Setuid]) =
      [''execve'', ''execveat'', ''setgid'', ''setresgid'', ''setresuid'', ''setuid'']" by code_simp
  then show ?thesis
    by (auto simp: compiled_metadata_def sample_metadata_def sample_policy_file_def sample_seccomp_lib_def
        POLICY_SCHEMA_VERSION_def COMPILER_VERSION_def split: prod.split)
qed

lemma sample_modes: "(0x1A4 AND 0x1FF) AND (2 :: nat) = 0" "(0x1ED AND 0x1FF) AND (2 :: nat) = 0"
  by code_simp+

lemma sample_launch:
  "\<exists>m fs'. materialize_seccomp_policy sample_seccomp_lib sample_io 1000 ''p.toml'' ''now'' (Some X86_64) CompileOnLaunch
      (Ok (sample_policy_file, ''s'')) Map.empty = (Ok m, fs')"
proof -
  let ?dir = "[''base'', ''1'', ''x86_64'']"
  let ?fs = "sample_dirs(layout_bpf ?dir \<mapsto> \<lparr>nd_kind = RegularFile (fst (emit_bpf_program X86_64 [Execve, Execveat, Setgid, Setresgid, Setresuid, Setuid])), nd_uid = 1000, nd_mode = 0x1A4\<rparr>,
      layout_metadata ?dir \<mapsto> \<lparr>nd_kind = RegularFile [123], nd_uid = 1000, nd_mode = 0x1A4\<rparr>)"
  have trust: "verify_artifact_trust_paths ?fs 1000 ?dir = Ok ()"
    by (simp add: trust_Ok trusted_node_def layout_bpf_def layout_metadata_def sample_dirs_def sample_modes)
  have sum: "verify_artifact_checksum sample_seccomp_lib ?fs (layout_bpf ?dir) sample_metadata = Ok ()"
    by (simp add: checksum_Ok read_file_def layout_bpf_def layout_metadata_def sample_seccomp_lib_def sample_metadata_def)
  have print: "sc_json_print sample_seccomp_lib sample_metadata = Ok [123]" by (simp add: sample_seccomp_lib_def)
  show ?thesis
    unfolding materialize_seccomp_policy_def sample_plan
    using trust sum
    by (simp add: Let_def sample_layout compile_and_write_artifact_def sample_compiled_metadata print sample_contract
        write_atomic_def sample_io_def)
qed

lemma sample_json: "sc_json_print sample_seccomp_lib md = Ok b \<Longrightarrow> sc_json_parse sample_seccomp_lib b = Ok md"
  by (simp add: sample_seccomp_lib_def split: if_split_asm)

lemma sample_load:
  "\<exists>m fs'. materialize_seccomp_policy sample_seccomp_lib sample_io 1000 ''p.toml'' ''later'' (Some X86_64) PrecompiledOnly
      (Ok (sample_policy_file, ''s'')) fs' = (Ok m, fs')"
  using sample_launch compiled_loads [OF _ sample_json] by blast

theorem compiled_then_loaded_witness:
  "\<exists>m fs'. materialize_seccomp_policy sample_seccomp_lib sample_io 1000 ''p.toml'' ''later'' (Some X86_64) PrecompiledOnly
      (Ok (sample_policy_file, ''s'')) fs' = (Ok m, fs')
    \<and> read_file fs' (sm_bpf_path m) = Some (fst (emit_bpf_program X86_64 [Execve, Execveat, Setgid, Setresgid, Setresuid, Setuid]))"
proof -
  obtain m fs' where run: "materialize_seccomp_policy sample_seccomp_lib sample_io 1000 ''p.toml'' ''now'' (Some X86_64) CompileOnLaunch
      (Ok (sample_policy_file, ''s'')) Map.empty = (Ok m, fs')" using sample_launch by blast
  from compiled_then_loaded [OF run sample_json, of sample_io "''p.toml''" "''later''"]
  show ?thesis by (auto simp: sample_policy_file_def sample_syscalls)
qed

theorem precompiled_accepted_sound_witness:
  "\<exists>m fs' program. materialize_seccomp_policy sample_seccomp_lib sample_io 1000 ''p.toml'' ''later'' (Some X86_64) PrecompiledOnly
      (Ok (sample_policy_file, ''s'')) fs' = (Ok m, fs') \<and> md_policy_id (sm_metadata m) = ''base''
    \<and> (\<exists>n. fs' (sm_bpf_path m) = Some n \<and> nd_kind n = RegularFile program \<and> trusted_node 1000 n)"
proof -
  obtain m fs' where run: "materialize_seccomp_policy sample_seccomp_lib sample_io 1000 ''p.toml'' ''later'' (Some X86_64) PrecompiledOnly
      (Ok (sample_policy_file, ''s'')) fs' = (Ok m, fs')" using sample_load by blast
  from precompiled_accepted_sound [OF run] obtain parsed program where "md_policy_id (sm_metadata m) = pf_policy_id parsed" "parsed = sample_policy_file"
    "\<exists>n. fs' (sm_bpf_path m) = Some n \<and> nd_kind n = RegularFile program \<and> trusted_node 1000 n" by auto
  then show ?thesis using run by (intro exI [of _ m] exI [of _ fs'] exI [of _ program]) (simp add: sample_policy_file_def)
qed

end
