(* ===== verification/Secret_Rewrite.thy ===== *)
theory Secret_Rewrite
  imports Normalizer
begin

text \<open>
  Rewriting of secrets in bodies: \<^verbatim>\<open>firma-sidecar/src/secret_rewrite.rs\<close>, \<^verbatim>\<open>secret_store.rs\<close> and the scan for
  placeholders of \<^verbatim>\<open>handler.rs\<close>.  On the way out placeholder tokens become secrets, on the way back secrets become
  placeholder tokens.  A body is a byte string and a range is a pair of offsets; an index or a slice out of range
  panics, which is the value \<open>None\<close>.

  Third-party code is the record \<open>rewrite_lib\<close>: the tokens of placeholders (\<^verbatim>\<open>type_safe_id\<close>), the multi-pattern search
  (\<^verbatim>\<open>aho_corasick\<close>) and the escaping functions of \<^verbatim>\<open>serde_json\<close>, \<^verbatim>\<open>json_escape\<close>, \<^verbatim>\<open>form_urlencoded\<close> and
  \<^verbatim>\<open>quick_xml\<close>.
\<close>

section \<open>Content types\<close>

type_synonym range = "nat \<times> nat"

datatype ContentType = Json | FormEncoded | Xml | Raw

text \<open>A parsed \<^verbatim>\<open>Content-Type\<close>: type, subtype and suffix, in lower case as \<^verbatim>\<open>mime\<close> compares them.\<close>

record Mime =
  mime_type :: string
  mime_subtype :: string
  mime_suffix :: "string option"

definition from_header :: "Mime option \<Rightarrow> (unit, ContentType option) result" where
  "from_header header =
     (case header of
        None \<Rightarrow> Ok None
      | Some mime \<Rightarrow>
          (if mime_type mime = ''application'' \<and> mime_subtype mime = ''json'' \<or> mime_suffix mime = Some ''json'' then Ok (Some Json)
           else if mime_type mime = ''application'' \<and> mime_subtype mime = ''x-www-form-urlencoded'' then Ok (Some FormEncoded)
           else if (mime_type mime = ''application'' \<or> mime_type mime = ''text'') \<and> mime_subtype mime = ''xml''
                 \<or> mime_type mime = ''application'' \<and> mime_suffix mime = Some ''xml'' then Ok (Some Xml)
           else if mime_type mime = ''text'' \<or> mime_type mime = ''application'' \<and> mime_subtype mime = ''octet-stream''
                then Ok (Some Raw)
           else Err ()))"

definition sniff :: "string \<Rightarrow> (unit, ContentType) result" where
  "sniff body =
     (let first = find (\<lambda>b. \<not> is_ascii_whitespace b) body
      in if first = Some (CHR 0x7B) \<or> first = Some (CHR 0x5B) then Ok Json
         else if first = Some (CHR 0x3C) then Ok Xml
         else if CHR 0x3D \<in> set body then Ok FormEncoded
         else Err ())"

definition ContentType_resolve :: "Mime option \<Rightarrow> string \<Rightarrow> (unit, ContentType) result" where
  "ContentType_resolve header body =
     and_then (from_header header) (\<lambda>found. case found of None \<Rightarrow> sniff body | Some content_type \<Rightarrow> Ok content_type)"

section \<open>Applying operations\<close>

record RehydrateOp =
  ro_range :: range
  ro_secret :: string

record MaskOp =
  mask_range :: range
  mask_placeholder :: string

definition slice :: "string \<Rightarrow> nat \<Rightarrow> nat \<Rightarrow> string option" where
  "slice body a b = (if a \<le> b \<and> b \<le> length body then Some (take (b - a) (drop a body)) else None)"

text \<open>
  The loop both rewriters have, over the ranges and the bytes that replace them: the output so far and the cursor.
\<close>

fun substitute_ops :: "string \<Rightarrow> (range \<times> string) list \<Rightarrow> string \<Rightarrow> nat \<Rightarrow> string option" where
  "substitute_ops body [] out cursor = map_option ((@) out) (slice body cursor (length body))"
| "substitute_ops body (((a, b), replacement) # ops) out cursor =
     (case slice body cursor a of
        None \<Rightarrow> None
      | Some unchanged \<Rightarrow> substitute_ops body ops (out @ unchanged @ replacement) b)"

definition mask_body :: "string \<Rightarrow> MaskOp list \<Rightarrow> string option" where
  "mask_body body ops = substitute_ops body (map (\<lambda>op. (mask_range op, mask_placeholder op)) ops) [] 0"

definition apply_ops :: "string \<Rightarrow> RehydrateOp list \<Rightarrow> (string \<Rightarrow> ContentType \<Rightarrow> string) \<Rightarrow> ContentType \<Rightarrow> string option" where
  "apply_ops body ops encode ct = substitute_ops body (map (\<lambda>op. (ro_range op, encode (ro_secret op) ct)) ops) [] 0"

text \<open>A token of a decoded JSON string: bytes that stand for themselves, or the UTF-8 bytes of an escaped character.\<close>

datatype UnescapedToken = Literal string | Unescaped string

record rewrite_lib =
  rw_placeholder :: "string \<Rightarrow> string option"
  rw_find_iter :: "string list \<Rightarrow> string \<Rightarrow> (nat \<times> range) list"
  rw_json_string :: "string \<Rightarrow> string option"
  rw_json_unescape :: "string \<Rightarrow> (unit, UnescapedToken) result list"
  rw_form_serialize :: "string \<Rightarrow> string"
  rw_xml_escape :: "string \<Rightarrow> string"
  rw_xml_unescape :: "string \<Rightarrow> string option"

definition json_escape :: "rewrite_lib \<Rightarrow> string \<Rightarrow> string" where
  "json_escape lib input =
     (let quoted = unwrap_or [] (rw_json_string lib input)
      in unwrap_or [] (Option.bind (strip_prefix [CHR 0x22] quoted) (strip_suffix [CHR 0x22])))"

definition form_encode :: "rewrite_lib \<Rightarrow> string \<Rightarrow> string" where
  "form_encode lib input = rw_form_serialize lib input"

definition xml_escape :: "rewrite_lib \<Rightarrow> string \<Rightarrow> string" where
  "xml_escape lib input = rw_xml_escape lib input"

definition encode_secret :: "rewrite_lib \<Rightarrow> string \<Rightarrow> ContentType \<Rightarrow> string" where
  "encode_secret lib secret content_type =
     (case content_type of
        Json \<Rightarrow> json_escape lib secret
      | FormEncoded \<Rightarrow> form_encode lib secret
      | Xml \<Rightarrow> xml_escape lib secret
      | Raw \<Rightarrow> secret)"

definition rehydrate_body :: "rewrite_lib \<Rightarrow> string \<Rightarrow> ContentType \<Rightarrow> RehydrateOp list \<Rightarrow> string option" where
  "rehydrate_body lib body content_type ops = apply_ops body ops (encode_secret lib) content_type"

section \<open>Finding secrets in a body\<close>

fun byte_position :: "char \<Rightarrow> string \<Rightarrow> nat option" where
  "byte_position c [] = None"
| "byte_position c (x # xs) = (if x = c then Some 0 else map_option Suc (byte_position c xs))"

definition is_word_byte :: "char \<Rightarrow> bool" where
  "is_word_byte b \<longleftrightarrow> is_ascii_alphanumeric b \<or> b = CHR ''-'' \<or> b = CHR ''_''"

definition word_bounded_at :: "string \<Rightarrow> string \<Rightarrow> nat \<Rightarrow> bool" where
  "word_bounded_at haystack needle pos \<longleftrightarrow>
     take (length needle) (drop pos haystack) = needle
   \<and> (pos = 0 \<or> \<not> is_word_byte (haystack ! (pos - 1)))
   \<and> (pos + length needle = length haystack \<or> \<not> is_word_byte (haystack ! (pos + length needle)))"

function word_bounded_from :: "string \<Rightarrow> string \<Rightarrow> nat \<Rightarrow> range list" where
  "word_bounded_from haystack needle pos =
     (if needle \<noteq> [] \<and> pos + length needle \<le> length haystack
      then if word_bounded_at haystack needle pos
           then (pos, pos + length needle) # word_bounded_from haystack needle (pos + length needle)
           else word_bounded_from haystack needle (pos + 1)
      else [])"
  by pat_completeness auto
termination
  by (relation "measure (\<lambda>(haystack, _, pos). length haystack - pos)") (auto simp: length_greater_0_conv [symmetric] simp del: length_greater_0_conv)

declare word_bounded_from.simps [simp del]

definition find_word_bounded_spans :: "string \<Rightarrow> string \<Rightarrow> range list" where
  "find_word_bounded_spans haystack needle = word_bounded_from haystack needle 0"

text \<open>Decoded bytes, each with the raw bytes it was encoded in.\<close>

record DecodedContent =
  dc_decoded :: string
  dc_raw :: "range list"

definition dc_empty :: DecodedContent where
  "dc_empty = \<lparr>dc_decoded = [], dc_raw = []\<rparr>"

definition dc_push :: "char \<Rightarrow> range \<Rightarrow> DecodedContent \<Rightarrow> DecodedContent" where
  "dc_push byte raw self = \<lparr>dc_decoded = dc_decoded self @ [byte], dc_raw = dc_raw self @ [raw]\<rparr>"

definition find_word_bounded_raw_spans :: "DecodedContent \<Rightarrow> string \<Rightarrow> range list" where
  "find_word_bounded_raw_spans self secret =
     map (\<lambda>(a, b). (fst (dc_raw self ! a), snd (dc_raw self ! (b - 1)))) (find_word_bounded_spans (dc_decoded self) secret)"

definition shift_span :: "nat \<Rightarrow> range \<Rightarrow> range" where
  "shift_span n s = (n + fst s, n + snd s)"

subsection \<open>JSON\<close>

definition escape_len :: "string \<Rightarrow> nat \<Rightarrow> string \<Rightarrow> nat" where
  "escape_len content raw_cursor ch =
     (if length ch = 4 then 12
      else if raw_cursor + 1 < length content \<and> content ! (raw_cursor + 1) = CHR ''u'' then 6 else 2)"

fun decode_json_tokens :: "string \<Rightarrow> (unit, UnescapedToken) result list \<Rightarrow> nat \<Rightarrow> DecodedContent \<Rightarrow> DecodedContent option" where
  "decode_json_tokens content [] raw_cursor out = Some out"
| "decode_json_tokens content (Inl _ # tokens) raw_cursor out = None"
| "decode_json_tokens content (Inr (Literal literal) # tokens) raw_cursor out =
     decode_json_tokens content tokens (raw_cursor + length literal)
       (fold (\<lambda>(k, byte). dc_push byte (k, k + 1)) (enumerate raw_cursor literal) out)"
| "decode_json_tokens content (Inr (Unescaped ch) # tokens) raw_cursor out =
     (let n = escape_len content raw_cursor ch
      in decode_json_tokens content tokens (raw_cursor + n)
           (fold (\<lambda>byte. dc_push byte (raw_cursor, raw_cursor + n)) ch out))"

definition decode_json_content :: "rewrite_lib \<Rightarrow> string \<Rightarrow> DecodedContent option" where
  "decode_json_content lib content = decode_json_tokens content (rw_json_unescape lib content) 0 dc_empty"

function json_literal_end :: "string \<Rightarrow> nat \<Rightarrow> bool \<Rightarrow> nat \<times> bool" where
  "json_literal_end body j has_escape =
     (if j < length body \<and> body ! j \<noteq> CHR 0x22
      then if body ! j = CHR 0x5C
           then json_literal_end body (j + (if j + 1 < length body \<and> body ! (j + 1) = CHR ''u'' then 6 else 2)) True
           else json_literal_end body (j + 1) has_escape
      else (j, has_escape))"
  by pat_completeness auto
termination by (relation "measure (\<lambda>(body, j, _). length body - j)") auto

declare json_literal_end.simps [simp del]

lemma json_literal_end_ge: "j \<le> fst (json_literal_end body j has_escape)"
proof (induction body j has_escape rule: json_literal_end.induct)
  case (1 body j has_escape)
  then show ?case by (subst json_literal_end.simps) (auto split: if_splits)
qed

definition json_content_spans :: "rewrite_lib \<Rightarrow> string \<Rightarrow> bool \<Rightarrow> string \<Rightarrow> range list" where
  "json_content_spans lib content has_escape secret =
     (if has_escape
      then (case decode_json_content lib content of None \<Rightarrow> [] | Some decoded \<Rightarrow> find_word_bounded_raw_spans decoded secret)
      else find_word_bounded_spans content secret)"

definition json_literal :: "string \<Rightarrow> nat \<Rightarrow> nat \<times> bool" where
  "json_literal body i = (let (j, has_escape) = json_literal_end body (i + 1) False in (min j (length body), has_escape))"

lemma json_literal_gt: "i < length body \<Longrightarrow> i < fst (json_literal body i) + 1"
  using json_literal_end_ge [of "i + 1" body False] by (cases "json_literal_end body (i + 1) False") (simp add: json_literal_def)

function json_spans_from :: "rewrite_lib \<Rightarrow> string \<Rightarrow> string \<Rightarrow> nat \<Rightarrow> range list" where
  "json_spans_from lib body secret i =
     (if i < length body
      then if body ! i \<noteq> CHR 0x22 then json_spans_from lib body secret (i + 1)
           else (if fst (json_literal body i) < length body \<and> body ! fst (json_literal body i) = CHR 0x22
                 then map (shift_span (i + 1))
                        (json_content_spans lib (take (fst (json_literal body i) - (i + 1)) (drop (i + 1) body))
                          (snd (json_literal body i)) secret)
                 else [])
             @ json_spans_from lib body secret (fst (json_literal body i) + 1)
      else [])"
  by pat_completeness auto
termination
  by (relation "measure (\<lambda>(_, body, _, i). length body - i)") (auto dest: json_literal_gt intro!: diff_less_mono2)

declare json_spans_from.simps [simp del]

definition find_json_string_spans :: "rewrite_lib \<Rightarrow> string \<Rightarrow> string \<Rightarrow> range list" where
  "find_json_string_spans lib body secret = json_spans_from lib body secret 0"

subsection \<open>Forms\<close>

definition hex_digit :: "char \<Rightarrow> nat option" where
  "hex_digit byte =
     (let n = byte_val byte
      in if 48 \<le> n \<and> n \<le> 57 then Some (n - 48)
         else if 97 \<le> n \<and> n \<le> 102 then Some (n - 97 + 10)
         else if 65 \<le> n \<and> n \<le> 70 then Some (n - 65 + 10)
         else None)"

text \<open>What the loop reads at the head of the rest of the value: the decoded byte and the number of raw bytes.\<close>

definition form_byte :: "string \<Rightarrow> char \<times> nat" where
  "form_byte rest =
     (if hd rest = CHR ''+'' then (CHR '' '', 1)
      else if hd rest = CHR ''%'' then
        (case rest of
           _ # h # l # _ \<Rightarrow>
             (case (hex_digit h, hex_digit l) of
                (Some hi, Some lo) \<Rightarrow> (char_of (16 * hi + lo), 3)
              | _ \<Rightarrow> (CHR ''%'', 1))
         | _ \<Rightarrow> (CHR ''%'', 1))
      else (hd rest, 1))"

lemma form_byte_pos: "0 < snd (form_byte rest)"
  by (simp add: form_byte_def split: list.split option.split)

function decode_form_from :: "nat \<Rightarrow> string \<Rightarrow> DecodedContent \<Rightarrow> DecodedContent" where
  "decode_form_from i rest out =
     (if rest = [] then out
      else decode_form_from (i + snd (form_byte rest)) (drop (snd (form_byte rest)) rest)
             (dc_push (fst (form_byte rest)) (i, i + snd (form_byte rest)) out))"
  by pat_completeness auto
termination
  by (relation "measure (\<lambda>(_, rest, _). length rest)") (auto simp: form_byte_pos)

declare decode_form_from.simps [simp del]

definition decode_form_content :: "string \<Rightarrow> DecodedContent" where
  "decode_form_content value = decode_form_from 0 value dc_empty"

definition form_content_spans :: "string \<Rightarrow> string \<Rightarrow> range list" where
  "form_content_spans value secret =
     (if CHR ''%'' \<in> set value \<or> CHR ''+'' \<in> set value then find_word_bounded_raw_spans (decode_form_content value) secret
      else find_word_bounded_spans value secret)"

fun form_pair_spans :: "string \<Rightarrow> nat \<Rightarrow> string list \<Rightarrow> range list" where
  "form_pair_spans secret offset [] = []"
| "form_pair_spans secret offset (pair # pairs) =
     (let value_start = (case byte_position (CHR ''='') pair of None \<Rightarrow> 0 | Some p \<Rightarrow> p + 1)
      in map (shift_span (offset + value_start)) (form_content_spans (drop value_start pair) secret)
         @ form_pair_spans secret (offset + length pair + 1) pairs)"

definition find_form_value_spans :: "string \<Rightarrow> string \<Rightarrow> range list" where
  "find_form_value_spans body secret = form_pair_spans secret 0 (split_on (CHR 0x26) body)"

subsection \<open>XML\<close>

lemma byte_position_Some: "byte_position c s = Some n \<longleftrightarrow> n < length s \<and> s ! n = c \<and> (\<forall>m < n. s ! m \<noteq> c)"
proof (induction s arbitrary: n)
  case (Cons x s)
  show ?case by (cases n) (auto simp: Cons.IH less_Suc_eq_0_disj)
qed simp

text \<open>The characters of a decoded string, counted by their first bytes.\<close>

definition chars_count :: "string \<Rightarrow> nat" where
  "chars_count s = length (filter (\<lambda>b. \<not> cont_byte (byte_val b)) s)"

text \<open>What the loop reads at the head of the rest: the decoded bytes and the number of raw bytes.\<close>

definition xml_bytes :: "rewrite_lib \<Rightarrow> string \<Rightarrow> string \<times> nat" where
  "xml_bytes lib rest =
     (if hd rest = CHR 0x26 then
        (case byte_position (CHR '';'') (tl rest) of
           None \<Rightarrow> ([CHR 0x26], 1)
         | Some rel_end \<Rightarrow>
             (let entity = take (rel_end + 2) rest
              in case (if from_utf8_ok entity then rw_xml_unescape lib entity else None) of
                   None \<Rightarrow> ([CHR 0x26], 1)
                 | Some decoded \<Rightarrow> (if chars_count decoded = 1 then (decoded, rel_end + 2) else ([CHR 0x26], 1))))
      else ([hd rest], 1))"

lemma xml_bytes_pos: "0 < snd (xml_bytes lib rest)"
  by (simp add: xml_bytes_def Let_def split: option.split)

function decode_xml_from :: "rewrite_lib \<Rightarrow> nat \<Rightarrow> string \<Rightarrow> DecodedContent \<Rightarrow> DecodedContent" where
  "decode_xml_from lib i rest out =
     (if rest = [] then out
      else decode_xml_from lib (i + snd (xml_bytes lib rest)) (drop (snd (xml_bytes lib rest)) rest)
             (fold (\<lambda>byte. dc_push byte (i, i + snd (xml_bytes lib rest))) (fst (xml_bytes lib rest)) out))"
  by pat_completeness auto
termination
  by (relation "measure (\<lambda>(_, _, rest, _). length rest)") (auto simp: xml_bytes_pos)

declare decode_xml_from.simps [simp del]

definition decode_xml_content :: "rewrite_lib \<Rightarrow> string \<Rightarrow> DecodedContent" where
  "decode_xml_content lib raw = decode_xml_from lib 0 raw dc_empty"

definition xml_content_spans :: "rewrite_lib \<Rightarrow> string \<Rightarrow> string \<Rightarrow> range list" where
  "xml_content_spans lib content secret =
     (if CHR 0x26 \<in> set content then find_word_bounded_raw_spans (decode_xml_content lib content) secret
      else find_word_bounded_spans content secret)"

function xml_attributes_from :: "rewrite_lib \<Rightarrow> string \<Rightarrow> nat \<Rightarrow> string \<Rightarrow> range list" where
  "xml_attributes_from lib secret at_offset [] = []"
| "xml_attributes_from lib secret at_offset (quote # rest) =
     (if quote \<noteq> CHR 0x22 \<and> quote \<noteq> CHR 0x27 then xml_attributes_from lib secret (at_offset + 1) rest
      else case byte_position quote rest of
        None \<Rightarrow> []
      | Some rel_end \<Rightarrow>
          map (shift_span (at_offset + 1)) (xml_content_spans lib (take rel_end rest) secret)
          @ xml_attributes_from lib secret (at_offset + 1 + rel_end + 1) (drop (rel_end + 1) rest))"
  by pat_completeness auto
termination by (relation "measure (\<lambda>(_, _, _, rest). length rest)") auto

definition find_xml_attribute_spans :: "rewrite_lib \<Rightarrow> string \<Rightarrow> string \<Rightarrow> nat \<Rightarrow> range list" where
  "find_xml_attribute_spans lib tag secret offset = xml_attributes_from lib secret offset tag"

text \<open>Where the piece at the head of the rest ends: a tag after its \<open>>\<close>, a text before the next tag.\<close>

definition xml_text_end :: "string \<Rightarrow> nat" where
  "xml_text_end rest = (case byte_position (CHR 0x3C) rest of None \<Rightarrow> length rest | Some p \<Rightarrow> p)"

lemma xml_text_end_pos: "rest \<noteq> [] \<Longrightarrow> hd rest \<noteq> CHR 0x3C \<Longrightarrow> 0 < xml_text_end rest"
  by (cases rest) (auto simp: xml_text_end_def split: option.split)

function xml_spans_from :: "rewrite_lib \<Rightarrow> string \<Rightarrow> nat \<Rightarrow> string \<Rightarrow> range list" where
  "xml_spans_from lib secret i rest =
     (if rest = [] then []
      else if hd rest = CHR 0x3C then
        (case byte_position (CHR 0x3E) rest of
           None \<Rightarrow> []
         | Some tag_end \<Rightarrow>
             find_xml_attribute_spans lib (take (tag_end + 1) rest) secret i
             @ xml_spans_from lib secret (i + tag_end + 1) (drop (tag_end + 1) rest))
      else map (shift_span i) (xml_content_spans lib (take (xml_text_end rest) rest) secret)
           @ xml_spans_from lib secret (i + xml_text_end rest) (drop (xml_text_end rest) rest))"
  by pat_completeness auto
termination
  by (relation "measure (\<lambda>(_, _, _, rest). length rest)") (auto simp: xml_text_end_pos)

declare xml_spans_from.simps [simp del]

definition find_xml_text_spans :: "rewrite_lib \<Rightarrow> string \<Rightarrow> string \<Rightarrow> range list" where
  "find_xml_text_spans lib body secret = xml_spans_from lib secret 0 body"

definition raw_spans :: "string \<Rightarrow> string \<Rightarrow> range list" where
  "raw_spans body pattern =
     (if pattern = [] then []
      else map (\<lambda>start. (start, start + length pattern))
             (filter (\<lambda>start. take (length pattern) (drop start body) = pattern) [0..<length body + 1 - length pattern]))"

definition find_decoded_secret_spans :: "rewrite_lib \<Rightarrow> string \<Rightarrow> ContentType \<Rightarrow> string \<Rightarrow> range list" where
  "find_decoded_secret_spans lib body content_type secret =
     (case content_type of
        Json \<Rightarrow> find_json_string_spans lib body secret
      | FormEncoded \<Rightarrow> find_form_value_spans body secret
      | Xml \<Rightarrow> find_xml_text_spans lib body secret
      | Raw \<Rightarrow> raw_spans body secret)"

section \<open>The dictionary of one exchange\<close>

definition MIN_MASKABLE_SECRET_LEN :: nat where "MIN_MASKABLE_SECRET_LEN = 8"

text \<open>\<^verbatim>\<open>BTreeMap\<close>: entries in the order of their keys; the order of placeholders is that of their tokens.\<close>

fun btree_insert :: "string \<Rightarrow> string \<Rightarrow> (string \<times> string) list \<Rightarrow> (string \<times> string) list" where
  "btree_insert k v [] = [(k, v)]"
| "btree_insert k v ((k', v') # m) =
     (if k < k' then (k, v) # (k', v') # m
      else if k = k' then (k, v) # m
      else (k', v') # btree_insert k v m)"

text \<open>The automaton is the list of its patterns.\<close>

record MatcherPlaceholders =
  mp_matcher :: "string list option"
  mp_placeholders :: "string list"

record SidecarSecretStore =
  by_placeholder :: "(string \<times> string) list"
  ss_rehydrate :: MatcherPlaceholders

definition SidecarSecretStore_new :: SidecarSecretStore where
  "SidecarSecretStore_new = \<lparr>by_placeholder = [], ss_rehydrate = \<lparr>mp_matcher = None, mp_placeholders = []\<rparr>\<rparr>"

text \<open>\<open>build\<close> is the builder of the automaton: \<open>Some\<close> is its error.\<close>

definition matcher_rebuild ::
  "(string list \<Rightarrow> string option) \<Rightarrow> (string \<times> string) list \<Rightarrow> MatcherPlaceholders \<Rightarrow> (string, unit) result \<times> MatcherPlaceholders" where
  "matcher_rebuild build entries self =
     (if entries = [] then (Ok (), \<lparr>mp_matcher = None, mp_placeholders = []\<rparr>)
      else case build (map snd entries) of
        Some err \<Rightarrow> (Err (''failed to build secret matcher: '' @ err), self)
      | None \<Rightarrow> (Ok (), \<lparr>mp_matcher = Some (map snd entries), mp_placeholders = map fst entries\<rparr>))"

definition find_ops :: "rewrite_lib \<Rightarrow> MatcherPlaceholders \<Rightarrow> string \<Rightarrow> (range \<Rightarrow> string \<Rightarrow> 'a option) \<Rightarrow> 'a list" where
  "find_ops lib self haystack mk =
     (case mp_matcher self of
        None \<Rightarrow> []
      | Some patterns \<Rightarrow>
          List.map_filter
            (\<lambda>(pattern, s). if pattern < length (mp_placeholders self) then mk s (mp_placeholders self ! pattern) else None)
            (rw_find_iter lib patterns haystack))"

definition rebuild_matchers ::
  "(string list \<Rightarrow> string option) \<Rightarrow> SidecarSecretStore \<Rightarrow> (string, unit) result \<times> SidecarSecretStore" where
  "rebuild_matchers build self =
     (let (r, m) = matcher_rebuild build (map (\<lambda>e. (fst e, fst e)) (by_placeholder self)) (ss_rehydrate self)
      in (r, self\<lparr>ss_rehydrate := m\<rparr>))"

definition SidecarSecretStore_insert ::
  "(string list \<Rightarrow> string option) \<Rightarrow> string \<Rightarrow> string \<Rightarrow> SidecarSecretStore \<Rightarrow> (string, unit) result \<times> SidecarSecretStore" where
  "SidecarSecretStore_insert build placeholder secret self =
     rebuild_matchers build (self\<lparr>by_placeholder := btree_insert placeholder secret (by_placeholder self)\<rparr>)"

definition rehydrate_ops :: "rewrite_lib \<Rightarrow> SidecarSecretStore \<Rightarrow> string \<Rightarrow> RehydrateOp list" where
  "rehydrate_ops lib self haystack =
     find_ops lib (ss_rehydrate self) haystack
       (\<lambda>s placeholder. map_option (\<lambda>secret. \<lparr>ro_range = s, ro_secret = secret\<rparr>) (map_of (by_placeholder self) placeholder))"

text \<open>One step of the fold over the sorted spans; the kept operations are in reverse.\<close>

definition keep_op :: "MaskOp \<Rightarrow> MaskOp list \<Rightarrow> MaskOp list" where
  "keep_op op kept =
     (case kept of
        [] \<Rightarrow> [op]
      | prev # earlier \<Rightarrow>
          (if fst (mask_range op) < snd (mask_range prev) then
             if fst (mask_range op) = fst (mask_range prev)
                \<and> snd (mask_range op) - fst (mask_range op) > snd (mask_range prev) - fst (mask_range prev)
             then op # earlier
             else if snd (mask_range op) > snd (mask_range prev)
             then \<lparr>mask_range = (snd (mask_range prev), snd (mask_range op)), mask_placeholder = mask_placeholder op\<rparr> # kept
             else kept
           else op # kept))"

definition candidate_ops :: "rewrite_lib \<Rightarrow> SidecarSecretStore \<Rightarrow> string \<Rightarrow> ContentType \<Rightarrow> MaskOp list" where
  "candidate_ops lib self haystack content_type =
     concat (map (\<lambda>(placeholder, secret). map (\<lambda>s. \<lparr>mask_range = s, mask_placeholder = placeholder\<rparr>)
                    (find_decoded_secret_spans lib haystack content_type secret))
              (filter (\<lambda>e. MIN_MASKABLE_SECRET_LEN \<le> length (snd e)) (by_placeholder self)))"

definition mask_ops :: "rewrite_lib \<Rightarrow> SidecarSecretStore \<Rightarrow> string \<Rightarrow> ContentType \<Rightarrow> MaskOp list" where
  "mask_ops lib self haystack content_type =
     rev (fold keep_op (sort_key (\<lambda>op. fst (mask_range op)) (candidate_ops lib self haystack content_type)) [])"

section \<open>The scan for placeholders\<close>

definition PLACEHOLDER_PREFIX :: string where "PLACEHOLDER_PREFIX = ''fsp_''"
definition PLACEHOLDER_SUFFIX_LEN :: nat where "PLACEHOLDER_SUFFIX_LEN = 26"

fun find_map :: "('a \<Rightarrow> 'b option) \<Rightarrow> 'a list \<Rightarrow> 'b option" where
  "find_map f [] = None"
| "find_map f (x # xs) = (case f x of None \<Rightarrow> find_map f xs | Some y \<Rightarrow> Some y)"

text \<open>The longest candidate span from \<open>i\<close> that parses, not past the length of a token.\<close>

definition placeholder_at :: "rewrite_lib \<Rightarrow> string \<Rightarrow> nat \<Rightarrow> (string \<times> nat) option" where
  "placeholder_at lib body i =
     (let path_start = i + length PLACEHOLDER_PREFIX;
          run_end = path_start + length (takeWhile is_ascii_alphanumeric (drop path_start body));
          max_candidate_end = min run_end (path_start + PLACEHOLDER_SUFFIX_LEN)
      in find_map
           (\<lambda>candidate_end.
              let token = take (candidate_end - i) (drop i body)
              in if from_utf8_ok token then map_option (\<lambda>p. (p, candidate_end)) (rw_placeholder lib token) else None)
           (rev [path_start..<max_candidate_end + 1]))"

lemma find_map_Some: "find_map f xs = Some y \<Longrightarrow> \<exists>x \<in> set xs. f x = Some y"
  by (induction xs) (auto split: option.splits)

lemma placeholder_at_gt:
  assumes "placeholder_at lib body i = Some (p, e)"
  shows "i < e"
proof -
  have "i + length PLACEHOLDER_PREFIX \<le> e"
    using assms unfolding placeholder_at_def Let_def by (auto simp del: upt_Suc dest!: find_map_Some split: if_splits)
  then show ?thesis by (simp add: PLACEHOLDER_PREFIX_def)
qed

function collect_from :: "rewrite_lib \<Rightarrow> string \<Rightarrow> nat \<Rightarrow> string list \<Rightarrow> string list" where
  "collect_from lib body i result =
     (if i + length PLACEHOLDER_PREFIX \<le> length body
      then if prefix PLACEHOLDER_PREFIX (drop i body)
           then case placeholder_at lib body i of
                  Some (placeholder, consumed_end) \<Rightarrow>
                    collect_from lib body consumed_end (if placeholder \<in> set result then result else result @ [placeholder])
                | None \<Rightarrow> collect_from lib body (i + 1) result
           else collect_from lib body (i + 1) result
      else result)"
  by pat_completeness auto
termination
  by (relation "measure (\<lambda>(_, body, i, _). length body - i)")
    (auto dest: placeholder_at_gt simp: PLACEHOLDER_PREFIX_def intro!: diff_less_mono2)

declare collect_from.simps [simp del]

definition collect_placeholders :: "rewrite_lib \<Rightarrow> string \<Rightarrow> string list" where
  "collect_placeholders lib body = collect_from lib body 0 []"

section \<open>Ranges\<close>

definition span_ok :: "nat \<Rightarrow> range \<Rightarrow> bool" where
  "span_ok n s \<longleftrightarrow> fst s < snd s \<and> snd s \<le> n"

definition in_span :: "nat \<Rightarrow> range \<Rightarrow> bool" where
  "in_span i s \<longleftrightarrow> fst s \<le> i \<and> i < snd s"

lemma span_ok_pair [simp]: "span_ok n (a, b) \<longleftrightarrow> a < b \<and> b \<le> n"
  by (simp add: span_ok_def)

lemma shift_span_ok [intro]: "span_ok n s \<Longrightarrow> m + n \<le> k \<Longrightarrow> span_ok k (shift_span m s)"
  by (auto simp: span_ok_def shift_span_def)

lemma shift_spans_ok: "list_all (span_ok n) spans \<Longrightarrow> m + n \<le> k \<Longrightarrow> list_all (span_ok k) (map (shift_span m) spans)"
  by (auto simp: list_all_iff)

lemma word_bounded_from_ok: "list_all (span_ok (length haystack)) (word_bounded_from haystack needle pos)"
proof (induction haystack needle pos rule: word_bounded_from.induct)
  case (1 haystack needle pos)
  then show ?case by (subst word_bounded_from.simps) simp
qed

lemma word_bounded_ok: "list_all (span_ok (length haystack)) (find_word_bounded_spans haystack needle)"
  by (simp add: find_word_bounded_spans_def word_bounded_from_ok)

text \<open>
  Decoded content whose raw ranges start at most at \<open>m\<close>, end at most at \<open>k\<close> and are in order.
\<close>

definition dc_ok :: "nat \<Rightarrow> nat \<Rightarrow> DecodedContent \<Rightarrow> bool" where
  "dc_ok m k dc \<longleftrightarrow> length (dc_raw dc) = length (dc_decoded dc) \<and> sorted (map fst (dc_raw dc))
     \<and> (\<forall>s \<in> set (dc_raw dc). span_ok k s \<and> fst s \<le> m)"

lemma dc_ok_empty: "dc_ok 0 0 dc_empty"
  by (simp add: dc_ok_def dc_empty_def)

lemma dc_ok_push: "dc_ok m k dc \<Longrightarrow> m \<le> a \<Longrightarrow> k \<le> b \<Longrightarrow> a < b \<Longrightarrow> dc_ok a b (dc_push byte (a, b) dc)"
  by (force simp: dc_ok_def dc_push_def span_ok_def sorted_append)

lemma dc_ok_mono: "dc_ok m k dc \<Longrightarrow> m \<le> m' \<Longrightarrow> k \<le> k' \<Longrightarrow> dc_ok m' k' dc"
  by (force simp: dc_ok_def span_ok_def)

lemma dc_ok_push_all:
  "dc_ok m k dc \<Longrightarrow> m \<le> a \<Longrightarrow> k \<le> b \<Longrightarrow> a < b \<Longrightarrow> dc_ok a b (fold (\<lambda>byte. dc_push byte (a, b)) bytes dc)"
proof (induction bytes arbitrary: m k dc)
  case (Cons byte bytes)
  have "dc_ok a b (dc_push byte (a, b) dc)" using Cons.prems by (rule dc_ok_push)
  then show ?case using Cons.IH [of a b] Cons.prems(4) by simp
qed (simp add: dc_ok_mono)

lemma dc_ok_push_literal:
  "dc_ok k k dc \<Longrightarrow> dc_ok (k + length l) (k + length l) (fold (\<lambda>(j, byte). dc_push byte (j, j + 1)) (enumerate k l) dc)"
proof (induction l arbitrary: k dc)
  case (Cons byte l)
  have "dc_ok (Suc k) (Suc k) (dc_push byte (k, k + 1) dc)"
    using dc_ok_push [OF Cons.prems, of k "k + 1" byte] by (simp add: dc_ok_mono [of k "Suc k"])
  then show ?case using Cons.IH [of "Suc k"] by simp
qed simp

lemma raw_span_ok:
  assumes "dc_ok m k dc"
  shows "list_all (span_ok k) (find_word_bounded_raw_spans dc secret)"
proof -
  have "span_ok k (fst (dc_raw dc ! a), snd (dc_raw dc ! (b - 1)))"
    if "(a, b) \<in> set (find_word_bounded_spans (dc_decoded dc) secret)" for a b
  proof -
    have b: "a < b" "b \<le> length (dc_raw dc)"
      using word_bounded_ok [of "dc_decoded dc" secret] that assms by (auto simp: list_all_iff span_ok_def dc_ok_def)
    then have "fst (dc_raw dc ! a) \<le> fst (dc_raw dc ! (b - 1))"
      using assms sorted_nth_mono [of "map fst (dc_raw dc)" a "b - 1"] by (simp add: dc_ok_def)
    moreover have "span_ok k (dc_raw dc ! (b - 1))" using assms b by (simp add: dc_ok_def)
    ultimately show ?thesis by (simp add: span_ok_def)
  qed
  then show ?thesis by (auto simp: list_all_iff find_word_bounded_raw_spans_def)
qed

lemma form_byte_le: "rest \<noteq> [] \<Longrightarrow> snd (form_byte rest) \<le> length rest"
  by (cases rest) (auto simp: form_byte_def split: list.split option.split)

lemma decode_form_ok: "dc_ok i i out \<Longrightarrow> dc_ok (i + length rest) (i + length rest) (decode_form_from i rest out)"
proof (induction i rest out rule: decode_form_from.induct)
  case (1 i rest out)
  show ?case
  proof (cases "rest = []")
    case False
    let ?n = "snd (form_byte rest)"
    have "dc_ok (i + ?n) (i + ?n) (dc_push (fst (form_byte rest)) (i, i + ?n) out)"
      using dc_ok_push [OF 1(2), of i "i + ?n"] form_byte_pos [of rest] by (simp add: dc_ok_mono [of i "i + ?n"])
    moreover have "i + ?n + length (drop ?n rest) = i + length rest" using form_byte_le [OF False] by simp
    ultimately show ?thesis using 1(1) [OF False] False by (subst decode_form_from.simps) simp
  qed (use 1(2) in \<open>simp add: decode_form_from.simps\<close>)
qed

lemma xml_bytes_le: "rest \<noteq> [] \<Longrightarrow> snd (xml_bytes lib rest) \<le> length rest"
  by (cases rest) (auto simp: xml_bytes_def Let_def byte_position_Some split: option.split)

lemma decode_xml_ok: "dc_ok i i out \<Longrightarrow> dc_ok (i + length rest) (i + length rest) (decode_xml_from lib i rest out)"
proof (induction lib i rest out rule: decode_xml_from.induct)
  case (1 lib i rest out)
  show ?case
  proof (cases "rest = []")
    case False
    let ?n = "snd (xml_bytes lib rest)"
    let ?out = "fold (\<lambda>byte. dc_push byte (i, i + ?n)) (fst (xml_bytes lib rest)) out"
    have "dc_ok (i + ?n) (i + ?n) ?out"
      using dc_ok_push_all [OF 1(2), of i "i + ?n"] xml_bytes_pos [of lib rest] by (simp add: dc_ok_mono [of i "i + ?n"])
    moreover have "i + ?n + length (drop ?n rest) = i + length rest" using xml_bytes_le [OF False] by simp
    ultimately show ?thesis using 1(1) [OF False] False by (subst decode_xml_from.simps) simp
  qed (use 1(2) in \<open>simp add: decode_xml_from.simps\<close>)
qed

text \<open>
  What the code relies on of \<^verbatim>\<open>json_escape\<close>: the tokens are the content, in order, so that the raw lengths the code
  computes for them stay within it.
\<close>

fun tokens_end :: "string \<Rightarrow> (unit, UnescapedToken) result list \<Rightarrow> nat \<Rightarrow> nat" where
  "tokens_end content [] raw_cursor = raw_cursor"
| "tokens_end content (Inl _ # tokens) raw_cursor = raw_cursor"
| "tokens_end content (Inr (Literal l) # tokens) raw_cursor = tokens_end content tokens (raw_cursor + length l)"
| "tokens_end content (Inr (Unescaped ch) # tokens) raw_cursor = tokens_end content tokens (raw_cursor + escape_len content raw_cursor ch)"

definition json_tokens_law :: "rewrite_lib \<Rightarrow> bool" where
  "json_tokens_law lib \<longleftrightarrow> (\<forall>content. tokens_end content (rw_json_unescape lib content) 0 \<le> length content)"

lemma decode_json_tokens_ok:
  "dc_ok k k out \<Longrightarrow> decode_json_tokens content tokens k out = Some dc
     \<Longrightarrow> dc_ok (tokens_end content tokens k) (tokens_end content tokens k) dc"
proof (induction content tokens k out rule: decode_json_tokens.induct)
  case (3 content l tokens k out)
  then show ?case using dc_ok_push_literal [of k out l] by simp
next
  case (4 content ch tokens k out)
  let ?n = "escape_len content k ch"
  have "0 < ?n" by (simp add: escape_len_def)
  then have "dc_ok (k + ?n) (k + ?n) (fold (\<lambda>byte. dc_push byte (k, k + ?n)) ch out)"
    using dc_ok_push_all [OF 4(2), of k "k + ?n" ch] by (simp add: dc_ok_mono [of k "k + ?n"])
  then show ?case using 4 by (simp add: Let_def)
qed simp_all

lemma json_content_ok:
  assumes "json_tokens_law lib"
  shows "list_all (span_ok (length content)) (json_content_spans lib content has_escape secret)"
proof (cases "decode_json_content lib content")
  case (Some dc)
  have "dc_ok (tokens_end content (rw_json_unescape lib content) 0) (tokens_end content (rw_json_unescape lib content) 0) dc"
    using Some unfolding decode_json_content_def by (rule decode_json_tokens_ok [OF dc_ok_empty])
  then have "dc_ok (length content) (length content) dc" using assms by (auto simp: json_tokens_law_def elim: dc_ok_mono)
  then show ?thesis by (simp add: json_content_spans_def Some raw_span_ok word_bounded_ok)
qed (simp add: json_content_spans_def word_bounded_ok)

lemma form_content_ok: "list_all (span_ok (length content)) (form_content_spans content secret)"
  using raw_span_ok [OF decode_form_ok [OF dc_ok_empty, of content]]
  by (simp add: form_content_spans_def decode_form_content_def word_bounded_ok)

lemma xml_content_ok: "list_all (span_ok (length content)) (xml_content_spans lib content secret)"
  using raw_span_ok [OF decode_xml_ok [OF dc_ok_empty, of content lib]]
  by (simp add: xml_content_spans_def decode_xml_content_def word_bounded_ok)

lemma json_spans_ok:
  assumes "json_tokens_law lib"
  shows "list_all (span_ok (length body)) (json_spans_from lib body secret i)"
proof (induction "length body - i" arbitrary: i rule: less_induct)
  case less
  let ?e = "fst (json_literal body i)"
  let ?c = "take (?e - (i + 1)) (drop (i + 1) body)"
  have "list_all (span_ok (length body)) (map (shift_span (i + 1)) (json_content_spans lib ?c (snd (json_literal body i)) secret))"
    if "i < length body" "?e < length body"
    using json_content_ok [OF assms, of ?c "snd (json_literal body i)" secret] json_literal_gt [OF that(1)] that
    by (rule_tac shift_spans_ok) auto
  moreover have "list_all (span_ok (length body)) (json_spans_from lib body secret (i + 1))"
    "list_all (span_ok (length body)) (json_spans_from lib body secret (?e + 1))" if "i < length body"
    using less.hyps [of "i + 1"] less.hyps [of "?e + 1"] json_literal_gt [OF that] that by (auto intro: diff_less_mono2)
  ultimately show ?case by (subst json_spans_from.simps) simp
qed

lemma value_start_le: "(case byte_position c pair of None \<Rightarrow> 0 | Some p \<Rightarrow> p + 1) \<le> length pair"
  by (auto simp: byte_position_Some split: option.split)

lemma length_join_Cons: "pairs \<noteq> [] \<Longrightarrow> length (join_with c (pair # pairs)) = length pair + 1 + length (join_with c pairs)"
  by (cases pairs) auto

lemma form_pairs_ok:
  "offset + length (join_with (CHR 0x26) pairs) \<le> n \<Longrightarrow> list_all (span_ok n) (form_pair_spans secret offset pairs)"
proof (induction pairs arbitrary: offset)
  case (Cons pair pairs)
  let ?v = "case byte_position (CHR ''='') pair of None \<Rightarrow> 0 | Some p \<Rightarrow> p + 1"
  have v: "?v \<le> length pair" by (rule value_start_le)
  have "offset + length pair \<le> n" using Cons.prems by (cases "pairs = []") (simp_all add: length_join_Cons)
  then have "list_all (span_ok n) (map (shift_span (offset + ?v)) (form_content_spans (drop ?v pair) secret))"
    using v by (intro shift_spans_ok [OF form_content_ok]) simp
  moreover have "list_all (span_ok n) (form_pair_spans secret (offset + length pair + 1) pairs)"
    using Cons by (cases "pairs = []") (simp_all add: length_join_Cons)
  ultimately show ?case by (simp add: Let_def)
qed simp

lemma xml_attributes_ok: "i + length tag \<le> n \<Longrightarrow> list_all (span_ok n) (xml_attributes_from lib secret i tag)"
proof (induction lib secret i tag rule: xml_attributes_from.induct)
  case (2 lib secret i quote rest)
  have "list_all (span_ok n) (map (shift_span (i + 1)) (xml_content_spans lib (take e rest) secret))"
    if "byte_position quote rest = Some e" for e
    using 2(3) that by (intro shift_spans_ok [OF xml_content_ok]) (simp add: byte_position_Some)
  then show ?case using 2 by (auto simp: byte_position_Some split: option.split)
qed simp

lemma xml_spans_ok: "i + length rest \<le> n \<Longrightarrow> list_all (span_ok n) (xml_spans_from lib secret i rest)"
proof (induction "length rest" arbitrary: i rest rule: less_induct)
  case less
  have tag: "list_all (span_ok n) (find_xml_attribute_spans lib (take (e + 1) rest) secret i
      @ xml_spans_from lib secret (i + e + 1) (drop (e + 1) rest))" if "byte_position (CHR 0x3E) rest = Some e" for e
  proof -
    have e: "e < length rest" using that by (simp add: byte_position_Some)
    then have "list_all (span_ok n) (xml_spans_from lib secret (i + e + 1) (drop (e + 1) rest))"
      using less.prems by (intro less.hyps) auto
    then show ?thesis
      using e less.prems xml_attributes_ok [of i "take (e + 1) rest" n lib secret] by (simp add: find_xml_attribute_spans_def)
  qed
  let ?t = "xml_text_end rest"
  have "?t \<le> length rest" by (auto simp: xml_text_end_def byte_position_Some split: option.split)
  then have "list_all (span_ok n) (map (shift_span i) (xml_content_spans lib (take ?t rest) secret)
      @ xml_spans_from lib secret (i + ?t) (drop ?t rest))" if "rest \<noteq> []" "hd rest \<noteq> CHR 0x3C"
    using less.prems less.hyps [of "drop ?t rest" "i + ?t"] xml_text_end_pos [OF that] that(1)
      shift_spans_ok [OF xml_content_ok, of i "take ?t rest" n lib secret] by simp
  with tag show ?case by (subst xml_spans_from.simps) (auto split: option.split)
qed

lemma raw_spans_ok: "list_all (span_ok (length body)) (raw_spans body pattern)"
  by (auto simp: raw_spans_def list_all_iff)

lemma decoded_spans_ok:
  assumes "json_tokens_law lib"
  shows "list_all (span_ok (length body)) (find_decoded_secret_spans lib body content_type secret)"
proof (cases content_type)
  case FormEncoded
  then show ?thesis
    using form_pairs_ok [of 0 "split_on (CHR 0x26) body" "length body" secret]
    by (simp add: find_decoded_secret_spans_def find_form_value_spans_def join_split_on)
qed (simp_all add: find_decoded_secret_spans_def find_json_string_spans_def find_xml_text_spans_def json_spans_ok [OF assms]
      xml_spans_ok raw_spans_ok)

section \<open>Overlapping secrets\<close>

definition covered :: "MaskOp list \<Rightarrow> nat \<Rightarrow> bool" where
  "covered ops i \<longleftrightarrow> (\<exists>op \<in> set ops. in_span i (mask_range op))"

text \<open>Kept operations, the last one first: nonempty and one after the other.\<close>

fun ops_apart :: "MaskOp list \<Rightarrow> bool" where
  "ops_apart [] = True"
| "ops_apart [op] \<longleftrightarrow> fst (mask_range op) < snd (mask_range op)"
| "ops_apart (op # prev # ops) \<longleftrightarrow> fst (mask_range op) < snd (mask_range op) \<and> snd (mask_range prev) \<le> fst (mask_range op)
     \<and> ops_apart (prev # ops)"

text \<open>After a span that starts at \<open>m\<close> everything from \<open>m\<close> to the end of the last operation is covered.\<close>

definition kept_upto :: "nat \<Rightarrow> MaskOp list \<Rightarrow> bool" where
  "kept_upto m kept \<longleftrightarrow> ops_apart kept \<and> (\<forall>op. kept \<noteq> [] \<longrightarrow> op = hd kept \<longrightarrow> (\<forall>i. m \<le> i \<and> i < snd (mask_range op) \<longrightarrow> covered kept i))"

lemma keep_op_upto:
  assumes "kept_upto m kept" and "m \<le> fst (mask_range op)" and "fst (mask_range op) < snd (mask_range op)"
  shows "kept_upto (fst (mask_range op)) (keep_op op kept) \<and> (\<forall>i. covered (keep_op op kept) i \<longleftrightarrow> covered kept i \<or> in_span i (mask_range op))"
proof (cases kept)
  case Nil
  then show ?thesis using assms(3) by (simp add: keep_op_def kept_upto_def covered_def in_span_def)
next
  case (Cons prev earlier)
  have apart: "ops_apart (prev # earlier)" and upto: "\<And>i. m \<le> i \<Longrightarrow> i < snd (mask_range prev) \<Longrightarrow> covered (prev # earlier) i"
    using assms(1) Cons by (simp_all add: kept_upto_def)
  consider (new) "snd (mask_range prev) \<le> fst (mask_range op)"
    | (longer) "fst (mask_range op) < snd (mask_range prev)" "fst (mask_range op) = fst (mask_range prev)"
        "snd (mask_range op) > snd (mask_range prev)"
    | (tail) "fst (mask_range op) < snd (mask_range prev)" "fst (mask_range op) \<noteq> fst (mask_range prev)"
        "snd (mask_range op) > snd (mask_range prev)"
    | (inside) "fst (mask_range op) < snd (mask_range prev)" "snd (mask_range op) \<le> snd (mask_range prev)"
    by linarith
  then show ?thesis
  proof cases
    case new
    then have k: "keep_op op kept = op # prev # earlier" by (simp add: Cons keep_op_def)
    show ?thesis unfolding k using Cons assms(3) new apart by (auto simp: kept_upto_def covered_def in_span_def)
  next
    case longer
    then have k: "keep_op op kept = op # earlier" by (simp add: Cons keep_op_def)
    have "ops_apart (op # earlier)" using apart longer assms(3) by (cases earlier) simp_all
    then show ?thesis unfolding k using Cons longer by (auto simp: kept_upto_def covered_def in_span_def)
  next
    case tail
    let ?tail = "\<lparr>mask_range = (snd (mask_range prev), snd (mask_range op)), mask_placeholder = mask_placeholder op\<rparr>"
    have k: "keep_op op kept = ?tail # prev # earlier" using tail by (simp add: Cons keep_op_def)
    have cov: "covered (?tail # prev # earlier) i \<longleftrightarrow> covered (prev # earlier) i \<or> in_span i (mask_range op)" for i
      using upto [of i] tail assms(2) by (auto simp: covered_def in_span_def not_less)
    then show ?thesis unfolding k using Cons tail apart by (auto simp: kept_upto_def in_span_def)
  next
    case inside
    then have k: "keep_op op kept = prev # earlier" using assms(3) by (auto simp: Cons keep_op_def)
    show ?thesis unfolding k using Cons inside apart upto assms(2) by (auto simp: kept_upto_def in_span_def)
  qed
qed

lemma keep_ops:
  "sorted (map (\<lambda>op. fst (mask_range op)) ops) \<Longrightarrow> \<forall>op \<in> set ops. fst (mask_range op) < snd (mask_range op) \<and> m \<le> fst (mask_range op)
     \<Longrightarrow> kept_upto m kept
     \<Longrightarrow> ops_apart (fold keep_op ops kept) \<and> (\<forall>i. covered (fold keep_op ops kept) i \<longleftrightarrow> covered kept i \<or> covered ops i)"
proof (induction ops arbitrary: m kept)
  case (Cons op ops)
  let ?m = "fst (mask_range op)"
  have k: "kept_upto ?m (keep_op op kept)" "\<And>i. covered (keep_op op kept) i \<longleftrightarrow> covered kept i \<or> in_span i (mask_range op)"
    using keep_op_upto [OF Cons.prems(3), of op] Cons.prems(2) by auto
  have "covered (op # ops) i \<longleftrightarrow> in_span i (mask_range op) \<or> covered ops i" for i by (simp add: covered_def)
  then show ?case using Cons.IH [OF _ _ k(1)] Cons.prems(1,2) k(2) by auto
qed (simp add: kept_upto_def covered_def)

section \<open>What the substitution writes\<close>

text \<open>
  Replacements at ranges one after the other: at the start of a range the replacement, nothing at its other bytes,
  and the byte of the body everywhere else.
\<close>

fun apart_from :: "nat \<Rightarrow> nat \<Rightarrow> (range \<times> string) list \<Rightarrow> bool" where
  "apart_from n cursor [] \<longleftrightarrow> cursor \<le> n"
| "apart_from n cursor ((s, _) # ops) \<longleftrightarrow> cursor \<le> fst s \<and> fst s < snd s \<and> apart_from n (snd s) ops"

definition output_at :: "string \<Rightarrow> (range \<times> string) list \<Rightarrow> nat \<Rightarrow> string" where
  "output_at body ops i =
     (case find (\<lambda>(s, _). in_span i s) ops of
        None \<Rightarrow> [body ! i]
      | Some (s, replacement) \<Rightarrow> (if i = fst s then replacement else []))"

lemma apart_from_le: "apart_from n cursor ops \<Longrightarrow> cursor \<le> n"
  by (induction n cursor ops rule: apart_from.induct) auto

lemma apart_from_ge: "apart_from n cursor ops \<Longrightarrow> (s, r) \<in> set ops \<Longrightarrow> cursor \<le> fst s \<and> fst s < snd s \<and> snd s \<le> n"
  by (induction n cursor ops rule: apart_from.induct) (auto dest: apart_from_le)

lemma output_before:
  assumes "apart_from n cursor ops" and "i < cursor"
  shows "output_at body ops i = [body ! i]"
proof -
  have "find (\<lambda>(s, _). in_span i s) ops = None"
    using apart_from_ge [OF assms(1)] assms(2) by (fastforce simp: find_None_iff in_span_def)
  then show ?thesis by (simp add: output_at_def)
qed

lemma concat_literal: "b \<le> length body \<Longrightarrow> concat (map (\<lambda>i. [body ! i]) [a..<b]) = take (b - a) (drop a body)"
proof (induction b)
  case (Suc b)
  then show ?case by (cases "a \<le> b") (simp_all add: Suc_diff_le take_Suc_conv_app_nth)
qed simp

lemma substitute_output:
  "apart_from (length body) cursor ops
     \<Longrightarrow> substitute_ops body ops out cursor = Some (out @ concat (map (output_at body ops) [cursor..<length body]))"
proof (induction body ops out cursor rule: substitute_ops.induct)
  case (1 body out cursor)
  have "output_at body [] = (\<lambda>i. [body ! i])" by (simp add: fun_eq_iff output_at_def)
  then have "concat (map (output_at body []) [cursor..<length body]) = drop cursor body"
    using concat_literal [of "length body" body cursor] by simp
  then show ?case using 1 by (simp add: slice_def)
next
  case (2 body a b replacement ops out cursor)
  let ?all = "((a, b), replacement) # ops"
  have le: "cursor \<le> a" "a < b" "b \<le> length body" and rest: "apart_from (length body) b ops"
    using 2(2) apart_from_le [of "length body" b ops] by auto
  have "output_at body ?all i = [body ! i]" if "i < a" for i
    using output_before [OF 2(2), of i] output_before [OF rest, of i body] le that by (simp add: output_at_def in_span_def)
  then have "concat (map (output_at body ?all) [cursor..<a]) = concat (map (\<lambda>i. [body ! i]) [cursor..<a])"
    by (intro arg_cong [where f = concat] map_cong) auto
  then have before: "concat (map (output_at body ?all) [cursor..<a]) = take (a - cursor) (drop cursor body)"
    using concat_literal [of a body cursor] le by simp
  have "concat (map (output_at body ?all) [a..<b]) = replacement"
  proof -
    have "map (output_at body ?all) [Suc a..<b] = map (\<lambda>_. []) [Suc a..<b]"
      by (auto simp: output_at_def in_span_def)
    then show ?thesis using le(2) by (subst upt_conv_Cons) (simp_all add: output_at_def in_span_def)
  qed
  moreover have "concat (map (output_at body ?all) [b..<length body]) = concat (map (output_at body ops) [b..<length body])"
    by (intro arg_cong [where f = concat] map_cong) (auto simp: output_at_def in_span_def)
  moreover have "[cursor..<length body] = [cursor..<a] @ [a..<b] @ [b..<length body]"
    using le upt_add_eq_append [of cursor a "length body - a"] upt_add_eq_append [of a b "length body - b"] by simp
  ultimately show ?case using 2(1) [OF _ rest] le before by (simp add: slice_def)
qed

section \<open>Masking\<close>

lemma apart_from_snoc:
  "apart_from m cursor ops \<Longrightarrow> m \<le> fst s \<Longrightarrow> fst s < snd s \<Longrightarrow> snd s \<le> n \<Longrightarrow> apart_from n cursor (ops @ [(s, r)])"
  by (induction m cursor ops rule: apart_from.induct) auto

lemma ops_apart_nonempty: "ops_apart ops \<Longrightarrow> op \<in> set ops \<Longrightarrow> fst (mask_range op) < snd (mask_range op)"
  by (induction ops rule: ops_apart.induct) auto

lemma ops_apart_top: "ops_apart (prev # kept) \<Longrightarrow> op \<in> set (prev # kept) \<Longrightarrow> snd (mask_range op) \<le> snd (mask_range prev)"
proof (induction kept arbitrary: prev)
  case (Cons p kept)
  have "snd (mask_range op) \<le> snd (mask_range p)" if "op \<noteq> prev" using Cons that by (intro Cons.IH) auto
  then show ?case using Cons.prems by (cases "op = prev") auto
qed simp

lemma apart_rev:
  "ops_apart kept \<Longrightarrow> (\<And>op. op \<in> set kept \<Longrightarrow> snd (mask_range op) \<le> n)
     \<Longrightarrow> apart_from n 0 (map (\<lambda>op. (mask_range op, mask_placeholder op)) (rev kept))"
proof (induction kept arbitrary: n rule: ops_apart.induct)
  case (2 op)
  then show ?case by (cases op) simp
next
  case (3 op prev kept)
  have "apart_from (snd (mask_range prev)) 0 (map (\<lambda>op. (mask_range op, mask_placeholder op)) (rev (prev # kept)))"
    using 3(2) ops_apart_top [of prev kept] by (intro 3(1)) auto
  then show ?case
    using apart_from_snoc [of "snd (mask_range prev)" 0 _ "mask_range op" n "mask_placeholder op"] 3(2,3)
    by (simp del: append_assoc add: append_assoc [symmetric])
qed simp

lemma keep_op_placeholder:
  "mask_placeholder ` set (keep_op op kept) \<subseteq> insert (mask_placeholder op) (mask_placeholder ` set kept)"
  by (cases kept) (auto simp: keep_op_def)

lemma keep_ops_placeholder: "mask_placeholder ` set (fold keep_op ops kept) \<subseteq> mask_placeholder ` (set ops \<union> set kept)"
proof (induction ops arbitrary: kept)
  case (Cons op ops)
  have "mask_placeholder ` set (fold keep_op (op # ops) kept) \<subseteq> mask_placeholder ` (set ops \<union> set (keep_op op kept))"
    using Cons.IH by simp
  then show ?case using keep_op_placeholder [of op kept] unfolding image_Un by simp blast
qed simp

text \<open>A byte of the body that belongs to an echo of a secret of maskable length.\<close>

definition secret_byte :: "rewrite_lib \<Rightarrow> SidecarSecretStore \<Rightarrow> string \<Rightarrow> ContentType \<Rightarrow> nat \<Rightarrow> bool" where
  "secret_byte lib store body ct i \<longleftrightarrow>
     list_ex (\<lambda>(_, secret). MIN_MASKABLE_SECRET_LEN \<le> length secret
       \<and> list_ex (in_span i) (find_decoded_secret_spans lib body ct secret)) (by_placeholder store)"

lemma covered_candidates: "covered (candidate_ops lib store body ct) i \<longleftrightarrow> secret_byte lib store body ct i"
  by (fastforce simp: covered_def candidate_ops_def secret_byte_def list_ex_iff)

lemma mask_ops_facts:
  fixes store :: SidecarSecretStore and body :: string and ct :: ContentType
  assumes "json_tokens_law lib"
  defines "ops \<equiv> map (\<lambda>op. (mask_range op, mask_placeholder op)) (mask_ops lib store body ct)"
  shows "apart_from (length body) 0 ops"
    and "(\<exists>e \<in> set ops. in_span i (fst e)) \<longleftrightarrow> secret_byte lib store body ct i"
    and "e \<in> set ops \<Longrightarrow> snd e \<in> fst ` set (by_placeholder store)"
proof -
  let ?c = "candidate_ops lib store body ct" and ?start = "\<lambda>op. fst (mask_range op)"
  let ?k = "fold keep_op (sort_key ?start ?c) []"
  have spans: "span_ok (length body) (mask_range op)" if "op \<in> set ?c" for op
    using that decoded_spans_ok [OF assms(1)] by (fastforce simp: candidate_ops_def list_all_iff)
  have k: "ops_apart ?k" "\<And>i. covered ?k i \<longleftrightarrow> secret_byte lib store body ct i"
    using keep_ops [of "sort_key ?start ?c" 0 "[]"] spans
    by (auto simp: kept_upto_def span_ok_def covered_candidates [symmetric]) (auto simp: covered_def)
  have nonempty: "fst (mask_range op) < snd (mask_range op)" if "op \<in> set ?k" for op
    using k(1) that by (rule ops_apart_nonempty)
  show "apart_from (length body) 0 ops"
    unfolding ops_def mask_ops_def
  proof (rule apart_rev [OF k(1)])
    fix op assume op: "op \<in> set ?k"
    then have "covered ?k (snd (mask_range op) - 1)" using nonempty [OF op] unfolding covered_def by (intro bexI [OF _ op]) (auto simp: in_span_def)
    then have "covered ?c (snd (mask_range op) - 1)" using k(2) by (simp add: covered_candidates)
    then show "snd (mask_range op) \<le> length body" using spans by (fastforce simp: covered_def in_span_def span_ok_def)
  qed
  show "(\<exists>e \<in> set ops. in_span i (fst e)) \<longleftrightarrow> secret_byte lib store body ct i"
    using k(2) [of i] by (simp add: ops_def mask_ops_def covered_def)
  have "mask_placeholder ` set ?k \<subseteq> mask_placeholder ` set ?c"
    using keep_ops_placeholder [of "sort_key ?start ?c" "[]"] by simp
  moreover have "mask_placeholder ` set ?c \<subseteq> fst ` set (by_placeholder store)"
    by (force simp: candidate_ops_def)
  ultimately have "mask_placeholder ` set ?k \<subseteq> fst ` set (by_placeholder store)" by (rule subset_trans)
  then show "snd e \<in> fst ` set (by_placeholder store)" if "e \<in> set ops"
    using that unfolding ops_def mask_ops_def by (simp add: image_subset_iff image_iff) (metis snd_conv)
qed


section \<open>Rehydration\<close>

text \<open>
  What the code relies on of placeholders: a token that parses is its own canonical spelling, the prefix followed by
  exactly \<^verbatim>\<open>PLACEHOLDER_SUFFIX_LEN\<close> letters and digits.
\<close>

definition TOKEN_LEN :: nat where "TOKEN_LEN = length PLACEHOLDER_PREFIX + PLACEHOLDER_SUFFIX_LEN"

definition placeholder_law :: "rewrite_lib \<Rightarrow> bool" where
  "placeholder_law lib \<longleftrightarrow> (\<forall>t p. rw_placeholder lib t = Some p \<longrightarrow>
     p = t \<and> length t = TOKEN_LEN \<and> prefix PLACEHOLDER_PREFIX t \<and> list_all is_ascii_alphanumeric (drop (length PLACEHOLDER_PREFIX) t))"

text \<open>
  The documented behaviour of the automaton: leftmost matches that do not overlap, the longest one at each place, and the
  first pattern among equals.
\<close>

fun longest_at :: "string list \<Rightarrow> nat \<Rightarrow> string \<Rightarrow> (nat \<times> string) option" where
  "longest_at [] k rest = None"
| "longest_at (p # ps) k rest =
     (case longest_at ps (k + 1) rest of
        None \<Rightarrow> (if prefix p rest then Some (k, p) else None)
      | Some (j, q) \<Rightarrow> (if prefix p rest \<and> length q \<le> length p then Some (k, p) else Some (j, q)))"

lemma longest_at_prefix: "longest_at ps k rest = Some (j, q) \<Longrightarrow> q \<in> set ps \<and> prefix q rest"
  by (induction ps k rest arbitrary: j q rule: longest_at.induct) (auto split: option.splits if_splits)

function leftmost_from :: "string list \<Rightarrow> nat \<Rightarrow> string \<Rightarrow> (nat \<times> range) list" where
  "leftmost_from ps i rest =
     (if rest = [] then []
      else case longest_at ps 0 rest of
        None \<Rightarrow> leftmost_from ps (i + 1) (tl rest)
      | Some (k, p) \<Rightarrow>
          (k, (i, i + length p)) # (if p = [] then [] else leftmost_from ps (i + length p) (drop (length p) rest)))"
  by pat_completeness auto
termination by (relation "measure (\<lambda>(_, _, rest). length rest)") auto

declare leftmost_from.simps [simp del]

definition find_iter_law :: "rewrite_lib \<Rightarrow> bool" where
  "find_iter_law lib \<longleftrightarrow> (\<forall>ps haystack. [] \<notin> set ps \<longrightarrow> rw_find_iter lib ps haystack = leftmost_from ps 0 haystack)"

text \<open>The tokens of a body, from the left, with their ranges; and the body with each token replaced.\<close>

definition token_at :: "rewrite_lib \<Rightarrow> string \<Rightarrow> bool" where
  "token_at lib rest \<longleftrightarrow> rw_placeholder lib (take TOKEN_LEN rest) \<noteq> None"

function tokens_from :: "rewrite_lib \<Rightarrow> nat \<Rightarrow> string \<Rightarrow> (string \<times> range) list" where
  "tokens_from lib i rest =
     (if rest = [] then []
      else if token_at lib rest
      then (take TOKEN_LEN rest, (i, i + TOKEN_LEN)) # tokens_from lib (i + TOKEN_LEN) (drop TOKEN_LEN rest)
      else tokens_from lib (i + 1) (tl rest))"
  by pat_completeness auto
termination
  by (relation "measure (\<lambda>(_, _, rest). length rest)") (auto simp: TOKEN_LEN_def PLACEHOLDER_PREFIX_def)

declare tokens_from.simps [simp del]

function replace_tokens :: "rewrite_lib \<Rightarrow> (string \<Rightarrow> string) \<Rightarrow> string \<Rightarrow> string" where
  "replace_tokens lib f rest =
     (if rest = [] then []
      else if token_at lib rest then f (take TOKEN_LEN rest) @ replace_tokens lib f (drop TOKEN_LEN rest)
      else hd rest # replace_tokens lib f (tl rest))"
  by pat_completeness auto
termination
  by (relation "measure (\<lambda>(_, _, rest). length rest)") (auto simp: TOKEN_LEN_def PLACEHOLDER_PREFIX_def)

declare replace_tokens.simps [simp del]

lemma token_len_pos: "0 < TOKEN_LEN"
  by (simp add: TOKEN_LEN_def PLACEHOLDER_PREFIX_def)

lemma token_at_facts:
  assumes "placeholder_law lib" and "token_at lib rest"
  shows "rw_placeholder lib (take TOKEN_LEN rest) = Some (take TOKEN_LEN rest)" and "TOKEN_LEN \<le> length rest"
    and "prefix PLACEHOLDER_PREFIX rest"
    and "list_all is_ascii_alphanumeric (take PLACEHOLDER_SUFFIX_LEN (drop (length PLACEHOLDER_PREFIX) rest))"
proof -
  let ?t = "take TOKEN_LEN rest"
  obtain p where p: "rw_placeholder lib ?t = Some p" using assms(2) by (auto simp: token_at_def)
  then have f: "p = ?t" "length ?t = TOKEN_LEN" "prefix PLACEHOLDER_PREFIX ?t"
    "list_all is_ascii_alphanumeric (drop (length PLACEHOLDER_PREFIX) ?t)"
    using assms(1) unfolding placeholder_law_def by blast+
  show "rw_placeholder lib ?t = Some ?t" using p f(1) by simp
  show "TOKEN_LEN \<le> length rest" using f(2) by simp
  show "prefix PLACEHOLDER_PREFIX rest" using f(3) take_is_prefix by (rule prefix_order.trans)
  show "list_all is_ascii_alphanumeric (take PLACEHOLDER_SUFFIX_LEN (drop (length PLACEHOLDER_PREFIX) rest))"
    using f(4) by (simp add: TOKEN_LEN_def drop_take)
qed

lemma substitute_tokens:
  assumes "placeholder_law lib"
  shows "i + length rest = length body \<Longrightarrow> drop i body = rest \<Longrightarrow> cursor \<le> i
    \<Longrightarrow> substitute_ops body (map (\<lambda>(t, s). (s, f t)) (tokens_from lib i rest)) out cursor
      = Some (out @ take (i - cursor) (drop cursor body) @ replace_tokens lib f rest)"
proof (induction "length rest" arbitrary: i rest out cursor rule: less_induct)
  case less
  consider (nil) "rest = []" | (token) "rest \<noteq> []" "token_at lib rest" | (other) "rest \<noteq> []" "\<not> token_at lib rest" by blast
  then show ?case
  proof cases
    case nil
    then show ?thesis using less.prems by (simp add: tokens_from.simps replace_tokens.simps slice_def)
  next
    case token
    let ?out = "out @ take (i - cursor) (drop cursor body) @ f (take TOKEN_LEN rest)"
    have le: "TOKEN_LEN \<le> length rest" using token_at_facts(2) [OF assms token(2)] .
    have "substitute_ops body (map (\<lambda>(t, s). (s, f t)) (tokens_from lib (i + TOKEN_LEN) (drop TOKEN_LEN rest))) ?out (i + TOKEN_LEN)
        = Some (?out @ replace_tokens lib f (drop TOKEN_LEN rest))"
      using less.hyps [of "drop TOKEN_LEN rest" "i + TOKEN_LEN" "i + TOKEN_LEN" ?out] le less.prems token(1) token_len_pos
      by (simp add: add.commute [of i] flip: drop_drop)
    then show ?thesis
      using token less.prems by (subst tokens_from.simps, subst replace_tokens.simps) (simp add: slice_def)
  next
    case other
    have "rest = body ! i # drop (Suc i) body"
      using less.prems other(1) by (metis Cons_nth_drop_Suc drop_eq_Nil not_le)
    then have r: "hd rest = body ! i" "tl rest = drop (i + 1) body" by simp_all
    have "i < length body" using less.prems(1) other(1) by (cases rest) auto
    then have "take (i + 1 - cursor) (drop cursor body) = take (i - cursor) (drop cursor body) @ [body ! i]"
      using less.prems(3) by (simp add: Suc_diff_le take_Suc_conv_app_nth)
    moreover have "substitute_ops body (map (\<lambda>(t, s). (s, f t)) (tokens_from lib (i + 1) (tl rest))) out cursor
        = Some (out @ take (i + 1 - cursor) (drop cursor body) @ replace_tokens lib f (tl rest))"
      using less.prems other(1) r(2) by (intro less.hyps) auto
    ultimately show ?thesis using other r(1) by (subst tokens_from.simps, subst replace_tokens.simps) simp
  qed
qed

lemma longest_at_nth: "longest_at ps k rest = Some (j, q) \<Longrightarrow> k \<le> j \<and> j < k + length ps \<and> ps ! (j - k) = q"
proof (induction ps k rest arbitrary: j q rule: longest_at.induct)
  case (2 p ps k rest)
  show ?case
  proof (cases "longest_at ps (k + 1) rest")
    case (Some e)
    obtain j' q' where e: "e = (j', q')" by (cases e)
    have "k + 1 \<le> j' \<and> j' < k + 1 + length ps \<and> ps ! (j' - (k + 1)) = q'" using 2(1) [of j' q'] Some e by simp
    then show ?thesis using 2(2) Some e by (auto simp: nth_Cons' split: if_splits)
  qed (use 2(2) in \<open>auto split: if_splits\<close>)
qed simp

lemma longest_at_None: "longest_at ps k rest = None \<longleftrightarrow> (\<forall>p \<in> set ps. \<not> prefix p rest)"
  by (induction ps k rest rule: longest_at.induct) (auto split: option.splits if_splits)

lemma leftmost_tokens:
  assumes "placeholder_law lib" and ps: "\<forall>p \<in> set ps. rw_placeholder lib p \<noteq> None"
  shows "fst ` set (tokens_from lib i rest) \<subseteq> set ps
    \<Longrightarrow> map (\<lambda>(k, s). (ps ! k, s)) (leftmost_from ps i rest) = tokens_from lib i rest
      \<and> (\<forall>e \<in> set (leftmost_from ps i rest). fst e < length ps)"
proof (induction "length rest" arbitrary: i rest rule: less_induct)
  case less
  have len: "length p = TOKEN_LEN" if "p \<in> set ps" for p using assms that unfolding placeholder_law_def by blast
  consider (nil) "rest = []" | (token) "rest \<noteq> []" "token_at lib rest" | (other) "rest \<noteq> []" "\<not> token_at lib rest" by blast
  then show ?case
  proof cases
    case nil
    then show ?thesis by (simp add: leftmost_from.simps tokens_from.simps)
  next
    case token
    let ?t = "take TOKEN_LEN rest" and ?r = "drop TOKEN_LEN rest"
    have toks: "tokens_from lib i rest = (?t, (i, i + TOKEN_LEN)) # tokens_from lib (i + TOKEN_LEN) ?r"
      using token by (simp add: tokens_from.simps)
    have "?t \<in> set ps" using less.prems unfolding toks by simp
    then have "longest_at ps 0 rest \<noteq> None" unfolding longest_at_None using take_is_prefix by blast
    then obtain j q where q: "longest_at ps 0 rest = Some (j, q)" by auto
    have "q \<in> set ps" "prefix q rest" "j < length ps" "ps ! j = q"
      using longest_at_prefix [OF q] longest_at_nth [OF q] by auto
    then have *: "q = ?t" "ps ! j = ?t" "j < length ps" "length q = TOKEN_LEN" using len by (auto simp: prefix_def)
    have "length ?r < length rest" using token(1) token_len_pos by simp
    then have "map (\<lambda>(k, s). (ps ! k, s)) (leftmost_from ps (i + TOKEN_LEN) ?r) = tokens_from lib (i + TOKEN_LEN) ?r
        \<and> (\<forall>e \<in> set (leftmost_from ps (i + TOKEN_LEN) ?r). fst e < length ps)"
      using less.prems unfolding toks by (intro less.hyps) auto
    moreover have "q \<noteq> []" using *(4) token_len_pos by auto
    then have "leftmost_from ps i rest = (j, (i, i + TOKEN_LEN)) # leftmost_from ps (i + TOKEN_LEN) ?r"
      using q *(4) token(1) by (simp add: leftmost_from.simps [of ps i rest])
    ultimately show ?thesis using *(2,3) toks by simp
  next
    case other
    have "longest_at ps 0 rest = None"
      unfolding longest_at_None using other(2) len ps by (fastforce simp: token_at_def prefix_def)
    moreover have "map (\<lambda>(k, s). (ps ! k, s)) (leftmost_from ps (i + 1) (tl rest)) = tokens_from lib (i + 1) (tl rest)
        \<and> (\<forall>e \<in> set (leftmost_from ps (i + 1) (tl rest)). fst e < length ps)"
      using less.prems other by (intro less.hyps) (auto simp: tokens_from.simps [of lib i rest])
    ultimately show ?thesis using other by (simp add: leftmost_from.simps [of ps i rest] tokens_from.simps [of lib i rest])
  qed
qed

lemma ascii_utf8: "list_all (\<lambda>c. byte_val c < 128) s \<Longrightarrow> from_utf8_ok s"
  by (induction s) (simp_all add: from_utf8_ok_def)

lemma find_map_None: "find_map f xs = None \<longleftrightarrow> (\<forall>x \<in> set xs. f x = None)"
  by (induction xs) (auto split: option.splits)

lemma token_utf8:
  assumes "placeholder_law lib" and "token_at lib rest"
  shows "from_utf8_ok (take TOKEN_LEN rest)"
proof (rule ascii_utf8)
  have "take TOKEN_LEN rest = PLACEHOLDER_PREFIX @ take PLACEHOLDER_SUFFIX_LEN (drop (length PLACEHOLDER_PREFIX) rest)"
    using token_at_facts(3) [OF assms] by (auto simp: TOKEN_LEN_def prefix_def)
  moreover have "list_all (\<lambda>c. byte_val c < 128) PLACEHOLDER_PREFIX" by (simp add: PLACEHOLDER_PREFIX_def byte_val_def)
  moreover have "is_ascii_alphanumeric c \<Longrightarrow> byte_val c < 128" for c
    by (auto simp: is_ascii_alphanumeric_def is_ascii_digit_def is_ascii_upper_def is_ascii_lower_def)
  ultimately show "list_all (\<lambda>c. byte_val c < 128) (take TOKEN_LEN rest)"
    using token_at_facts(4) [OF assms] by (auto simp: list_all_iff)
qed

lemma alnum_run:
  assumes "list_all P (take n xs)" and "n \<le> length xs"
  shows "n \<le> length (takeWhile P xs)"
  using assms by (induction xs arbitrary: n) (auto simp: take_Cons' split: if_splits, fastforce)

lemma placeholder_at_token:
  assumes "placeholder_law lib"
  shows "placeholder_at lib body i = (if token_at lib (drop i body) then Some (take TOKEN_LEN (drop i body), i + TOKEN_LEN) else None)"
proof -
  let ?start = "i + length PLACEHOLDER_PREFIX"
  let ?run = "?start + length (takeWhile is_ascii_alphanumeric (drop ?start body))"
  let ?max = "min ?run (?start + PLACEHOLDER_SUFFIX_LEN)"
  let ?f = "\<lambda>e. let token = take (e - i) (drop i body)
    in if from_utf8_ok token then map_option (\<lambda>p. (p, e)) (rw_placeholder lib token) else None"
  have at_eq: "placeholder_at lib body i = find_map ?f (rev [?start..<?max + 1])"
    by (simp only: placeholder_at_def Let_def)
  have none: "?f e = None" if "e \<le> ?max" "\<not> (token_at lib (drop i body) \<and> e = i + TOKEN_LEN)" for e
  proof (cases "rw_placeholder lib (take (e - i) (drop i body))")
    case (Some p)
    then have "length (take (e - i) (drop i body)) = TOKEN_LEN" using assms unfolding placeholder_law_def by blast
    then have "e - i = TOKEN_LEN" using that(1) by (auto simp: TOKEN_LEN_def)
    then show ?thesis using Some that(2) token_len_pos by (auto simp: token_at_def)
  qed (simp add: Let_def)
  show ?thesis
  proof (cases "token_at lib (drop i body)")
    case True
    note t = token_at_facts [OF assms True]
    have "PLACEHOLDER_SUFFIX_LEN \<le> length (takeWhile is_ascii_alphanumeric (drop ?start body))"
      using t(2,4) by (intro alnum_run) (simp_all add: TOKEN_LEN_def add.commute)
    then have "?max = i + TOKEN_LEN" by (simp add: TOKEN_LEN_def)
    then have "rev [?start..<?max + 1] = (i + TOKEN_LEN) # rev [?start..<i + TOKEN_LEN]" by (simp add: TOKEN_LEN_def)
    moreover have "?f (i + TOKEN_LEN) = Some (take TOKEN_LEN (drop i body), i + TOKEN_LEN)"
      using t(1) token_utf8 [OF assms True] by simp
    ultimately show ?thesis unfolding at_eq using True by (simp only: find_map.simps option.case if_True)
  next
    case False
    then have "find_map ?f (rev [?start..<?max + 1]) = None" unfolding find_map_None using none by simp
    then show ?thesis unfolding at_eq using False by simp
  qed
qed

definition add_new :: "string \<Rightarrow> string list \<Rightarrow> string list" where
  "add_new t result = (if t \<in> set result then result else result @ [t])"

lemma tokens_short:
  assumes "placeholder_law lib"
  shows "length rest < TOKEN_LEN \<Longrightarrow> tokens_from lib i rest = []"
proof (induction "length rest" arbitrary: i rest rule: less_induct)
  case less
  then show ?case using token_at_facts(2) [OF assms, of rest] by (cases "rest = []") (auto simp: tokens_from.simps [of lib i rest] tokens_from.simps [of lib i "[]"])
qed

lemma collect_tokens:
  assumes "placeholder_law lib"
  shows "collect_from lib body i result = fold add_new (map fst (tokens_from lib i (drop i body))) result"
proof (induction "length body - i" arbitrary: i result rule: less_induct)
  case less
  show ?case
  proof (cases "i + length PLACEHOLDER_PREFIX \<le> length body")
    case False
    then have "length (drop i body) < TOKEN_LEN" by (simp add: TOKEN_LEN_def PLACEHOLDER_PREFIX_def)
    then show ?thesis using False tokens_short [OF assms] by (subst collect_from.simps) simp
  next
    case True
    then have i: "i < length body" by (simp add: PLACEHOLDER_PREFIX_def)
    have tl: "tl (drop i body) = drop (i + 1) body" by (simp add: drop_Suc tl_drop)
    show ?thesis
    proof (cases "token_at lib (drop i body)")
      case tok: True
      have "collect_from lib body (i + TOKEN_LEN) r = fold add_new (map fst (tokens_from lib (i + TOKEN_LEN) (drop (i + TOKEN_LEN) body))) r" for r
        using i token_len_pos by (intro less.hyps) simp
      then show ?thesis
        using True tok token_at_facts(3) [OF assms tok] i
        by (subst collect_from.simps, subst tokens_from.simps)
          (simp add: placeholder_at_token [OF assms] add_new_def add.commute)
    next
      case no: False
      have "collect_from lib body (i + 1) r = fold add_new (map fst (tokens_from lib (i + 1) (drop (i + 1) body))) r" for r
        using i by (intro less.hyps) simp
      then show ?thesis
        using True no i tl by (subst collect_from.simps, subst tokens_from.simps) (simp add: placeholder_at_token [OF assms])
    qed
  qed
qed

lemma set_add_new: "set (fold add_new ts result) = set result \<union> set ts"
  by (induction ts arbitrary: result) (auto simp: add_new_def)

lemma distinct_add_new: "distinct result \<Longrightarrow> distinct (fold add_new ts result)"
  by (induction ts arbitrary: result) (auto simp: add_new_def)

lemma collected:
  assumes "placeholder_law lib"
  shows "set (collect_placeholders lib body) = fst ` set (tokens_from lib 0 body)" and "distinct (collect_placeholders lib body)"
  using collect_tokens [OF assms, of body 0 "[]"] by (simp_all add: collect_placeholders_def set_add_new distinct_add_new)

lemma tokens_parse:
  assumes "placeholder_law lib"
  shows "t \<in> fst ` set (tokens_from lib i rest) \<Longrightarrow> rw_placeholder lib t \<noteq> None"
proof (induction "length rest" arbitrary: i rest rule: less_induct)
  case less
  show ?case
  proof (cases "rest \<noteq> [] \<and> token_at lib rest \<and> t = take TOKEN_LEN rest")
    case True
    then show ?thesis by (simp add: token_at_def)
  next
    case False
    then show ?thesis
      using less.prems less.hyps [of "drop TOKEN_LEN rest" "i + TOKEN_LEN"] less.hyps [of "tl rest" "i + 1"] token_len_pos
      by (auto simp: tokens_from.simps [of lib i rest] split: if_splits)
  qed
qed

text \<open>The loop that fills the store with what the gateway answered, as \<^verbatim>\<open>rehydrate_request\<close> runs it.\<close>

fun store_from ::
  "(string list \<Rightarrow> string option) \<Rightarrow> (string \<times> string) list \<Rightarrow> SidecarSecretStore \<Rightarrow> (string, SidecarSecretStore) result" where
  "store_from build [] store = Ok store"
| "store_from build ((placeholder, secret) # entries) store =
     (case SidecarSecretStore_insert build placeholder secret store of
        (Inl e, _) \<Rightarrow> Err (''secret gateway: failed to build store entry for '' @ placeholder @ '': '' @ e)
      | (Inr _, store') \<Rightarrow> store_from build entries store')"

lemma map_of_btree: "map_of (btree_insert k v m) = (map_of m)(k \<mapsto> v)"
  by (induction k v m rule: btree_insert.induct) (auto simp: fun_eq_iff)

lemma btree_insert_not_Nil [simp]: "btree_insert k v m \<noteq> []"
  by (cases m) (auto split: if_splits)

text \<open>A store whose matcher is the one of its entries.\<close>

definition store_ok :: "SidecarSecretStore \<Rightarrow> bool" where
  "store_ok store \<longleftrightarrow> mp_placeholders (ss_rehydrate store) = map fst (by_placeholder store)
     \<and> mp_matcher (ss_rehydrate store) = (if by_placeholder store = [] then None else Some (map fst (by_placeholder store)))"

lemma store_from_Ok:
  "store_from build entries store = Ok store' \<Longrightarrow> store_ok store
     \<Longrightarrow> store_ok store' \<and> map_of (by_placeholder store') = map_of (rev entries @ by_placeholder store)"
proof (induction build entries store rule: store_from.induct)
  case (2 build placeholder secret entries store)
  obtain r next_store where i: "SidecarSecretStore_insert build placeholder secret store = (r, next_store)" by fastforce
  then have "by_placeholder next_store = btree_insert placeholder secret (by_placeholder store)"
    by (auto simp: SidecarSecretStore_insert_def rebuild_matchers_def split: prod.splits)
  moreover have "store_ok next_store" if "r = Inr ()"
    using i that by (auto simp: SidecarSecretStore_insert_def rebuild_matchers_def matcher_rebuild_def store_ok_def comp_def
        split: prod.splits option.splits)
  ultimately show ?case using 2 i by (cases r) (auto simp: map_of_btree map_add_def fun_eq_iff split: option.split)
qed (simp add: store_ok_def)

lemma rehydrate_ops_tokens:
  assumes "placeholder_law lib" and "find_iter_law lib" and "store_ok store"
    and "set (map fst (by_placeholder store)) = fst ` set (tokens_from lib 0 body)"
  shows "rehydrate_ops lib store body =
    map (\<lambda>(t, s). \<lparr>ro_range = s, ro_secret = the (map_of (by_placeholder store) t)\<rparr>) (tokens_from lib 0 body)"
proof (cases "by_placeholder store = []")
  case True
  then show ?thesis using assms(3,4) by (simp add: rehydrate_ops_def find_ops_def store_ok_def)
next
  case False
  let ?ps = "map fst (by_placeholder store)"
  have valid: "\<forall>p \<in> set ?ps. rw_placeholder lib p \<noteq> None" using tokens_parse [OF assms(1)] assms(4) by simp
  then have "[] \<notin> set ?ps" using assms(1) token_len_pos unfolding placeholder_law_def by fastforce
  then have iter: "rw_find_iter lib ?ps body = leftmost_from ?ps 0 body" using assms(2) by (simp add: find_iter_law_def)
  have toks: "map (\<lambda>(k, s). (?ps ! k, s)) (leftmost_from ?ps 0 body) = tokens_from lib 0 body"
    and lt: "\<forall>e \<in> set (leftmost_from ?ps 0 body). fst e < length ?ps"
    using leftmost_tokens [OF assms(1) valid, of 0 body] assms(4) by auto
  have look: "\<exists>secret. map_of (by_placeholder store) (fst (by_placeholder store ! k)) = Some secret"
    if "k < length (by_placeholder store)" for k
    using that nth_mem [of k "by_placeholder store"] by (cases "by_placeholder store ! k") (auto dest: weak_map_of_SomeI)
  have "List.map_filter (\<lambda>(k, s). if k < length ?ps
        then map_option (\<lambda>secret. \<lparr>ro_range = s, ro_secret = secret\<rparr>) (map_of (by_placeholder store) (?ps ! k)) else None) xs
      = map (\<lambda>(k, s). \<lparr>ro_range = s, ro_secret = the (map_of (by_placeholder store) (?ps ! k))\<rparr>) xs"
    if "\<forall>e \<in> set xs. fst e < length ?ps" for xs :: "(nat \<times> range) list"
    using that look by (induction xs) (auto simp: map_filter_simps split: option.splits)
  note filter_eq = this [OF lt]
  have matcher: "mp_matcher (ss_rehydrate store) = Some ?ps" "mp_placeholders (ss_rehydrate store) = ?ps"
    using assms(3) False by (simp_all add: store_ok_def)
  show ?thesis
    unfolding rehydrate_ops_def find_ops_def matcher option.case iter filter_eq toks [symmetric]
    by (simp add: comp_def case_prod_unfold)
qed

text \<open>
  C16. Rehydration is complete. When the gateway answered for every placeholder the scan of a body collected, in the order it
  collected them, the rehydrated body is the body with every placeholder token in it replaced by its own secret in the
  encoding of the content type, none left literal and nothing else changed, and the rewriting does not panic.
\<close>

theorem rehydration_exact:
  assumes "placeholder_law lib" and "find_iter_law lib"
    and "length secrets = length (collect_placeholders lib body)"
    and "store_from build (zip (collect_placeholders lib body) secrets) SidecarSecretStore_new = Ok store"
  shows "rehydrate_body lib body ct (rehydrate_ops lib store body)
    = Some (replace_tokens lib (\<lambda>t. encode_secret lib (the (map_of (zip (collect_placeholders lib body) secrets) t)) ct) body)"
proof -
  let ?entries = "zip (collect_placeholders lib body) secrets"
  have "store_ok SidecarSecretStore_new" by (simp add: store_ok_def SidecarSecretStore_new_def)
  note st = store_from_Ok [OF assms(4) this]
  have "distinct (map fst ?entries)" using collected(2) [OF assms(1)] assms(3) by simp
  then have m: "map_of (by_placeholder store) = map_of ?entries"
    using st map_of_inject_set [of "rev ?entries" ?entries] by (simp add: SidecarSecretStore_new_def rev_map [symmetric])
  have keys: "set (map fst (by_placeholder store)) = fst ` set (tokens_from lib 0 body)"
  proof -
    have "set (map fst (by_placeholder store)) = dom (map_of (by_placeholder store))" by (simp add: dom_map_of_conv_image_fst)
    also have "\<dots> = set (map fst ?entries)" unfolding m by (simp add: dom_map_of_conv_image_fst)
    finally show ?thesis using collected(1) [OF assms(1)] assms(3) by simp
  qed
  have "rehydrate_body lib body ct (rehydrate_ops lib store body)
      = substitute_ops body (map (\<lambda>(t, s). (s, encode_secret lib (the (map_of ?entries t)) ct)) (tokens_from lib 0 body)) [] 0"
    using rehydrate_ops_tokens [OF assms(1,2) conjunct1 [OF st] keys]
    by (simp add: rehydrate_body_def apply_ops_def m comp_def case_prod_unfold)
  then show ?thesis using substitute_tokens [OF assms(1), of 0 body body 0] by simp
qed

section \<open>Samples\<close>

text \<open>
  A library that satisfies the laws: tokens are the prefix and 26 letters or digits, the search is the reference, and the
  escaping functions change nothing.
\<close>

definition sample_placeholder :: "string \<Rightarrow> string option" where
  "sample_placeholder t =
     (if length t = TOKEN_LEN \<and> prefix PLACEHOLDER_PREFIX t \<and> list_all is_ascii_alphanumeric (drop (length PLACEHOLDER_PREFIX) t)
      then Some t else None)"

definition sample_rewrite_lib :: rewrite_lib where
  "sample_rewrite_lib = \<lparr>rw_placeholder = sample_placeholder, rw_find_iter = (\<lambda>ps haystack. leftmost_from ps 0 haystack),
     rw_json_string = (\<lambda>s. Some ([CHR 0x22] @ s @ [CHR 0x22])), rw_json_unescape = (\<lambda>content. [Ok (Literal content)]),
     rw_form_serialize = (\<lambda>s. s), rw_xml_escape = (\<lambda>s. s), rw_xml_unescape = (\<lambda>s. None)\<rparr>"

lemma sample_laws: "placeholder_law sample_rewrite_lib" "find_iter_law sample_rewrite_lib" "json_tokens_law sample_rewrite_lib"
  by (auto simp: placeholder_law_def find_iter_law_def json_tokens_law_def sample_rewrite_lib_def sample_placeholder_def
      split: if_splits)

definition first_token :: string where "first_token = ''fsp_00000000000000000000000001''"
definition second_token :: string where "second_token = ''fsp_00000000000000000000000002''"

definition crossing_store :: SidecarSecretStore where
  "crossing_store = SidecarSecretStore_new\<lparr>by_placeholder := [(first_token, ''AAAA-BBBB''), (second_token, ''BBBB-CCCC'')]\<rparr>"

definition crossing_body :: string where "crossing_body = ''AAAA-BBBB-CCCC!''"


definition two_tokens :: string where "two_tokens = ''a='' @ first_token @ second_token @ '' '' @ first_token"

theorem rehydration_exact_witness:
  "placeholder_law sample_rewrite_lib \<and> find_iter_law sample_rewrite_lib
    \<and> collect_placeholders sample_rewrite_lib two_tokens = [first_token, second_token]
    \<and> (\<exists>store. store_from (\<lambda>_. None) (zip (collect_placeholders sample_rewrite_lib two_tokens) [''one'', ''two'']) SidecarSecretStore_new = Ok store
        \<and> rehydrate_body sample_rewrite_lib two_tokens Raw (rehydrate_ops sample_rewrite_lib store two_tokens) = Some ''a=onetwo one'')"
proof -
  have c: "collect_placeholders sample_rewrite_lib two_tokens = [first_token, second_token]" by code_simp
  obtain store where s: "store_from (\<lambda>_. None) (zip (collect_placeholders sample_rewrite_lib two_tokens) [''one'', ''two'']) SidecarSecretStore_new = Ok store"
    unfolding c by (simp add: SidecarSecretStore_insert_def rebuild_matchers_def matcher_rebuild_def first_token_def second_token_def)
  have "replace_tokens sample_rewrite_lib
      (\<lambda>t. encode_secret sample_rewrite_lib (the (map_of (zip [first_token, second_token] [''one'', ''two'']) t)) Raw) two_tokens = ''a=onetwo one''"
    by code_simp
  then have "rehydrate_body sample_rewrite_lib two_tokens Raw (rehydrate_ops sample_rewrite_lib store two_tokens) = Some ''a=onetwo one''"
    using rehydration_exact [OF sample_laws(1,2) _ s, of Raw] c by simp
  with s c sample_laws(1,2) show ?thesis by blast
qed

text \<open>
  Text in a CDATA section is read as a tag: a secret echoed there is not found.
\<close>

lemma cdata_unmasked:
  "find_decoded_secret_spans sample_rewrite_lib (''<a><![CDATA[s3cr3t-value]]></a>'') Xml ''s3cr3t-value'' = []"
  by code_simp

end
