(* ===== verification/Spec2Isabelle.thy ===== *)
theory Spec2Isabelle
  imports Pipeline Token_Store Glob Action_Class Authority_Issuance Audit_Wal Seccomp Secret_Rewrite
begin

text \<open>
  OpenFirma puts a policy enforcement point, the sidecar, between an agent and the services it calls.  An
  Authority holds the policies; it issues capability tokens, and it streams policy bundles and revocations to
  the sidecars.  This library models the decision path of the program, from what the Authority reads from disk
  to the audit record a sidecar delivers, and proves what makes it correct.  Paths are below
  \<^verbatim>\<open>src/crates\<close>.

  \<^bold>\<open>The parts and how they interact.\<close>
  The Authority loads policies, schema and mapping files into a generation and publishes it as a bundle
  (\<^verbatim>\<open>firma-authority/src/cedar_loader.rs\<close>, \<^verbatim>\<open>mappings.rs\<close>), evaluates issuance requests and signs tokens
  (\<^verbatim>\<open>service.rs\<close>, \<^verbatim>\<open>issuance.rs\<close>), and keeps a file of revocations whose live part it sends as a set
  (\<^verbatim>\<open>revocation.rs\<close>).  The sidecar's authority client applies bundles and sets and keeps the readiness and
  freshness flags (\<^verbatim>\<open>firma-sidecar/src/authority_client\<close>).  For each request the pipeline
  (\<^verbatim>\<open>pipeline/mod.rs\<close>) pins one generation, normalises and classifies the request (\<^verbatim>\<open>normalizer\<close>), selects and
  validates a token (stage 1), evaluates the policy on a context built from verified facts and the session's
  history (stage 2), and produces a decision and an audit payload; the audit task signs it and the durable sink
  journals and delivers it (\<^verbatim>\<open>audit\<close>).  Actions that need a human go through single-use approval tokens
  (\<^verbatim>\<open>local_exec/token_store.rs\<close>).

  \<^bold>\<open>Theories.\<close>
  \<^item> \<open>Firma_Prelude\<close>: results, byte strings, the string operations of the standard library, decimal numbers,
    saturating arithmetic, and their lemmas.  \<open>Line_Log\<close>: the interface of a file of printed lines, a locale
    interpreted by the session log and the revocation file.
  \<^item> \<open>Action_Class\<close>, \<open>Mapping_Language\<close>, \<open>Glob\<close>, \<open>Envelope\<close>, \<open>Decisions\<close>: the data types and the mapping
    language of \<^verbatim>\<open>firma-core\<close>; the glob matcher and the overlap search are proved equal to the language of a
    pattern.
  \<^item> \<open>Mapping_Table\<close>, \<open>Redaction\<close>, \<open>Normalizer\<close>: \<^verbatim>\<open>firma-sidecar/src/normalizer\<close>; the table answers with the most
    specific rule, the envelope is canonical, redaction hides the values of sensitive parameters.
  \<^item> \<open>Tokens\<close>, \<open>Capability_Map\<close>, \<open>Capability_Validation\<close>: signing and verification, selection, and stage 1 with
    its single-tenant invariant.
  \<^item> \<open>Lru_Cache\<close>, \<open>Revocation\<close>: the interface of the LRU cache as a locale, and the bloom filter behind a bounded
    cache; a revoked token stays revoked, also when insertions interleave atomic operation by atomic operation.
  \<^item> \<open>Session_State\<close>, \<open>Session_Persistent\<close>: the session signals refine an abstract machine per session and
    survive a restart.
  \<^item> \<open>Constraint_Enforcement\<close>, \<open>Cedar_Evaluator\<close>: stage 2, with the context the policies see and the remediation
    annotations.
  \<^item> \<open>Authority_Client\<close>: the streams as a step relation; a bundle is applied whole or not at all, and a
    rejected run never serves again.
  \<^item> \<open>Pipeline\<close>: single and composite enforcement.  \<open>Token_Store\<close>: approval tokens over all interleavings.
  \<^item> \<open>Audit_Event\<close>, \<open>Audit_Wal\<close>: the signed event and the durable sink, with torn writes and crashes as steps; no
    accepted event is lost.
  \<^item> \<open>Authority_Policies\<close>, \<open>Authority_Issuance\<close>, \<open>Authority_Revocation\<close>: the Authority's side.
  \<^item> \<open>Seccomp\<close>: the policy compiler of \<^verbatim>\<open>firma-run/src/seccomp.rs\<close>, down to the bytes of the BPF program, against a
    reading of them as the kernel has it, and the artifacts it writes and loads.
  \<^item> \<open>Secret_Rewrite\<close>: \<^verbatim>\<open>secret_rewrite.rs\<close>, \<^verbatim>\<open>secret_store.rs\<close> and the scan for placeholders of \<^verbatim>\<open>handler.rs\<close>; masking
    replaces exactly the bytes of echoed secrets, and rehydration replaces every placeholder token.
  \<^item> this theory: the properties that span components.  An admitted request satisfied every check against what
    the Authority published; it was permitted at issuance; and a revocation entered at the Authority stops a token
    at a sidecar.

  \<^bold>\<open>Conventions.\<close>
  Strings are byte strings, times are integers in nanoseconds, a \<^verbatim>\<open>Result\<close> is a sum with the error on the left,
  counters that saturate or wrap do so in the model.  Clock readings, generated identifiers, outcomes of writes and
  answers of services are arguments of the operations, so that a theorem holds for every value of them.  What several
  tasks do in some order is a step relation, and the theorems are about every state it reaches.  Recursive
  definitions are total, with a measure where the recursion is not structural; no fuel is used.

  \<^bold>\<open>Parameters.\<close>
  Cedar, PASETO and Ed25519, ECDSA, SHA-256, xxh3, JSON and TOML, the protobuf encoding, Unicode normalisation,
  the LRU cache, the typed identifiers, the multi-pattern search and the escaping crates are third-party code:
  records of functions, with what the code relies on as named hypotheses (\<open>paseto_laws\<close>,
  \<open>wal_laws\<close>, \<open>placeholder_law\<close>, \<open>find_iter_law\<close>,
  \<open>json_tokens_law\<close>, the assumptions of the cache locale), each satisfied by a concrete instance in
  a witness.

  \<^bold>\<open>Not modelled.\<close>
  Network servers and clients (TLS interception, HTTP framing, gRPC dialling), the request handler around the
  pipeline, compression of bodies, the sandbox of the agent and its operating-system calls apart from its
  seccomp filter, process orchestration, command line and terminal interfaces, login, secret providers and the
  parsing of settings: they are input and output, or drive operating-system and remote services.
\<close>

section \<open>From the Authority's streams to an admitted request\<close>

text \<open>
  The pipeline as the sidecar starts it, at a moment when its streams are in state \<open>s\<close>: tokens are
  PASETO tokens, revocation is the bloom-filter store the revocation stream writes, and the pinned
  generation and the readiness flag are the ones the streams published.
\<close>

definition wired ::
  "('c BloomLruRevocationStore, 's) pipeline_lib \<Rightarrow> moment \<Rightarrow> ('sk, 'pk, 'u) paseto_lib \<Rightarrow> 'pk PasetoV4Verifier
    \<Rightarrow> (string \<Rightarrow> 128 word) \<Rightarrow> ('c, unit) lru_lib \<Rightarrow> CapabilityEntry list \<Rightarrow> 'c client
    \<Rightarrow> ('c BloomLruRevocationStore, 's) EnforcementPipeline \<Rightarrow> bool" where
  "wired lib mo paseto verifier xxh3 lru entries s self \<longleftrightarrow>
     pl_verify lib = PasetoV4Verifier_verify paseto verifier \<and> pl_check lib = is_revoked xxh3 lru
   \<and> runtime_snapshot self = Some (cl_published s) \<and> mo_readiness mo = cl_readiness s
   \<and> cv_revocation (capability_validator self) = cl_revocation s
   \<and> cv_capability_map (capability_validator self) = CapabilityMap_new entries"

text \<open>The claims an admitted decision carries.\<close>

definition admitted_claims :: "EnforcementDecision \<Rightarrow> CapabilityClaims option" where
  "admitted_claims d = (case d of Allow claims _ _ \<Rightarrow> Some claims | Modify claims _ _ _ \<Rightarrow> Some claims | _ \<Rightarrow> None)"

lemma authorised_claims:
  assumes "authorised lib mo self enforcer env session d"
  obtains vc v where "enforce (pl_verify lib (mo_verified_at mo)) (pl_check lib) (mo_expiry_at mo)
      (capability_validator self) env session = (Ok vc, v)"
    "admitted_claims d = Some (vc_claims vc)" "in_scope env (vc_claims vc)" "fully_ready (mo_readiness mo)"
proof -
  obtain vc ctx claims envelope verdict where a: "fully_ready (mo_readiness mo)"
      "fst (enforce (pl_verify lib (mo_verified_at mo)) (pl_check lib) (mo_expiry_at mo)
        (capability_validator self) env session) = Ok vc" "in_scope env (vc_claims vc)" "claims = vc_claims vc"
      "(\<exists>k. d = Allow claims envelope k \<and> verdict = VerdictAllow) \<or> (\<exists>m k. d = Modify claims envelope m k \<and> verdict = VerdictModify m)"
    using assms unfolding authorised_def by blast
  then have "admitted_claims d = Some (vc_claims vc)" by (auto simp: admitted_claims_def)
  then show ?thesis
    using a(1-3) by (intro that [of vc "snd (enforce (pl_verify lib (mo_verified_at mo)) (pl_check lib) (mo_expiry_at mo)
      (capability_validator self) env session)"]) (simp_all add: prod_eq_iff)
qed

lemma wired_admitted:
  assumes "wired lib mo paseto verifier xxh3 lru entries s self"
    and "EnforcementPipeline_enforce lib ad mo request session self = ((d, audit), self')" and "admitted d"
  obtains vc :: ValidatedCapability and env entry where "admitted_claims d = Some (vc_claims vc)" "in_scope env (vc_claims vc)"
    "fully_ready (cl_readiness s)"
    "normalize (pl_normalizer lib) (ps_normalizer (cl_published s)) (ad_normalized_at ad) request = Ok env"
    "entry \<in> set entries" "entry_raw_token entry = vc_raw_token vc" "claim_session_id (entry_claims entry) = session"
    "PasetoV4Verifier_verify paseto verifier (mo_verified_at mo) (vc_raw_token vc) = Ok (vc_claims vc)"
    "mo_expiry_at mo < claim_expiry (vc_claims vc)"
    "fst (is_revoked xxh3 lru (cl_revocation s) (claim_token_id (vc_claims vc))) = Ok False"
proof -
  note w = assms(1) [unfolded wired_def]
  obtain env where env: "normalize (pl_normalizer lib) (ps_normalizer (cl_published s)) (ad_normalized_at ad) request = Ok env"
    "authorised lib mo self (published_policy (cl_published s)) env session d"
    using enforce_authorised [OF assms(2) _ assms(3)] w by blast
  obtain vc v where vc: "enforce (PasetoV4Verifier_verify paseto verifier (mo_verified_at mo)) (is_revoked xxh3 lru)
      (mo_expiry_at mo) (capability_validator self) env session = (Ok vc, v)"
    "admitted_claims d = Some (vc_claims vc)" "in_scope env (vc_claims vc)" "fully_ready (cl_readiness s)"
    using env(2) w by (elim authorised_claims) auto
  obtain entry where e: "select (CapabilityMap_new entries) session (intent_action_class (norm_intent env))
       (policy_resource_display (norm_intent env)) = Ok entry" "vc_raw_token vc = entry_raw_token entry"
    "validate (PasetoV4Verifier_verify paseto verifier (mo_verified_at mo)) (is_revoked xxh3 lru) (mo_expiry_at mo)
       (cl_revocation s) (entry_raw_token entry) = (Ok (vc_claims vc), cv_revocation v)"
    using vc(1) w by (elim enforce_Ok) auto
  note v = validate_Ok [OF e(3)]
  have "fst (is_revoked xxh3 lru (cl_revocation s) (claim_token_id (vc_claims vc))) = Ok False" using v(3) by simp
  then show ?thesis
    using select_Ok [OF e(1)] v(1,2) e(2) by (intro that [OF vc(2-4) env(1), of entry]) simp_all
qed

text \<open>
  C1. End to end, from start-up to an admitted request. In whatever state the streams reach, a request
  the wired pipeline admits was classified by a generation with a valid version that the Authority
  published, in a run it did not reject, after a complete revocation set was applied; its token is an
  entry of the capability map of the requesting session, its signature verifies to the claims of the
  decision, they are unexpired, cover the action, and are not revoked in the store.
\<close>

theorem admission_end_to_end:
  assumes "bloom_wf (store_bloom store)"
    and "(client_step cedar parse_method parse_token xxh3 lru fail_closed credentials)\<^sup>*\<^sup>* (client_init normalizer now store) s"
    and "wired lib mo paseto verifier xxh3 lru entries s self"
    and "EnforcementPipeline_enforce lib ad mo request session self = ((d, audit), self')" and "admitted d"
  shows "\<not> run_rejected (cl_readiness s) \<and> cl_applied_a_set s
    \<and> (\<exists>version. ps_version (cl_published s) = Some version \<and> is_valid_version version)
    \<and> (\<exists>claims env entry. admitted_claims d = Some claims
        \<and> normalize (pl_normalizer lib) (ps_normalizer (cl_published s)) (ad_normalized_at ad) request = Ok env
        \<and> in_scope env claims \<and> mo_expiry_at mo < claim_expiry claims
        \<and> entry \<in> set entries \<and> claim_session_id (entry_claims entry) = session
        \<and> PasetoV4Verifier_verify paseto verifier (mo_verified_at mo) (entry_raw_token entry) = Ok claims
        \<and> fst (is_revoked xxh3 lru (cl_revocation s) (claim_token_id claims)) = Ok False)"
proof -
  have inv: "client_inv s" using client_reach_inv [OF assms(2) client_init_inv [OF assms(1)]] .
  show ?thesis
    using assms(3-5)
  proof (rule wired_admitted)
    fix vc env entry
    assume a: "admitted_claims d = Some (vc_claims vc)" "in_scope env (vc_claims vc)" "fully_ready (cl_readiness s)"
      "normalize (pl_normalizer lib) (ps_normalizer (cl_published s)) (ad_normalized_at ad) request = Ok env"
      "entry \<in> set entries" "entry_raw_token entry = vc_raw_token vc" "claim_session_id (entry_claims entry) = session"
      "PasetoV4Verifier_verify paseto verifier (mo_verified_at mo) (vc_raw_token vc) = Ok (vc_claims vc)"
      "mo_expiry_at mo < claim_expiry (vc_claims vc)"
      "fst (is_revoked xxh3 lru (cl_revocation s) (claim_token_id (vc_claims vc))) = Ok False"
    have "\<not> run_rejected (cl_readiness s) \<and> cl_applied_a_set s
        \<and> (\<exists>version. ps_version (cl_published s) = Some version \<and> is_valid_version version)"
      using inv a(3) by (auto simp: client_inv_def fully_ready_def)
    moreover have "\<exists>claims env entry. admitted_claims d = Some claims
        \<and> normalize (pl_normalizer lib) (ps_normalizer (cl_published s)) (ad_normalized_at ad) request = Ok env
        \<and> in_scope env claims \<and> mo_expiry_at mo < claim_expiry claims
        \<and> entry \<in> set entries \<and> claim_session_id (entry_claims entry) = session
        \<and> PasetoV4Verifier_verify paseto verifier (mo_verified_at mo) (entry_raw_token entry) = Ok claims
        \<and> fst (is_revoked xxh3 lru (cl_revocation s) (claim_token_id claims)) = Ok False"
      by (rule exI [of _ "vc_claims vc"], rule exI [of _ env], rule exI [of _ entry]) (simp add: a)
    ultimately show ?thesis by blast
  qed
qed

abbreviation after_set :: "'c BloomLruRevocationStore \<Rightarrow> 'c client \<Rightarrow> 'c client" where
  "after_set store' s \<equiv>
     s\<lparr>cl_revocation := store', cl_applied_a_set := True, cl_conn_ready := True,
       cl_readiness := (if cl_conn_ready s then cl_readiness s else set_revocation_ready True (cl_readiness s))\<rparr>"

lemma applied_not_admitted:
  assumes "bloom_wf (store_bloom store)"
    and "(client_step cedar parse_method parse_token xxh3 lru fail_closed credentials)\<^sup>*\<^sup>* (client_init normalizer now store) s0"
    and "apply_set parse_token (add_revocation xxh3 lru) (cl_revocation s0) events = (Ok (), store')"
    and "event \<in> set events" and "parse_token event = Ok t"
    and "(client_step cedar parse_method parse_token xxh3 lru fail_closed credentials)\<^sup>*\<^sup>* (after_set store' s0) s"
    and "wired lib mo paseto verifier xxh3 lru entries s self"
    and "EnforcementPipeline_enforce lib ad mo request session self = ((d, audit), self')"
    and "admitted_claims d = Some claims"
  shows "claim_token_id claims \<noteq> t"
proof
  assume t: "claim_token_id claims = t"
  have inv: "client_inv s0" using client_reach_inv [OF assms(2) client_init_inv [OF assms(1)]] .
  have "fst (is_revoked xxh3 lru (cl_revocation (after_set store' s0)) t) = Ok True"
    using apply_set_reported [OF assms(3) _ assms(4,5)] inv by (simp add: client_inv_def)
  from client_reach_revoked [OF assms(6) client_step_inv [OF client_step.set_applied [OF assms(3)] inv] this]
  have "fst (is_revoked xxh3 lru (cl_revocation s) t) = Ok True" .
  moreover have "admitted d" using assms(9) by (cases d) (simp_all add: admitted_claims_def)
  then have "fst (is_revoked xxh3 lru (cl_revocation s) t) = Ok False"
    by (rule wired_admitted [OF assms(7,8)]) (use assms(9) t in auto)
  ultimately show False by simp
qed

text \<open>
  C8. A revocation the Authority sent takes effect and cannot be undone: once the stream has applied a
  set naming a token, no request in any later state of the streams is admitted on that token.
\<close>

theorem revoked_token_never_admitted:
  assumes "bloom_wf (store_bloom store)"
    and "(client_step cedar parse_method parse_token xxh3 lru fail_closed credentials)\<^sup>*\<^sup>* (client_init normalizer now store) s0"
    and "apply_set parse_token (add_revocation xxh3 lru) (cl_revocation s0) events = (Ok (), store')"
    and "event \<in> set events" and "parse_token event = Ok t"
    and "(client_step cedar parse_method parse_token xxh3 lru fail_closed credentials)\<^sup>*\<^sup>* (after_set store' s0) s"
    and "wired lib mo paseto verifier xxh3 lru entries s self"
    and "EnforcementPipeline_enforce lib ad mo request session self = ((d, audit), self')"
    and "admitted_claims d = Some claims"
  shows "claim_token_id claims \<noteq> t"
  using assms by (rule applied_not_admitted)

section \<open>The Authority and the sidecar together\<close>

text \<open>
  C3. From the operator's revocation to the sidecar's denial. The Authority has ingested a revocation of a
  token; later, after any commands, edits and compactions on its file, it sends a set, and a sidecar applies
  it. In no later state of that sidecar's streams is a request admitted on claims with that identifier that
  were issued before the revocation and live no longer than the Authority's maximum, provided the sidecar's
  clock lags the moment the set was sent by at most the margin.
\<close>

theorem revocation_takes_effect:
  assumes "(authority_step rlib in_async ttl)\<^sup>*\<^sup>* a b" and "store_wf (au_server a)"
    and "map_of (rv_entries (au_server a)) t = Some e"
    and "bloom_wf (store_bloom store)"
    and "(client_step cedar parse_method parse_token xxh3 lru fail_closed credentials)\<^sup>*\<^sup>* (client_init normalizer now store) s0"
    and "apply_set parse_token (add_revocation xxh3 lru) (cl_revocation s0)
           (map ev_token_id (set_to_proto (current_set (au_server b) sent_at))) = (Ok (), store')"
    and "parse_token t = Ok t"
    and "(client_step cedar parse_method parse_token xxh3 lru fail_closed credentials)\<^sup>*\<^sup>* (after_set store' s0) s"
    and "wired lib mo paseto verifier xxh3 lru entries s self"
    and "EnforcementPipeline_enforce lib ad mo request session self = ((d, audit), self')"
    and "admitted_claims d = Some claims" and "sent_at \<le> mo_expiry_at mo + rv_skew_margin (au_server a)"
    and "claim_issued_at claims \<le> re_timestamp e"
    and "claim_expiry claims \<le> claim_issued_at claims + rv_token_ttl (au_server a)"
  shows "claim_token_id claims \<noteq> t"
proof -
  have "admitted d" using assms(11) by (cases d) (simp_all add: admitted_claims_def)
  then have "mo_expiry_at mo < claim_expiry claims"
    by (rule wired_admitted [OF assms(9,10)]) (use assms(11) in auto)
  from delivered_while_live [OF assms(1-3,13,14,12) this]
  have "t \<in> set (map ev_token_id (set_to_proto (current_set (au_server b) sent_at)))"
    by (force simp: set_to_proto_def entry_to_proto_def)
  from applied_not_admitted [OF assms(4-6) this assms(7-11)] show ?thesis .
qed

text \<open>An entry of a sidecar's capability map that holds what the Authority issued for a request.\<close>

definition issued_for ::
  "('ps, 'sc, 'cx) issuance_lib \<Rightarrow> ('sk, 'pk, 'u) paseto_lib \<Rightarrow> 'sk \<Rightarrow> 'pk \<Rightarrow> nat \<Rightarrow> CapabilityEntry
    \<Rightarrow> int \<Rightarrow> datetime \<Rightarrow> ('ps, 'sc) CedarPolicyStore \<Rightarrow> IssuanceRequest \<Rightarrow> bool" where
  "issued_for ilib paseto sk pk mx entry now_ms issued_at policies req \<longleftrightarrow>
     (\<exists>token policies' out. issue_capability ilib paseto sk mx now_ms issued_at token policies policies' req = Ok out
        \<and> entry = \<lparr>entry_raw_token = is_raw_token out, entry_claims = is_claims out\<rparr>
        \<and> paseto_laws paseto sk pk (is_claims out) \<and> parse_token_id paseto token = Ok token
        \<and> parse_agent_id paseto (ir_agent_id req) = Ok (ir_agent_id req)
        \<and> session_id_try_from (ir_session_id req) = Ok (ir_session_id req))"

lemma issued_claims_verified:
  assumes "issued_for ilib paseto sk pk mx entry now_ms issued_at policies req" and "verifier_public_key verifier = pk"
    and "PasetoV4Verifier_verify paseto verifier at_time (entry_raw_token entry) = Ok claims"
  shows "claims = entry_claims entry"
proof -
  obtain token policies' out where i: "issue_capability ilib paseto sk mx now_ms issued_at token policies policies' req = Ok out"
    "entry = \<lparr>entry_raw_token = is_raw_token out, entry_claims = is_claims out\<rparr>"
    "paseto_laws paseto sk pk (is_claims out)" "parse_token_id paseto token = Ok token"
    "parse_agent_id paseto (ir_agent_id req) = Ok (ir_agent_id req)"
    "session_id_try_from (ir_session_id req) = Ok (ir_session_id req)"
    using assms(1) by (auto simp: issued_for_def)
  note out = issue_capability_Ok [OF i(1)]
  show ?thesis
    using sign_verify [OF i(3), of verifier at_time] i(2,4-6) out(1-3,8) assms(2,3) by (auto split: if_split_asm)
qed

text \<open>
  C2. Nothing runs that the issuance policies did not permit. When a sidecar's capability map holds only what
  the Authority issued, an admitted request of a session performs an action class that was asked for (or
  the class \<open>*\<close> was) in an issuance request of that same session, that the Authority's policies permitted
  when they were evaluated for its agent and its resource scope, on a resource within that scope and no
  later than the maximum lifetime after that issuance.
\<close>

theorem admitted_action_was_permitted:
  assumes "wired lib mo paseto verifier xxh3 lru entries s self"
    and "EnforcementPipeline_enforce lib ad mo request session self = ((d, audit), self')" and "admitted d"
    and "\<forall>entry \<in> set entries. \<exists>now_ms issued_at policies req. issued_for ilib paseto sk pk mx entry now_ms issued_at policies req"
    and "verifier_public_key verifier = pk" and "0 < mx"
  shows "\<exists>env entry now_ms issued_at policies req a.
      entry \<in> set entries \<and> issued_for ilib paseto sk pk mx entry now_ms issued_at policies req
    \<and> normalize (pl_normalizer lib) (ps_normalizer (cl_published s)) (ad_normalized_at ad) request = Ok env
    \<and> (a = intent_action_class (norm_intent env) \<or> a = ''*'')
    \<and> a \<in> set (ir_requested_actions req) \<and> ir_session_id req = session
    \<and> action_verdict ilib now_ms (cs_policy_set policies) (cs_schema policies) (ir_agent_id req) session
        (ir_resource_scope req) a = Some True
    \<and> matches_resource_scope (ir_resource_scope req) (policy_resource_display (norm_intent env))
    \<and> mo_expiry_at mo < issued_at + int mx * 1000000000"
  using assms(1-3)
proof (rule wired_admitted)
  fix vc env entry
  assume v: "in_scope env (vc_claims vc)" "entry \<in> set entries" "entry_raw_token entry = vc_raw_token vc"
    "claim_session_id (entry_claims entry) = session" "mo_expiry_at mo < claim_expiry (vc_claims vc)"
    "PasetoV4Verifier_verify paseto verifier (mo_verified_at mo) (vc_raw_token vc) = Ok (vc_claims vc)"
    "normalize (pl_normalizer lib) (ps_normalizer (cl_published s)) (ad_normalized_at ad) request = Ok env"
  obtain now_ms issued_at policies req where i: "issued_for ilib paseto sk pk mx entry now_ms issued_at policies req"
    using assms(4) v(2) by blast
  have c: "vc_claims vc = entry_claims entry"
    using issued_claims_verified [OF i assms(5)] v(3,6) by simp
  obtain token policies' out where o: "issue_capability ilib paseto sk mx now_ms issued_at token policies policies' req = Ok out"
    "entry_claims entry = is_claims out" using i by (auto simp: issued_for_def)
  note out = issue_capability_Ok [OF o(1)]
  obtain a where a: "a = intent_action_class (norm_intent env) \<or> a = ''*''" "a \<in> set (claim_action_set (is_claims out))"
    using v(1) c o(2) by (auto simp: in_scope_def)
  have "claim_expiry (is_claims out) \<le> issued_at + int mx * 1000000000"
    using out(6) clamp_ttl_bounds(2) [OF assms(6), of "ir_requested_ttl_seconds req"] by simp
  then have bound: "mo_expiry_at mo < issued_at + int mx * 1000000000" using v(5) c o(2) by simp
  have "entry \<in> set entries \<and> issued_for ilib paseto sk pk mx entry now_ms issued_at policies req
    \<and> normalize (pl_normalizer lib) (ps_normalizer (cl_published s)) (ad_normalized_at ad) request = Ok env
    \<and> (a = intent_action_class (norm_intent env) \<or> a = ''*'')
    \<and> a \<in> set (ir_requested_actions req) \<and> ir_session_id req = session
    \<and> action_verdict ilib now_ms (cs_policy_set policies) (cs_schema policies) (ir_agent_id req) session
        (ir_resource_scope req) a = Some True
    \<and> matches_resource_scope (ir_resource_scope req) (policy_resource_display (norm_intent env))
    \<and> mo_expiry_at mo < issued_at + int mx * 1000000000"
    using bound i v(1,2,4,7) a granted_permitted [OF out(7) a(2)] out(3,4) c o(2) by (simp add: in_scope_def)
  then show ?thesis by - (intro exI, assumption)
qed

section \<open>A concrete sidecar\<close>

definition permit_policy :: CedarPolicy where
  "permit_policy = \<lparr>cp_id = ''policy0'', cp_effect = Permit, cp_annotation = Map.empty\<rparr>"

definition rules_msg :: BundleMsg where
  "rules_msg =
     sample_msg\<lparr>msg_mappings := Some \<lparr>snap_format_version = 1, snap_default_protected = True,
       snap_rules = [\<lparr>msg_method = Some ''GET'', msg_host = ''api.x.com'', msg_path = Some ''/v1/*'',
         msg_action_class = ''code.read''\<rparr>]\<rparr>\<rparr>"

abbreviation steps :: "unit assoc_cache client \<Rightarrow> unit assoc_cache client \<Rightarrow> bool" where
  "steps \<equiv> client_step (sample_cedar_lib [permit_policy]) Some Inr sample_xxh3 assoc_lru True None"

definition started :: "unit assoc_cache client" where
  "started = client_init sample_normalizer 0 sample_revocations"

definition loaded :: "unit assoc_cache client" where
  "loaded =
     (let (published, readiness) = apply_bundle (sample_cedar_lib [permit_policy]) Some 0 (Some rules_msg)
            (cl_published started, cl_readiness started)
      in started\<lparr>cl_published := published, cl_readiness := readiness\<rparr>)"

definition revoked_store :: "unit assoc_cache BloomLruRevocationStore" where
  "revoked_store = snd (add_revocation sample_xxh3 assoc_lru sample_revocations ''token_22'')"

definition synced :: "unit assoc_cache client" where
  "synced =
     loaded\<lparr>cl_revocation := revoked_store, cl_applied_a_set := True, cl_conn_ready := True,
       cl_readiness := (if cl_conn_ready loaded then cl_readiness loaded else set_revocation_ready True (cl_readiness loaded))\<rparr>"

text \<open>The store's answer for the token of the request, known without computing the filter.\<close>

definition quick_check :: "unit assoc_cache BloomLruRevocationStore revocation_check" where
  "quick_check r t = (if t = ''tok_1'' then (Ok False, r) else is_revoked sample_xxh3 assoc_lru r t)"

definition sidecar_lib ::
  "(unit, unit, string) paseto_lib \<Rightarrow> unit assoc_cache BloomLruRevocationStore revocation_check
    \<Rightarrow> (unit assoc_cache BloomLruRevocationStore, SessionRecord assoc_cache LruSessionStateStore) pipeline_lib" where
  "sidecar_lib paseto check =
     \<lparr>pl_normalizer = sample_lib, pl_enforcer = sample_enforcer_lib,
      pl_verify = PasetoV4Verifier_verify paseto sample_verifier, pl_check = check,
      pl_sessions = memory_sessions id assoc_lru, pl_sha256_hex = id\<rparr>"

definition sidecar_with ::
  "CapabilityEntry \<Rightarrow> unit assoc_cache BloomLruRevocationStore
    \<Rightarrow> (unit assoc_cache BloomLruRevocationStore, SessionRecord assoc_cache LruSessionStateStore) EnforcementPipeline" where
  "sidecar_with entry store =
     \<lparr>capability_validator = CapabilityValidator_new (CapabilityMap_new [entry]) store,
      constraint_enforcer = deny_all_policy, pipe_normalizer = sample_normalizer,
      stage2_timeout = None, session_state_store = LruSessionStateStore_new assoc_lru 4,
      runtime_snapshot = Some (cl_published loaded)\<rparr>"

abbreviation sidecar where "sidecar entry \<equiv> sidecar_with entry revoked_store"

definition now_moment :: moment where
  "now_moment = sample_moment\<lparr>mo_readiness := set_revocation_ready True (cl_readiness loaded)\<rparr>"

lemma sidecar_admits:
  "is_allow (fst (fst (EnforcementPipeline_enforce (sidecar_lib sample_paseto_lib quick_check) sample_admission now_moment
     sample_request ''ses_1'' (sidecar_with sample_entry store))))"
  by code_simp

lemma sample_hashes: "hashes sample_xxh3 ''token_22'' = (24, 8)" "hashes sample_xxh3 ''tok_1'' = (15, 5)"
  by (simp_all add: hashes_def sample_xxh3_def Let_def)

lemma sample_probes:
  assumes "bloom_bit_count b = 100" and "bloom_hash_count b = 3"
  shows "probes sample_xxh3 b ''token_22'' = [(0, 0x1000000), (0, 0x100000000), (0, 0x10000000000)]"
    and "probes sample_xxh3 b ''tok_1'' = [(0, 0x8000), (0, 0x100000), (0, 0x2000000)]"
  using assms by (simp_all add: probes_def bloom_bit_def sample_hashes upt_rec Let_def push_bit_eq_mult)

lemma sample_bloom:
  "bloom_bits (AtomicBloom_new 100 3) = [0, 0]" "bloom_bit_count (AtomicBloom_new 100 3) = 100"
  "bloom_hash_count (AtomicBloom_new 100 3) = 3"
  by code_simp+

lemma other_token_not_revoked:
  "\<not> bloom_contains sample_xxh3 (bloom_insert sample_xxh3 (AtomicBloom_new 100 3) ''token_22'') ''tok_1''"
  by (simp add: bloom_contains_def bloom_insert_def sample_probes sample_bloom fetch_or_def)

lemma quick_check_store: "quick_check revoked_store = is_revoked sample_xxh3 assoc_lru revoked_store"
proof
  fix t
  have "is_revoked sample_xxh3 assoc_lru revoked_store ''tok_1'' = (Ok False, revoked_store)"
    using other_token_not_revoked
    by (simp add: is_revoked_def revoked_store_def add_revocation_def sample_revocations_def BloomLruRevocationStore_new_def)
  then show "quick_check revoked_store t = is_revoked sample_xxh3 assoc_lru revoked_store t" by (simp add: quick_check_def)
qed

lemma validate_check_cong:
  "check rv = check' rv \<Longrightarrow> validate verify check now rv raw = validate verify check' now rv raw"
  by (simp add: validate_def Let_def split: sum.split)

lemma enforce_check_cong:
  assumes "check (cv_revocation self) = check' (cv_revocation self)"
  shows "enforce verify check now self env session = enforce verify check' now self env session"
  unfolding enforce_def validate_check_cong [of check "cv_revocation self" check', OF assms] ..

lemma sidecar_check:
  "EnforcementPipeline_enforce (sidecar_lib paseto (is_revoked sample_xxh3 assoc_lru)) ad mo request session (sidecar entry) =
     EnforcementPipeline_enforce (sidecar_lib paseto quick_check) ad mo request session (sidecar entry)"
proof -
  have rev: "cv_revocation (capability_validator (sidecar entry)) = revoked_store"
    by (simp add: sidecar_with_def CapabilityValidator_new_def)
  have s1: "enforce verify (is_revoked sample_xxh3 assoc_lru) now (capability_validator (sidecar entry)) env session =
      enforce verify quick_check now (capability_validator (sidecar entry)) env session" for verify now env session
    by (rule enforce_check_cong) (simp add: rev quick_check_store)
  have lib: "pl_normalizer (sidecar_lib paseto c) = sample_lib" "pl_enforcer (sidecar_lib paseto c) = sample_enforcer_lib"
      "pl_verify (sidecar_lib paseto c) = PasetoV4Verifier_verify paseto sample_verifier" "pl_check (sidecar_lib paseto c) = c"
      "pl_sessions (sidecar_lib paseto c) = memory_sessions id assoc_lru" "pl_sha256_hex (sidecar_lib paseto c) = id" for c
    by (simp_all add: sidecar_lib_def)
  show ?thesis
    unfolding EnforcementPipeline_enforce_def enforce_inner_def enforce_normalized_inner_def run_stage2_def
      finish_verdict_decision_def lib s1 ..
qed

lemma started_wf: "bloom_wf (store_bloom sample_revocations)"
  by (rule sample_revocations_wf)

lemma loaded_step: "steps started loaded"
  by (simp add: loaded_def client_step.bundle_received split: prod.split)

lemma loaded_revocation: "cl_revocation loaded = sample_revocations"
  by (simp add: loaded_def started_def client_init_def split: prod.split)

lemma loaded_not_connected: "cl_conn_ready loaded = False"
  by (simp add: loaded_def started_def client_init_def split: prod.split)

lemma set_applies: "apply_set Inr (add_revocation sample_xxh3 assoc_lru) (cl_revocation loaded) [''token_22''] = (Ok (), revoked_store)"
  by (simp add: loaded_revocation revoked_store_def token_id_from_event_def map_err_def add_revocation_def)

lemma synced_step: "steps loaded synced"
  unfolding synced_def using set_applies by (rule client_step.set_applied)

lemma loaded_reach: "steps\<^sup>*\<^sup>* (client_init sample_normalizer 0 sample_revocations) loaded"
  using loaded_step unfolding started_def by (rule r_into_rtranclp [of steps])

lemma synced_reach: "steps\<^sup>*\<^sup>* (client_init sample_normalizer 0 sample_revocations) synced"
proof -
  have "steps\<^sup>*\<^sup>* (client_init sample_normalizer 0 sample_revocations) synced"
    using loaded_reach synced_step by (rule rtranclp.rtrancl_into_rtrancl [of steps])
  then show ?thesis .
qed

lemma sidecar_wired:
  "wired (sidecar_lib sample_paseto_lib (is_revoked sample_xxh3 assoc_lru)) now_moment sample_paseto_lib sample_verifier sample_xxh3 assoc_lru
     [sample_entry] synced (sidecar sample_entry)"
  by (simp add: wired_def sidecar_lib_def now_moment_def sidecar_with_def CapabilityValidator_new_def synced_def
      loaded_not_connected)

theorem admission_end_to_end_witness:
  "\<exists>d claims. fst (fst (EnforcementPipeline_enforce (sidecar_lib sample_paseto_lib (is_revoked sample_xxh3 assoc_lru)) sample_admission now_moment
       sample_request ''ses_1'' (sidecar sample_entry))) = d
   \<and> admitted_claims d = Some claims \<and> cl_applied_a_set synced
   \<and> PasetoV4Verifier_verify sample_paseto_lib sample_verifier (mo_verified_at now_moment) (entry_raw_token sample_entry) = Ok claims"
proof -
  obtain d audit self' where e: "EnforcementPipeline_enforce (sidecar_lib sample_paseto_lib (is_revoked sample_xxh3 assoc_lru)) sample_admission
      now_moment sample_request ''ses_1'' (sidecar sample_entry) = ((d, audit), self')" by (metis prod.exhaust)
  have "admitted d" using allow_admitted [OF sidecar_admits [of revoked_store]] e unfolding sidecar_check by simp
  from admission_end_to_end [OF started_wf synced_reach sidecar_wired e this] show ?thesis using e by fastforce
qed

lemma admits_claims:
  assumes "is_allow (fst (fst (EnforcementPipeline_enforce (sidecar_lib paseto quick_check) sample_admission now_moment
     sample_request ''ses_1'' (sidecar entry))))"
  obtains d audit self' claims where "EnforcementPipeline_enforce (sidecar_lib paseto (is_revoked sample_xxh3 assoc_lru))
      sample_admission now_moment sample_request ''ses_1'' (sidecar entry) = ((d, audit), self')"
    and "admitted d" and "admitted_claims d = Some claims"
proof -
  obtain d audit self' where e: "EnforcementPipeline_enforce (sidecar_lib paseto (is_revoked sample_xxh3 assoc_lru)) sample_admission
      now_moment sample_request ''ses_1'' (sidecar entry) = ((d, audit), self')" by (metis prod.exhaust)
  have allow: "is_allow d" using assms e unfolding sidecar_check by simp
  then obtain claims where "admitted_claims d = Some claims" by (cases d) (auto simp: admitted_claims_def)
  then show ?thesis using that [OF e] allow_admitted [OF allow] by blast
qed

lemma sidecar_wired_set:
  "wired (sidecar_lib sample_paseto_lib (is_revoked sample_xxh3 assoc_lru)) now_moment sample_paseto_lib sample_verifier sample_xxh3
      assoc_lru [sample_entry] (after_set revoked_store loaded) (sidecar sample_entry)"
  using sidecar_wired by (simp add: synced_def)

theorem revoked_token_never_admitted_witness:
  "\<exists>d claims. fst (fst (EnforcementPipeline_enforce (sidecar_lib sample_paseto_lib (is_revoked sample_xxh3 assoc_lru)) sample_admission now_moment
       sample_request ''ses_1'' (sidecar sample_entry))) = d
   \<and> admitted_claims d = Some claims \<and> claim_token_id claims \<noteq> ''token_22''"
  using sidecar_admits
proof (rule admits_claims)
  fix d audit self' claims
  assume e: "EnforcementPipeline_enforce (sidecar_lib sample_paseto_lib (is_revoked sample_xxh3 assoc_lru))
      sample_admission now_moment sample_request ''ses_1'' (sidecar sample_entry) = ((d, audit), self')"
    and c: "admitted_claims d = Some claims"
  have refl: "steps\<^sup>*\<^sup>* (after_set revoked_store loaded) (after_set revoked_store loaded)" by simp
  have "claim_token_id claims \<noteq> ''token_22''"
    by (rule revoked_token_never_admitted [OF started_wf loaded_reach set_applies _ _ refl sidecar_wired_set e c, of "''token_22''"]) simp_all
  then show ?thesis using e c by auto
qed

definition sample_authority :: authority where
  "sample_authority =
     \<lparr>au_file = None,
      au_server = \<lparr>rv_entries = [(''token_22'', \<lparr>re_token_id = ''token_22'', re_reason = ''leaked'', re_timestamp = 5\<rparr>)],
        rv_token_ttl = 100, rv_skew_margin = 10\<rparr>,
      au_compactor = None\<rparr>"

lemma sample_authority_sends:
  "map ev_token_id (set_to_proto (current_set (au_server sample_authority) 65)) = [''token_22'']"
  by (simp add: set_to_proto_def entry_to_proto_def current_set_def live_entries_def entry_is_expired_def sample_authority_def)

theorem revocation_takes_effect_witness:
  "\<exists>d claims. fst (fst (EnforcementPipeline_enforce (sidecar_lib sample_paseto_lib (is_revoked sample_xxh3 assoc_lru)) sample_admission now_moment
       sample_request ''ses_1'' (sidecar sample_entry))) = d
   \<and> admitted_claims d = Some claims \<and> claim_token_id claims \<noteq> ''token_22''"
  using sidecar_admits
proof (rule admits_claims)
  fix d audit self' claims
  assume e: "EnforcementPipeline_enforce (sidecar_lib sample_paseto_lib (is_revoked sample_xxh3 assoc_lru))
      sample_admission now_moment sample_request ''ses_1'' (sidecar sample_entry) = ((d, audit), self')"
    and d: "admitted d" and c: "admitted_claims d = Some claims"
  let ?step = "authority_step sample_rl False 100"
  have reach: "?step\<^sup>*\<^sup>* sample_authority sample_authority" by simp
  have wf: "store_wf (au_server sample_authority)" by (simp add: store_wf_def sample_authority_def)
  have ingested: "map_of (rv_entries (au_server sample_authority)) ''token_22'' =
      Some \<lparr>re_token_id = ''token_22'', re_reason = ''leaked'', re_timestamp = 5\<rparr>" by (simp add: sample_authority_def)
  have refl: "steps\<^sup>*\<^sup>* (after_set revoked_store loaded) (after_set revoked_store loaded)" by simp
  have sent: "apply_set Inr (add_revocation sample_xxh3 assoc_lru) (cl_revocation loaded)
      (map ev_token_id (set_to_proto (current_set (au_server sample_authority) 65))) = (Ok (), revoked_store)"
    unfolding sample_authority_sends by (rule set_applies)
  have "PasetoV4Verifier_verify sample_paseto_lib sample_verifier (mo_verified_at now_moment) (entry_raw_token sample_entry) = Ok claims"
    using sidecar_wired_set e d by (rule wired_admitted) (use c in auto)
  then have "claims = sample_claims" by (simp add: sample_verify sample_entry_def now_moment_def sample_moment_def)
  then have times: "claim_issued_at claims \<le> 5" "claim_expiry claims \<le> claim_issued_at claims + 100"
    by (simp_all add: sample_claims_def)
  have "claim_token_id claims \<noteq> ''token_22''"
    by (rule revocation_takes_effect [OF reach wf ingested started_wf loaded_reach sent _ refl sidecar_wired_set e c])
      (use times in \<open>simp_all add: sample_authority_def now_moment_def sample_moment_def\<close>)
  then show ?thesis using e c by auto
qed

definition issued_entry :: CapabilityEntry where
  "issued_entry = \<lparr>entry_raw_token = ''claims'', entry_claims = issued_claims\<rparr>"

lemma sample_issued_for:
  "issued_for sample_issuance issue_paseto () () 60 issued_entry 0 0 issue_store issue_request"
proof -
  have "session_id_try_from ''ses_1'' = Ok ''ses_1''" by code_simp
  then show ?thesis
    unfolding issued_for_def using sample_issue issue_paseto_laws
    by (intro exI [of _ "''tok_1''"] exI [of _ issue_store] exI [of _ "\<lparr>is_raw_token = ''claims'', is_claims = issued_claims\<rparr>"])
      (simp add: issued_entry_def issue_paseto_def sample_paseto_lib_def issue_request_def)
qed

lemma issued_admits:
  "is_allow (fst (fst (EnforcementPipeline_enforce (sidecar_lib issue_paseto quick_check) sample_admission now_moment
     sample_request ''ses_1'' (sidecar_with issued_entry store))))"
  by code_simp

theorem admitted_action_was_permitted_witness:
  "\<exists>env entry now_ms issued_at policies req a.
      issued_for sample_issuance issue_paseto () () 60 entry now_ms issued_at policies req
    \<and> normalize (pl_normalizer (sidecar_lib issue_paseto (is_revoked sample_xxh3 assoc_lru))) (ps_normalizer (cl_published synced))
        (ad_normalized_at sample_admission) sample_request = Ok env
    \<and> (a = intent_action_class (norm_intent env) \<or> a = ''*'') \<and> a \<in> set (ir_requested_actions req)
    \<and> action_verdict sample_issuance now_ms (cs_policy_set policies) (cs_schema policies) (ir_agent_id req) ''ses_1''
        (ir_resource_scope req) a = Some True"
  using issued_admits
proof (rule admits_claims)
  fix d audit self' claims
  assume e: "EnforcementPipeline_enforce (sidecar_lib issue_paseto (is_revoked sample_xxh3 assoc_lru))
      sample_admission now_moment sample_request ''ses_1'' (sidecar issued_entry) = ((d, audit), self')" and d: "admitted d"
  have w: "wired (sidecar_lib issue_paseto (is_revoked sample_xxh3 assoc_lru)) now_moment issue_paseto sample_verifier sample_xxh3
      assoc_lru [issued_entry] synced (sidecar issued_entry)"
    by (simp add: wired_def sidecar_lib_def now_moment_def sidecar_with_def CapabilityValidator_new_def synced_def loaded_not_connected)
  have issued: "\<forall>entry \<in> set [issued_entry]. \<exists>now_ms issued_at policies req.
      issued_for sample_issuance issue_paseto () () 60 entry now_ms issued_at policies req"
    using sample_issued_for by auto
  have key: "verifier_public_key sample_verifier = ()" and max: "0 < (60 :: nat)" by simp_all
  from admitted_action_was_permitted [OF w e d issued key max] show ?thesis by (elim exE conjE) (intro exI conjI, assumption+)
qed

end
